(* ===== verification/Prelude.thy ===== *)
theory Prelude
  imports Main "HOL-Library.Word"
begin

text \<open>
  Shared vocabulary of the development: the names of Go's machine types, the outcome of a
  piece of code that may panic or recurse, the error values of the modelled packages, the
  wrap-around of \<^verbatim>\<open>int64\<close> arithmetic, and the generic facts on lists, options and quorums
  that the component theories use.
\<close>

section \<open>Machine types\<close>

type_synonym byte = "8 word"

text \<open>\<^verbatim>\<open>common.Hash\<close> and \<^verbatim>\<open>common.Address\<close> are fixed byte arrays, read big-endian.\<close>

type_synonym hash = "256 word"
type_synonym address = "160 word"

text \<open>
  Go's \<^verbatim>\<open>int64\<close> values are integers in \<open>[-2^63, 2^63)\<close>; an operation whose exact result lies
  outside wraps around.
\<close>

definition i64 :: "int \<Rightarrow> int" where
  "i64 x = (x + 2 ^ 63) mod 2 ^ 64 - 2 ^ 63"

definition in_i64 :: "int \<Rightarrow> bool" where
  "in_i64 x \<longleftrightarrow> - (2 ^ 63) \<le> x \<and> x < 2 ^ 63"

lemma i64_id [simp]: "in_i64 x \<Longrightarrow> i64 x = x"
  by (simp add: i64_def in_i64_def)

lemma in_i64_i64 [simp]: "in_i64 (i64 x)"
proof -
  have "0 \<le> (x + 2 ^ 63) mod 2 ^ 64" and "(x + 2 ^ 63) mod 2 ^ 64 < (2::int) ^ 64"
    by simp_all
  then show ?thesis unfolding i64_def in_i64_def by simp
qed

text \<open>
  A \<^verbatim>\<open>uint64\<close> is a \<open>nat\<close>; \<^verbatim>\<open>big.Int.Uint64\<close> takes the low 64 bits of the absolute value, and a
  subtraction wraps around.
\<close>

definition Uint64 :: "int \<Rightarrow> nat" where
  "Uint64 n = nat (\<bar>n\<bar> mod 2 ^ 64)"

definition u64_sub :: "nat \<Rightarrow> nat \<Rightarrow> nat" where
  "u64_sub a b = nat ((int a - int b) mod 2 ^ 64)"

lemma Uint64_less: "Uint64 n < 2 ^ 64"
  by (simp add: Uint64_def nat_less_iff)

lemma Uint64_id: "0 \<le> n \<Longrightarrow> n < 2 ^ 64 \<Longrightarrow> Uint64 n = nat n"
  by (simp add: Uint64_def)

lemma u64_sub_le: "b \<le> a \<Longrightarrow> a < 2 ^ 64 \<Longrightarrow> u64_sub a b = a - b"
  by (simp add: u64_sub_def of_nat_diff [symmetric] nat_mod_distrib del: of_nat_diff)

text \<open>Go's remainder truncates towards zero: it has the sign of the dividend.\<close>

definition go_rem :: "int \<Rightarrow> int \<Rightarrow> int" where
  "go_rem a b = (if 0 \<le> a then a mod \<bar>b\<bar> else - ((- a) mod \<bar>b\<bar>))"

lemma go_rem_nonneg [simp]: "0 \<le> a \<Longrightarrow> 0 < b \<Longrightarrow> go_rem a b = a mod b"
  by (simp add: go_rem_def)

lemma go_rem_bound: "0 < b \<Longrightarrow> \<bar>go_rem a b\<bar> < b"
  by (auto simp: go_rem_def abs_if not_le intro: le_less_trans [where y = 0] dest: pos_mod_sign)

section \<open>Outcomes and errors\<close>

text \<open>
  A call that returns normally is \<open>Done\<close>; a Go run-time panic or a \<^verbatim>\<open>logger.Panicw\<close> is
  \<open>Panic\<close>; \<open>Out_Of_Fuel\<close> is the value of a recursion cut off by its fuel argument and never a
  behaviour of the program.
\<close>

datatype 'a outcome = Done 'a | Panic string | Out_Of_Fuel

fun obind :: "'a outcome \<Rightarrow> ('a \<Rightarrow> 'b outcome) \<Rightarrow> 'b outcome" where
  "obind (Done x) f = f x"
| "obind (Panic s) f = Panic s"
| "obind Out_Of_Fuel f = Out_Of_Fuel"

lemma obind_Done_iff [simp]: "obind m f = Done y \<longleftrightarrow> (\<exists>x. m = Done x \<and> f x = Done y)"
  by (cases m) auto

lemma obind_Panic_iff [simp]:
  "obind m f = Panic s \<longleftrightarrow> m = Panic s \<or> (\<exists>x. m = Done x \<and> f x = Panic s)"
  by (cases m) auto

lemma obind_Out_Of_Fuel_iff [simp]:
  "obind m f = Out_Of_Fuel \<longleftrightarrow> m = Out_Of_Fuel \<or> (\<exists>x. m = Done x \<and> f x = Out_Of_Fuel)"
  by (cases m) auto

lemma obind_cong [fundef_cong]:
  "m = m' \<Longrightarrow> (\<And>x. m' = Done x \<Longrightarrow> f x = f' x) \<Longrightarrow> obind m f = obind m' f'"
  by (cases m') auto

text \<open>
  Stateful code is a function from the state before to a result: \<open>Ok\<close> with the value returned
  and the state after, \<open>Panicked\<close> with the state at the panic (what was sent to the network
  before a panic stays sent), or \<open>Unfinished\<close> when the fuel of a recursion ran out.
\<close>

datatype ('a, 's) res = Ok 'a 's | Panicked string 's | Unfinished

type_synonym ('a, 's) exec = "'s \<Rightarrow> ('a, 's) res"

definition ret :: "'a \<Rightarrow> ('a, 's) exec" where
  "ret x s = Ok x s"

definition bnd :: "('a, 's) exec \<Rightarrow> ('a \<Rightarrow> ('b, 's) exec) \<Rightarrow> ('b, 's) exec" where
  "bnd m f s =
    (case m s of Ok x s' \<Rightarrow> f x s' | Panicked e s' \<Rightarrow> Panicked e s' | Unfinished \<Rightarrow> Unfinished)"

definition panic :: "string \<Rightarrow> ('a, 's) exec" where
  "panic e s = Panicked e s"

definition modify :: "('s \<Rightarrow> 's) \<Rightarrow> (unit, 's) exec" where
  "modify f s = Ok () (f s)"

definition get :: "('s \<Rightarrow> ('a, 's) exec) \<Rightarrow> ('a, 's) exec" where
  "get f s = f s s"

definition lift :: "'a outcome \<Rightarrow> ('a, 's) exec" where
  "lift m s = (case m of Done x \<Rightarrow> Ok x s | Panic e \<Rightarrow> Panicked e s | Out_Of_Fuel \<Rightarrow> Unfinished)"

text \<open>Statements in sequence.\<close>

fun seqs :: "(unit, 's) exec list \<Rightarrow> (unit, 's) exec" where
  "seqs [] = ret ()"
| "seqs (m # ms) = bnd m (\<lambda>_. seqs ms)"

text \<open>
  The weakest precondition: \<open>Q\<close> of the value and state returned, \<open>R\<close> of the state at a panic.
\<close>

definition wp :: "('a, 's) exec \<Rightarrow> ('a \<Rightarrow> 's \<Rightarrow> bool) \<Rightarrow> ('s \<Rightarrow> bool) \<Rightarrow> 's \<Rightarrow> bool" where
  "wp m Q R s = (case m s of Ok x s' \<Rightarrow> Q x s' | Panicked _ s' \<Rightarrow> R s' | Unfinished \<Rightarrow> True)"

named_theorems wp_simps \<open>equations that compute weakest preconditions\<close>

lemma wp_ret [wp_simps]: "wp (ret x) Q R s = Q x s"
  by (simp add: wp_def ret_def)

lemma wp_bnd [wp_simps]: "wp (bnd m f) Q R s = wp m (\<lambda>x. wp (f x) Q R) R s"
  by (simp add: wp_def bnd_def split: res.split)

lemma wp_panic [wp_simps]: "wp (panic e) Q R s = R s"
  by (simp add: wp_def panic_def)

lemma wp_modify [wp_simps]: "wp (modify f) Q R s = Q () (f s)"
  by (simp add: wp_def modify_def)

lemma wp_get [wp_simps]: "wp (get f) Q R s = wp (f s) Q R s"
  by (simp add: wp_def get_def)

lemma wp_lift [wp_simps]:
  "wp (lift m) Q R s = (case m of Done x \<Rightarrow> Q x s | Panic _ \<Rightarrow> R s | Out_Of_Fuel \<Rightarrow> True)"
  by (simp add: wp_def lift_def split: outcome.split)

lemma wp_seqs [wp_simps]:
  "wp (seqs []) Q R s = Q () s"
  "wp (seqs (m # ms)) Q R s = wp m (\<lambda>_. wp (seqs ms) Q R) R s"
  by (simp_all add: wp_ret wp_bnd)

lemma wp_seqs_Nil: "wp (seqs []) Q R = Q ()"
  by (simp add: fun_eq_iff wp_ret)

declare seqs.simps [simp del]

lemma wp_if [wp_simps]: "wp (if b then m else m') Q R s = (if b then wp m Q R s else wp m' Q R s)"
  by simp

lemma wp_mono:
  assumes "wp m Q R s" "\<And>x s'. Q x s' \<Longrightarrow> Q' x s'" "\<And>s'. R s' \<Longrightarrow> R' s'"
  shows "wp m Q' R' s"
  using assms by (simp add: wp_def split: res.splits)

lemma wp_OkD: "wp m Q R s \<Longrightarrow> m s = Ok x s' \<Longrightarrow> Q x s'"
  by (simp add: wp_def)

lemma wp_PanickedD: "wp m Q R s \<Longrightarrow> m s = Panicked e s' \<Longrightarrow> R s'"
  by (simp add: wp_def)

text \<open>The error values the modelled code returns, one constructor per Go error variable.\<close>

datatype error =
    ErrInvalidProposalPOLRound
  | ErrInvalidProposalSignature
  | ErrVoteHeightMismatch
  | ErrVoteInvalidValidatorAddress
  | ErrEmptyBlockProposal
  | ErrSignerMessageMissMatch
  | ErrCatchUpReplyAddressMissMatch
  | ErrConflictingVotes
  | ErrDifferentMsgType
  | ErrKnownBlock
  | ErrStartedEngine
  | ErrStoppedEngine
  | ErrEmptyCommittedSeals
  | ErrEmptyValSet
  | ErrMismatchValSet
  | ErrInvalidSignature
  | ErrUnknownBlock
  | ErrUnauthorized
  | ErrInvalidDifficulty
  | ErrInvalidExtraDataFormat
  | ErrInvalidMixDigest
  | ErrInvalidCommittedSeals
  | ErrCoinBaseInvalid
  | ErrInvalidUncleHash
  | ErrUnknownParent
  | ErrFinalizeZeroBlock
  | ErrUnknownAncestor
  | ErrFutureBlock
  | ErrInvalidSealLength
  | ErrInvalidTendermintHeaderExtra
  | ErrNoBroadcaster
  | ErrEmptyValidatorSet
  | ErrNoCode
  | EOF
  | ErrDecode
  | ErrOther string

section \<open>Lists\<close>

text \<open>The index of the first element equal to \<open>x\<close>, as the scanning loops of the code find it.\<close>

fun index_of :: "'a \<Rightarrow> 'a list \<Rightarrow> nat option" where
  "index_of x [] = None"
| "index_of x (y # ys) = (if x = y then Some 0 else map_option Suc (index_of x ys))"

lemma index_of_None_iff: "index_of x xs = None \<longleftrightarrow> x \<notin> set xs"
  by (induction xs) auto

lemma index_of_Some_iff:
  "index_of x xs = Some i \<longleftrightarrow> i < length xs \<and> xs ! i = x \<and> x \<notin> set (take i xs)"
proof (induction xs arbitrary: i)
  case Nil
  then show ?case by simp
next
  case (Cons y ys)
  then show ?case by (cases i) auto
qed

lemma index_of_SomeD:
  assumes "index_of x xs = Some i"
  shows "i < length xs" and "xs ! i = x" and "x \<in> set xs"
  using assms by (auto simp: index_of_Some_iff)

lemma index_of_inj: "index_of x xs = Some i \<Longrightarrow> index_of y xs = Some i \<Longrightarrow> x = y"
  by (auto simp: index_of_Some_iff)

lemma index_of_distinct: "distinct xs \<Longrightarrow> i < length xs \<Longrightarrow> index_of (xs ! i) xs = Some i"
  by (auto simp: index_of_Some_iff in_set_conv_nth nth_eq_iff_index_eq)

lemma index_of_in_set: "x \<in> set xs \<Longrightarrow> \<exists>i. index_of x xs = Some i"
  by (cases "index_of x xs") (auto simp: index_of_None_iff)

lemma sort_key_eq_Nil [simp]: "sort_key f xs = [] \<longleftrightarrow> xs = []"
  by (metis length_0_conv length_sort)

section \<open>Counting subsets\<close>

text \<open>
  Two subsets of a finite set whose sizes add up to more than the whole plus \<open>f\<close> share more than
  \<open>f\<close> elements, so they share one outside any set of at most \<open>f\<close>.
\<close>

lemma card_Int_lower:
  assumes "finite E" "A \<subseteq> E" "B \<subseteq> E"
  shows "card A + card B \<le> card E + card (A \<inter> B)"
proof -
  have fin: "finite A" "finite B"
    using assms finite_subset by blast+
  have "card (A \<union> B) \<le> card E"
    using assms by (intro card_mono) auto
  moreover have "card A + card B = card (A \<union> B) + card (A \<inter> B)"
    using fin by (rule card_Un_Int)
  ultimately show ?thesis by linarith
qed

lemma quorums_share_outside:
  assumes "finite E" "A \<subseteq> E" "B \<subseteq> E" "card Z \<le> f" "finite Z"
    and "card E + f < card A + card B"
  obtains x where "x \<in> A" "x \<in> B" "x \<notin> Z"
proof -
  have "f < card (A \<inter> B)"
    using card_Int_lower [OF assms(1-3)] assms(6) by linarith
  then have "\<not> A \<inter> B \<subseteq> Z"
    using assms(4,5) by (meson card_mono le_trans not_le)
  then show thesis using that by blast
qed

end
