(* ===== verification/Common.thy ===== *)
theory Common
  imports Prelude "HOL-Library.List_Lexorder" "HOL-Library.Char_ord"
begin

text \<open>
  Package \<^verbatim>\<open>common\<close>: the textual form of an address (\<^verbatim>\<open>Address.Hex\<close> in \<^verbatim>\<open>common/types.go\<close>), by which
  validators are ordered, and the conversions between words and big-endian bytes. Keccak-256 is a
  library the repository imports; it is the parameter \<open>kec\<close> of the definitions that use it.
  The main fact is that the checksummed form is injective whatever the hash is.
\<close>

section \<open>Nibbles and hex digits\<close>

definition hex_digit :: "nat \<Rightarrow> char" where
  "hex_digit n = ''0123456789abcdef'' ! n"

text \<open>\<^verbatim>\<open>hex.EncodeToString(a[:])\<close>: the forty nibbles of the address, most significant first.\<close>

definition addr_nibble :: "address \<Rightarrow> nat \<Rightarrow> nat" where
  "addr_nibble a i = unat (take_bit 4 (drop_bit (4 * (39 - i)) a))"

definition hash_nibble :: "hash \<Rightarrow> nat \<Rightarrow> nat" where
  "hash_nibble h i = unat (take_bit 4 (drop_bit (4 * (63 - i)) h))"

definition EncodeToString :: "address \<Rightarrow> string" where
  "EncodeToString a = map (\<lambda>i. hex_digit (addr_nibble a i)) [0..<40]"

text \<open>One character of the EIP-55 form: a letter is capitalised when the hash nibble exceeds 7.\<close>

definition checksum_char :: "nat \<Rightarrow> char \<Rightarrow> char" where
  "checksum_char n c =
     (if c > CHR ''9'' \<and> n > 7 then char_of (of_char c - 32 :: nat) else c)"

definition Address_Hex :: "(byte list \<Rightarrow> hash) \<Rightarrow> address \<Rightarrow> string" where
  "Address_Hex kec a =
     (let unchecksummed = EncodeToString a;
          h = kec (map of_char unchecksummed)
      in ''0x'' @ map (\<lambda>i. checksum_char (hash_nibble h i) (unchecksummed ! i)) [0..<40])"

section \<open>The checksummed form is injective\<close>

lemma addr_nibble_less: "addr_nibble a i < 16"
proof -
  have "addr_nibble a i = take_bit 4 (unat (drop_bit (4 * (39 - i)) a))"
    by (simp add: addr_nibble_def unsigned_take_bit_eq)
  also have "\<dots> < 2 ^ 4" by (rule take_bit_nat_less_exp)
  finally show ?thesis by simp
qed

lemma addr_nibble_bit:
  assumes "n < 160"
  shows "bit a n \<longleftrightarrow> bit (addr_nibble a (39 - n div 4)) (n mod 4)"
proof -
  have le: "n div 4 \<le> 39" using assms by simp
  then have idx: "39 - (39 - n div 4) = n div 4" by simp
  have "bit (addr_nibble a (39 - n div 4)) (n mod 4) \<longleftrightarrow>
        bit (take_bit 4 (drop_bit (4 * (n div 4)) a)) (n mod 4)"
    unfolding addr_nibble_def idx by (simp add: bit_unsigned_iff)
  also have "\<dots> \<longleftrightarrow> bit a (4 * (n div 4) + n mod 4)"
    by (simp add: bit_take_bit_iff bit_drop_bit_eq)
  finally show ?thesis by simp
qed

lemma addr_nibbles_inj: "(\<And>i. i < 40 \<Longrightarrow> addr_nibble a i = addr_nibble b i) \<Longrightarrow> a = b"
proof (rule bit_word_eqI)
  fix n :: nat
  assume eq: "\<And>i. i < 40 \<Longrightarrow> addr_nibble a i = addr_nibble b i" and "n < LENGTH(160)"
  then have n: "n < 160" by simp
  have "39 - n div 4 < 40" by simp
  then show "bit a n = bit b n"
    by (simp add: addr_nibble_bit [OF n] eq)
qed

text \<open>The value of a hex digit of either case, the left inverse of \<open>checksum_char\<close> on digits.\<close>

definition hex_val :: "char \<Rightarrow> nat" where
  "hex_val c =
     (let k = of_char c in if k < 58 then k - 48 else if k < 71 then k - 55 else k - 87)"

lemma checksum_digits_list:
  "list_all (\<lambda>m. list_all (\<lambda>u. hex_val (checksum_char u (hex_digit m)) = m \<and>
     (48 :: nat) \<le> of_char (checksum_char u (hex_digit m))) [0, 8]) [0..<16]"
  by (simp add: upt_rec hex_digit_def checksum_char_def hex_val_def less_char_def char_of_def bit_0)

lemma checksum_digits:
  assumes "m < 16"
  shows "hex_val (checksum_char u (hex_digit m)) = m"
    and "CHR ''0'' \<le> checksum_char u (hex_digit m)"
proof -
  have "checksum_char u (hex_digit m) = checksum_char (if u > 7 then 8 else 0) (hex_digit m)"
    by (simp add: checksum_char_def)
  moreover have "m \<in> set [0..<16]" using assms by simp
  ultimately show "hex_val (checksum_char u (hex_digit m)) = m"
    and "CHR ''0'' \<le> checksum_char u (hex_digit m)"
    using checksum_digits_list by (auto simp: list_all_iff less_eq_char_def)
qed

lemma checksum_char_digit_inj:
  assumes "checksum_char u (hex_digit m) = checksum_char v (hex_digit n)" "m < 16" "n < 16"
  shows "m = n"
  using checksum_digits(1) [OF assms(2)] checksum_digits(1) [OF assms(3)] assms(1) by metis

lemma Address_Hex_nth:
  "i < 40 \<Longrightarrow> \<exists>u. Address_Hex kec a ! (i + 2) = checksum_char u (hex_digit (addr_nibble a i))"
  by (auto simp: Address_Hex_def Let_def EncodeToString_def nth_Cons')

lemma length_Address_Hex [simp]: "length (Address_Hex kec a) = 42"
  by (simp add: Address_Hex_def Let_def)

lemma Address_Hex_inject: "Address_Hex kec a = Address_Hex kec b \<longleftrightarrow> a = b"
proof
  assume eq: "Address_Hex kec a = Address_Hex kec b"
  show "a = b"
  proof (rule addr_nibbles_inj)
    fix i :: nat
    assume "i < 40"
    then obtain u v where
      "checksum_char u (hex_digit (addr_nibble a i)) = checksum_char v (hex_digit (addr_nibble b i))"
      using Address_Hex_nth [of i kec a] Address_Hex_nth [of i kec b] unfolding eq by metis
    then show "addr_nibble a i = addr_nibble b i"
      by (rule checksum_char_digit_inj) (simp_all add: addr_nibble_less)
  qed
qed simp

lemma inj_Address_Hex: "inj_on (Address_Hex kec) A"
  by (simp add: inj_on_def Address_Hex_inject)

section \<open>The zero address comes first\<close>

lemma replicate_le_list:
  fixes c :: "'a :: linorder"
  assumes "\<And>x. x \<in> set xs \<Longrightarrow> c \<le> x" and "n = length xs"
  shows "replicate n c \<le> xs"
  using assms
proof (induction xs arbitrary: n)
  case Nil
  then show ?case by simp
next
  case (Cons x xs)
  then have "c \<le> x" "replicate (length xs) c \<le> xs" by auto
  with Cons.prems(2) show ?case by (auto simp: less_le)
qed

lemma Address_Hex_zero: "Address_Hex kec 0 = ''0x'' @ replicate 40 (CHR ''0'')"
proof -
  have nib: "addr_nibble 0 i = 0" for i by (simp add: addr_nibble_def)
  have d0: "hex_digit 0 = CHR ''0''" by (simp add: hex_digit_def)
  have cs: "checksum_char u (CHR ''0'') = CHR ''0''" for u
    by (simp add: checksum_char_def less_char_def)
  have enc: "EncodeToString 0 = replicate 40 (CHR ''0'')"
    by (simp add: EncodeToString_def nib d0 map_replicate_const del: upt_rec_numeral)
  have "map (\<lambda>i. checksum_char (f i) (EncodeToString 0 ! i)) [0..<40] = replicate 40 (CHR ''0'')" for f
    by (rule nth_equalityI) (simp_all add: enc cs)
  then show ?thesis by (simp only: Address_Hex_def Let_def)
qed

lemma Address_Hex_zero_le: "Address_Hex kec 0 \<le> Address_Hex kec a"
proof -
  let ?t = "map (\<lambda>i. checksum_char (hash_nibble (kec (map of_char (EncodeToString a))) i)
              (EncodeToString a ! i)) [0..<40]"
  have "replicate 40 (CHR ''0'') \<le> ?t"
    by (rule replicate_le_list)
      (auto simp: EncodeToString_def intro: checksum_digits(2) addr_nibble_less)
  then show ?thesis
    unfolding Address_Hex_zero by (simp add: Address_Hex_def Let_def)
qed

end
