(* ===== verification/Validator_Set.thy ===== *)
theory Validator_Set
  imports Common "HOL-Library.Multiset"
begin

text \<open>
  The validator set of one height: \<^verbatim>\<open>consensus/tendermint/validator/default.go\<close>,
  \<^verbatim>\<open>consensus/tendermint/validator/validator.go\<close> and the ordering of
  \<^verbatim>\<open>consensus/tendermint/validator.go\<close>. A validator is its address, so the slice
  \<^verbatim>\<open>[]tendermint.Validator\<close> is a list of addresses and a nil \<^verbatim>\<open>Validator\<close> is \<open>None\<close>.
  The read-write lock is not modelled. The float computations \<^verbatim>\<open>math.Ceil(float64(n)/3)\<close> and
  \<^verbatim>\<open>math.Ceil(math.Sqrt(float64(n)))\<close> are exact for every size a slice can have in memory, and are
  written on integers.
\<close>

section \<open>The set and its operations\<close>

datatype ProposerPolicy = RoundRobin | Sticky

record defaultSet =
  validators :: "address list"
  policy :: ProposerPolicy
  proposer :: "address option"
  setHeight :: int

definition Size :: "defaultSet \<Rightarrow> int" where
  "Size vs = int (length (validators vs))"

text \<open>A negative index passes the test of the code and panics in the slice access.\<close>

definition GetByIndex :: "defaultSet \<Rightarrow> int \<Rightarrow> address option outcome" where
  "GetByIndex vs i =
     (if i < Size vs then
        (if i < 0 then Panic ''index out of range'' else Done (Some (validators vs ! nat i)))
      else Done None)"

definition newDefaultSet ::
  "(byte list \<Rightarrow> hash) \<Rightarrow> address list \<Rightarrow> ProposerPolicy \<Rightarrow> int \<Rightarrow> defaultSet outcome" where
  "newDefaultSet kec addrs pol h =
     (let vs = \<lparr>validators = sort_key (Address_Hex kec) addrs, policy = pol, proposer = None,
                setHeight = h\<rparr>
      in if Size vs > 0 then
           (let shiftHeight = (if h > 0 then h - 1 else h);
                index = go_rem shiftHeight (Size vs)
            in obind (GetByIndex vs index) (\<lambda>p. Done (vs\<lparr>proposer := p\<rparr>)))
         else Done vs)"

text \<open>\<^verbatim>\<open>GetByAddress\<close> returns the pair of index and validator, \<^verbatim>\<open>(-1, nil)\<close> when there is none.\<close>

definition GetByAddress :: "defaultSet \<Rightarrow> address \<Rightarrow> int \<times> address option" where
  "GetByAddress vs a =
     (case index_of a (validators vs) of
        Some i \<Rightarrow> (int i, Some a)
      | None \<Rightarrow> (-1, None))"

definition calcSeed :: "defaultSet \<Rightarrow> address \<Rightarrow> int \<Rightarrow> int" where
  "calcSeed vs p roundDiff =
     (let offset = (case GetByAddress vs p of (idx, Some _) \<Rightarrow> idx | (_, None) \<Rightarrow> 0)
      in i64 (offset + roundDiff))"

definition emptyAddress :: "address \<Rightarrow> bool" where
  "emptyAddress a \<longleftrightarrow> a = 0"

definition roundRobinProposer :: "defaultSet \<Rightarrow> address \<Rightarrow> int \<Rightarrow> address option outcome" where
  "roundRobinProposer vs p roundDiff =
     (if Size vs = 0 then Done None
      else
        (let seed = (if emptyAddress p then roundDiff else calcSeed vs p roundDiff);
             pick = go_rem seed (Size vs)
         in GetByIndex vs pick))"

definition stickyProposer :: "defaultSet \<Rightarrow> address \<Rightarrow> int \<Rightarrow> address option outcome" where
  "stickyProposer vs p roundDiff =
     (if Size vs = 0 then Done None
      else
        (let seed = (if emptyAddress p then roundDiff else calcSeed vs p roundDiff);
             pick = go_rem seed (Size vs)
         in GetByIndex vs pick))"

text \<open>The selector is a field set by the constructor from the policy, and never changed.\<close>

definition selector :: "defaultSet \<Rightarrow> address \<Rightarrow> int \<Rightarrow> address option outcome" where
  "selector vs = (if policy vs = Sticky then stickyProposer vs else roundRobinProposer vs)"

definition CalcProposer :: "defaultSet \<Rightarrow> address \<Rightarrow> int \<Rightarrow> defaultSet outcome" where
  "CalcProposer vs lastProposer roundDiff =
     obind (selector vs lastProposer roundDiff) (\<lambda>p. Done (vs\<lparr>proposer := p\<rparr>))"

definition AddValidator :: "defaultSet \<Rightarrow> address \<Rightarrow> bool \<times> defaultSet" where
  "AddValidator vs a =
     (if a \<in> set (validators vs) then (False, vs)
      else (True, vs\<lparr>validators := validators vs @ [a]\<rparr>))"

text \<open>The first occurrence is cut out of the slice.\<close>

definition RemoveValidator :: "defaultSet \<Rightarrow> address \<Rightarrow> bool \<times> defaultSet" where
  "RemoveValidator vs a =
     (case index_of a (validators vs) of
        None \<Rightarrow> (False, vs)
      | Some i \<Rightarrow> (True, vs\<lparr>validators := take i (validators vs) @ drop (i + 1) (validators vs)\<rparr>))"

definition Copy :: "(byte list \<Rightarrow> hash) \<Rightarrow> defaultSet \<Rightarrow> defaultSet outcome" where
  "Copy kec vs = newDefaultSet kec (validators vs) (policy vs) (setHeight vs)"

definition valF :: "defaultSet \<Rightarrow> int" where
  "valF vs = (Size vs + 2) div 3 - 1"

definition valV :: "defaultSet \<Rightarrow> int" where
  "valV vs = (Size vs + 1) div 2"

definition MinPeers :: "defaultSet \<Rightarrow> int" where
  "MinPeers vs = Size vs - valF vs - 1"

definition MinMajority :: "defaultSet \<Rightarrow> int" where
  "MinMajority vs = Size vs - valF vs"

text \<open>\<^verbatim>\<open>reflect.DeepEqual(valSet.GetProposer(), val)\<close>: two nil interfaces are equal.\<close>

definition IsProposer :: "defaultSet \<Rightarrow> address \<Rightarrow> bool" where
  "IsProposer vs a \<longleftrightarrow> proposer vs = snd (GetByAddress vs a)"

text \<open>The least \<open>k\<close> with \<open>n \<le> k * k\<close>, the value of \<^verbatim>\<open>math.Ceil(math.Sqrt(n))\<close>.\<close>

function ceil_sqrt_from :: "nat \<Rightarrow> nat \<Rightarrow> nat" where
  "ceil_sqrt_from k n = (if n \<le> k * k then k else ceil_sqrt_from (Suc k) n)"
  by pat_completeness auto
termination
proof (relation "measure (\<lambda>(k, n). n - k)")
  fix k n :: nat
  assume "\<not> n \<le> k * k"
  then have "k < n" using le_square [of k] by linarith
  then show "((Suc k, n), (k, n)) \<in> measure (\<lambda>(k, n). n - k)" by simp
qed simp

declare ceil_sqrt_from.simps [simp del]

definition ceil_sqrt :: "nat \<Rightarrow> nat" where
  "ceil_sqrt n = ceil_sqrt_from 0 n"

text \<open>
  The neighbours a node rebroadcasts to: the next \<open>ceil_sqrt n\<close> validators in ring order, itself
  left out. The map of the code has \<^verbatim>\<open>true\<close> at every key, so it is the list of its keys.
\<close>

definition neighborIndex :: "nat \<Rightarrow> nat \<Rightarrow> nat \<Rightarrow> nat" where
  "neighborIndex n i j = (let k = i + j + 1 in if k \<ge> n then k - n else k)"

definition GetNeighbors :: "defaultSet \<Rightarrow> address \<Rightarrow> address list option" where
  "GetNeighbors vs a =
     (case index_of a (validators vs) of
        None \<Rightarrow> None
      | Some i \<Rightarrow>
          (let n = length (validators vs)
           in Some (map (\<lambda>k. validators vs ! k)
                (filter (\<lambda>k. k \<noteq> i) (map (neighborIndex n i) [0..<ceil_sqrt n])))))"

definition ExtractValidators :: "byte list \<Rightarrow> byte list list" where
  "ExtractValidators extraData =
     map (\<lambda>i. take 20 (drop (i * 20) extraData)) [0..<length extraData div 20]"

section \<open>Interfaces of the set\<close>

text \<open>
  What the vote counting relies on: a family of finite sets with a majority threshold such that
  two majorities share more members than may be faulty.
\<close>

locale quorum_sets =
  fixes members :: "'s \<Rightarrow> 'a set"
    and threshold :: "'s \<Rightarrow> int"
    and faulty :: "'s \<Rightarrow> int"
    and ok :: "'s \<Rightarrow> bool"
  assumes finite_members: "finite (members s)"
    and faulty_nonneg: "ok s \<Longrightarrow> 0 \<le> faulty s"
    and overlap: "ok s \<Longrightarrow> int (card (members s)) + faulty s < 2 * threshold s"
begin

lemma majorities_share_correct:
  assumes "ok s" "A \<subseteq> members s" "B \<subseteq> members s"
    and "threshold s \<le> int (card A)" "threshold s \<le> int (card B)"
    and "finite Z" "int (card Z) \<le> faulty s"
  obtains x where "x \<in> A" "x \<in> B" "x \<notin> Z"
proof (rule quorums_share_outside [of "members s" A B Z "nat (faulty s)"])
  show "finite (members s)" by (rule finite_members)
  show "card Z \<le> nat (faulty s)" using assms(7) by linarith
  show "card (members s) + nat (faulty s) < card A + card B"
    using overlap [OF assms(1)] faulty_nonneg [OF assms(1)] assms(4,5) by linarith
qed (use assms that in auto)

lemma majorities_meet:
  assumes "ok s" "A \<subseteq> members s" "B \<subseteq> members s"
    and "threshold s \<le> int (card A)" "threshold s \<le> int (card B)"
  shows "A \<inter> B \<noteq> {}"
proof -
  have "int (card ({} :: 'a set)) \<le> faulty s" using faulty_nonneg [OF assms(1)] by simp
  then obtain x where "x \<in> A" "x \<in> B"
    using majorities_share_correct [OF assms finite.emptyI] by blast
  then show ?thesis by blast
qed

end

text \<open>
  What the seal check relies on: removing a present element succeeds and takes it out, removing an
  absent one fails and changes nothing.
\<close>

fun remove_all :: "('s \<Rightarrow> 'a \<Rightarrow> bool \<times> 's) \<Rightarrow> 's \<Rightarrow> 'a list \<Rightarrow> 's option" where
  "remove_all remove s [] = Some s"
| "remove_all remove s (a # as) =
     (case remove s a of (True, s') \<Rightarrow> remove_all remove s' as | (False, _) \<Rightarrow> None)"

locale removable =
  fixes elems :: "'s \<Rightarrow> 'a list"
    and remove :: "'s \<Rightarrow> 'a \<Rightarrow> bool \<times> 's"
  assumes remove_present:
      "distinct (elems s) \<Longrightarrow> a \<in> set (elems s) \<Longrightarrow>
         \<exists>s'. remove s a = (True, s') \<and> distinct (elems s') \<and> set (elems s') = set (elems s) - {a}"
    and remove_absent: "a \<notin> set (elems s) \<Longrightarrow> remove s a = (False, s)"
begin

lemma remove_all_iff:
  "distinct (elems s) \<Longrightarrow>
     (\<exists>s'. remove_all remove s as = Some s') \<longleftrightarrow> distinct as \<and> set as \<subseteq> set (elems s)"
proof (induction as arbitrary: s)
  case Nil
  then show ?case by simp
next
  case (Cons a as)
  show ?case
  proof (cases "a \<in> set (elems s)")
    case True
    with Cons.prems obtain s' where s': "remove s a = (True, s')" "distinct (elems s')"
        "set (elems s') = set (elems s) - {a}"
      using remove_present by blast
    with Cons.IH [of s'] True show ?thesis by auto
  next
    case False
    then show ?thesis using remove_absent [of a s] by auto
  qed
qed

end

section \<open>Thresholds\<close>

text \<open>The set of a height holds each validator once, and at least one.\<close>

definition valset_ok :: "defaultSet \<Rightarrow> bool" where
  "valset_ok vs \<longleftrightarrow> distinct (validators vs) \<and> validators vs \<noteq> []"

lemma valset_ok_card [simp]: "valset_ok vs \<Longrightarrow> int (card (set (validators vs))) = Size vs"
  by (simp add: valset_ok_def Size_def distinct_card)

lemma Size_pos: "valset_ok vs \<Longrightarrow> 0 < Size vs"
  by (simp add: valset_ok_def Size_def)

lemma threshold_bounds:
  assumes "0 < Size vs"
  shows "0 \<le> valF vs" and "3 * valF vs < Size vs" and "Size vs \<le> 3 * valF vs + 3"
    and "Size vs + valF vs < 2 * MinMajority vs"
  using assms unfolding valF_def MinMajority_def by presburger+

interpretation vq: quorum_sets "\<lambda>vs. set (validators vs)" MinMajority valF valset_ok
  by unfold_locales (auto dest: Size_pos threshold_bounds)

interpretation vr: removable validators RemoveValidator
proof
  fix vs :: defaultSet and a :: address
  assume d: "distinct (validators vs)" and a: "a \<in> set (validators vs)"
  obtain i where i: "index_of a (validators vs) = Some i"
    using index_of_in_set [OF a] by blast
  let ?vs' = "vs\<lparr>validators := take i (validators vs) @ drop (i + 1) (validators vs)\<rparr>"
  have split: "validators vs = take i (validators vs) @ a # drop (i + 1) (validators vs)"
    using index_of_SomeD [OF i] by (metis Suc_eq_plus1 id_take_nth_drop)
  have "distinct (validators ?vs') \<and> set (validators ?vs') = set (validators vs) - {a}"
    using d by (subst (asm) split, subst (3) split) auto
  then show "\<exists>vs'. RemoveValidator vs a = (True, vs') \<and> distinct (validators vs') \<and>
      set (validators vs') = set (validators vs) - {a}"
    using i by (auto simp: RemoveValidator_def)
next
  fix vs :: defaultSet and a :: address
  assume "a \<notin> set (validators vs)"
  then show "RemoveValidator vs a = (False, vs)"
    by (simp add: RemoveValidator_def index_of_None_iff [THEN iffD2])
qed

section \<open>Order and proposer\<close>

lemma newDefaultSet_nonempty:
  assumes "addrs \<noteq> []" and "0 \<le> h"
  shows "newDefaultSet kec addrs pol h =
    Done \<lparr>validators = sort_key (Address_Hex kec) addrs, policy = pol,
          proposer = Some (sort_key (Address_Hex kec) addrs !
                       nat ((if h > 0 then h - 1 else h) mod int (length addrs))),
          setHeight = h\<rparr>"
proof -
  have pos: "0 < int (length addrs)" using assms(1) by simp
  then have "\<not> k mod int (length addrs) < 0" for k by (simp add: not_less)
  with assms pos show ?thesis
    by (auto simp: newDefaultSet_def Let_def GetByIndex_def Size_def)
qed

lemma newDefaultSet_valset_ok:
  assumes "distinct addrs" "addrs \<noteq> []" "newDefaultSet kec addrs pol h = Done vs"
  shows "valset_ok vs" and "set (validators vs) = set addrs"
  using assms by (auto simp: newDefaultSet_def Let_def valset_ok_def split: if_splits)

text \<open>The slot of a validator in the order of the set.\<close>

definition slot :: "defaultSet \<Rightarrow> address \<Rightarrow> int" where
  "slot vs a = (case index_of a (validators vs) of Some i \<Rightarrow> int i | None \<Rightarrow> 0)"

lemma slot_bounds:
  assumes "a \<in> set (validators vs)"
  shows "0 \<le> slot vs a" and "slot vs a < Size vs" and "validators vs ! nat (slot vs a) = a"
proof -
  obtain i where "index_of a (validators vs) = Some i"
    using index_of_in_set [OF assms] by blast
  then show "0 \<le> slot vs a" "slot vs a < Size vs" "validators vs ! nat (slot vs a) = a"
    using index_of_SomeD by (auto simp: slot_def Size_def)
qed

lemma slot_nth: "valset_ok vs \<Longrightarrow> 0 \<le> k \<Longrightarrow> k < Size vs \<Longrightarrow> slot vs (validators vs ! nat k) = k"
  by (simp add: valset_ok_def Size_def slot_def index_of_distinct nat_less_iff)

text \<open>In a sorted set the zero address, when present, has slot 0.\<close>

lemma slot_zero:
  assumes "distinct (validators vs)" "sorted (map (Address_Hex kec) (validators vs))"
  shows "slot vs 0 = 0"
proof (cases "index_of 0 (validators vs)")
  case None
  then show ?thesis by (simp add: slot_def)
next
  case (Some i)
  note i = index_of_SomeD [OF Some]
  have "0 < length (validators vs)" using i(1) by linarith
  then have "Address_Hex kec (validators vs ! 0) \<le> Address_Hex kec (validators vs ! i)"
    using assms(2) i(1) sorted_nth_mono [of "map (Address_Hex kec) (validators vs)" 0 i] by simp
  then have "Address_Hex kec (validators vs ! 0) = Address_Hex kec 0"
    using Address_Hex_zero_le [of kec "validators vs ! 0"] i(2) by simp
  then have "validators vs ! 0 = validators vs ! i"
    using i(2) by (simp add: Address_Hex_inject)
  then have "i = 0"
    using assms(1) i(1) by (metis gr0I less_trans nth_eq_iff_index_eq)
  with Some show ?thesis by (simp add: slot_def)
qed

lemma proposer_update_inject: "vs\<lparr>proposer := x\<rparr> = vs\<lparr>proposer := y\<rparr> \<longleftrightarrow> x = y"
  by (auto dest: arg_cong [where f = proposer])

lemma CalcProposer_slot:
  assumes "valset_ok vs" and "sorted (map (Address_Hex kec) (validators vs))"
    and "0 \<le> d" "slot vs p + d < 2 ^ 63"
  shows "CalcProposer vs p d =
    Done (vs\<lparr>proposer := Some (validators vs ! nat ((slot vs p + d) mod Size vs))\<rparr>)"
proof -
  have pos: "0 < Size vs" using assms(1) by (rule Size_pos)
  have s0: "0 \<le> slot vs p" by (simp add: slot_def split: option.split)
  have "in_i64 (slot vs p + d)" using assms(3,4) s0 by (simp add: in_i64_def)
  then have "calcSeed vs p d = slot vs p + d"
    by (auto simp: calcSeed_def GetByAddress_def slot_def Let_def split: option.splits)
  moreover have "slot vs p = 0" if "emptyAddress p"
    using that slot_zero [of vs kec] assms(1,2) by (simp add: emptyAddress_def valset_ok_def)
  ultimately have pick: "go_rem (if emptyAddress p then d else calcSeed vs p d) (Size vs) =
      (slot vs p + d) mod Size vs"
    using pos s0 assms(3) by simp
  have "0 \<le> (slot vs p + d) mod Size vs" "(slot vs p + d) mod Size vs < Size vs"
    using pos by simp_all
  then have "GetByIndex vs ((slot vs p + d) mod Size vs) =
      Done (Some (validators vs ! nat ((slot vs p + d) mod Size vs)))"
    by (simp add: GetByIndex_def)
  with pick pos show ?thesis
    by (simp add: CalcProposer_def selector_def roundRobinProposer_def stickyProposer_def Let_def)
qed

lemma CalcProposer_twice_aux:
  assumes ok: "valset_ok vs" and srt: "sorted (map (Address_Hex kec) (validators vs))"
    and d: "0 \<le> d" "0 \<le> e" "slot vs p + d + e < 2 ^ 63" "Size vs + e < 2 ^ 63"
  shows "obind (CalcProposer vs p d) (\<lambda>vs'. CalcProposer vs' (the (proposer vs')) e) =
    CalcProposer vs p (d + e)"
proof -
  let ?k = "(slot vs p + d) mod Size vs"
  let ?q = "validators vs ! nat ?k"
  let ?vs' = "vs\<lparr>proposer := Some ?q\<rparr>"
  have pos: "0 < Size vs" using ok by (rule Size_pos)
  have k: "0 \<le> ?k" "?k < Size vs" using pos by simp_all
  have sl: "slot ?vs' ?q = ?k"
    using slot_nth [OF ok k] by (simp add: slot_def)
  have ok': "valset_ok ?vs'" "sorted (map (Address_Hex kec) (validators ?vs'))"
    using ok srt by (simp_all add: valset_ok_def)
  have first: "CalcProposer vs p d = Done ?vs'"
    using CalcProposer_slot [OF ok srt d(1), of p] d by simp
  have "CalcProposer ?vs' ?q e =
      Done (?vs'\<lparr>proposer := Some (validators ?vs' ! nat ((?k + e) mod Size ?vs'))\<rparr>)"
    using CalcProposer_slot [OF ok' d(2), of ?q] sl d(4) k by simp
  also have "\<dots> = CalcProposer vs p (d + e)"
    using CalcProposer_slot [OF ok srt, of "d + e" p] d
    by (simp add: Size_def mod_add_left_eq add.assoc)
  finally show ?thesis using first by simp
qed

section \<open>Properties\<close>

text \<open>
  C16. Thresholds of a non-empty set of \<open>n\<close> validators: with \<open>F\<close> the tolerated faults, \<open>n = MinMajority
  + F\<close> and \<open>3 F < n \<le> 3 F + 3\<close>; a vote count reaches \<open>MinMajority\<close> exactly when it is more than two
  thirds of \<open>n\<close>; and \<open>MinPeers\<close> counts a majority without the node itself.
\<close>

theorem MinMajority_two_thirds:
  assumes "0 < Size vs"
  shows "MinMajority vs + valF vs = Size vs \<and> 3 * valF vs < Size vs \<and> Size vs \<le> 3 * valF vs + 3 \<and>
    (MinMajority vs \<le> k \<longleftrightarrow> 2 * Size vs < 3 * k) \<and> MinPeers vs + 1 = MinMajority vs"
  using assms unfolding MinMajority_def MinPeers_def valF_def by presburger

theorem MinMajority_two_thirds_witness:
  "0 < Size \<lparr>validators = [1, 2, 3, 4], policy = RoundRobin, proposer = None, setHeight = 1\<rparr> \<and>
   MinMajority \<lparr>validators = [1, 2, 3, 4], policy = RoundRobin, proposer = None, setHeight = 1\<rparr> = 3 \<and>
   (MinMajority \<lparr>validators = [1, 2, 3, 4], policy = RoundRobin, proposer = None, setHeight = 1\<rparr> \<le> 3
      \<longleftrightarrow> 2 * Size \<lparr>validators = [1, 2, 3, 4], policy = RoundRobin, proposer = None, setHeight = 1\<rparr> < 3 * 3)"
  using MinMajority_two_thirds
    [of "\<lparr>validators = [1, 2, 3, 4], policy = RoundRobin, proposer = None, setHeight = 1\<rparr>" 3]
  by (simp add: Size_def MinMajority_def valF_def)

text \<open>
  C17. The set built from a list of addresses does not depend on the order of the list: nodes that
  read the same validators in different orders agree on the order of the set and on the proposer.
\<close>

theorem newDefaultSet_order_independent:
  assumes "mset addrs = mset addrs'"
  shows "newDefaultSet kec addrs pol h = newDefaultSet kec addrs' pol h"
proof -
  have "sort_key (Address_Hex kec) addrs = sort_key (Address_Hex kec) addrs'"
    using assms by (intro sort_key_inj_key_eq inj_Address_Hex) simp_all
  then show ?thesis by (simp add: newDefaultSet_def)
qed

theorem newDefaultSet_order_independent_witness:
  "mset [3, 1 :: address] = mset [1, 3] \<and>
   newDefaultSet (\<lambda>_. 0) [3, 1] RoundRobin 7 = newDefaultSet (\<lambda>_. 0) [1, 3] RoundRobin 7"
proof -
  have m: "mset [3, 1 :: address] = mset [1, 3]" by (simp add: add_mset_commute)
  show ?thesis using m newDefaultSet_order_independent [OF m] by blast
qed

text \<open>
  Advancing the proposer by \<open>d\<close> rounds and then by \<open>e\<close> rounds gives the proposer of \<open>d + e\<close>
  rounds ahead, for every set the constructor builds, the zero address included: a node that jumps
  over rounds and one that enters each of them follow the same proposers.
\<close>

theorem CalcProposer_compose:
  assumes "distinct addrs" "addrs \<noteq> []" "newDefaultSet kec addrs pol h = Done vs"
    and "0 \<le> d" "0 \<le> e" "Size vs + d + e < 2 ^ 63"
  shows "obind (CalcProposer vs p d) (\<lambda>vs'. CalcProposer vs' (the (proposer vs')) e) =
    CalcProposer vs p (d + e)"
proof (rule CalcProposer_twice_aux [where kec = kec])
  show ok: "valset_ok vs"
    using assms(1-3) by (rule newDefaultSet_valset_ok)
  show "sorted (map (Address_Hex kec) (validators vs))"
    using assms(3) by (auto simp: newDefaultSet_def Let_def split: if_splits)
  have "slot vs p \<le> Size vs"
    using slot_bounds(2) [of p vs] Size_pos [OF ok]
    by (cases "p \<in> set (validators vs)") (auto simp: slot_def index_of_None_iff [THEN iffD2])
  then show "slot vs p + d + e < 2 ^ 63" "Size vs + e < 2 ^ 63"
    using assms(4-6) by linarith+
qed (use assms in auto)

theorem CalcProposer_compose_witness:
  "\<exists>vs. newDefaultSet (\<lambda>_. 0) [5, 0, 9] RoundRobin 4 = Done vs \<and>
     obind (CalcProposer vs 5 1) (\<lambda>vs'. CalcProposer vs' (the (proposer vs')) 2) =
       CalcProposer vs 5 (1 + 2)"
proof -
  obtain vs where vs: "newDefaultSet (\<lambda>_. 0) [5, 0, 9] RoundRobin 4 = Done vs" "Size vs = 3"
    by (simp add: newDefaultSet_nonempty Size_def)
  have "obind (CalcProposer vs 5 1) (\<lambda>vs'. CalcProposer vs' (the (proposer vs')) 2) =
      CalcProposer vs 5 (1 + 2)"
    by (rule CalcProposer_compose [OF _ _ vs(1)]) (simp_all add: vs(2))
  with vs(1) show ?thesis by blast
qed

text \<open>
  C18. Every validator is the proposer of exactly one of any \<open>n\<close> consecutive rounds of a height.
\<close>

theorem CalcProposer_fair:
  assumes "distinct addrs" "addrs \<noteq> []" "newDefaultSet kec addrs pol h = Done vs"
    and "p \<in> set addrs" "v \<in> set addrs" "2 * Size vs < 2 ^ 63"
  shows "\<exists>!d. 0 \<le> d \<and> d < Size vs \<and> CalcProposer vs p d = Done (vs\<lparr>proposer := Some v\<rparr>)"
proof -
  have ok: "valset_ok vs" and mem: "p \<in> set (validators vs)" "v \<in> set (validators vs)"
    using newDefaultSet_valset_ok [OF assms(1-3)] assms(4,5) by auto
  have srt: "sorted (map (Address_Hex kec) (validators vs))"
    using assms(3) by (auto simp: newDefaultSet_def Let_def split: if_splits)
  note p = slot_bounds [OF mem(1)] and v = slot_bounds [OF mem(2)]
  have pos: "0 < Size vs" using ok by (rule Size_pos)
  have calc: "CalcProposer vs p d = Done (vs\<lparr>proposer := Some v\<rparr>) \<longleftrightarrow>
      (slot vs p + d) mod Size vs = slot vs v" if "0 \<le> d" "d < Size vs" for d
  proof -
    let ?k = "(slot vs p + d) mod Size vs"
    have k: "0 \<le> ?k" "?k < Size vs" using pos by simp_all
    have "CalcProposer vs p d = Done (vs\<lparr>proposer := Some (validators vs ! nat ?k)\<rparr>)"
      using CalcProposer_slot [OF ok srt that(1), of p] that p(2) assms(6) by linarith
    moreover have "validators vs ! nat ?k = v \<longleftrightarrow> ?k = slot vs v"
      using slot_nth [OF ok k] v(3) by auto
    ultimately show ?thesis by (simp add: proposer_update_inject)
  qed
  show ?thesis
  proof (rule ex1I [where a = "(slot vs v - slot vs p) mod Size vs"])
    show "0 \<le> (slot vs v - slot vs p) mod Size vs \<and> (slot vs v - slot vs p) mod Size vs < Size vs \<and>
        CalcProposer vs p ((slot vs v - slot vs p) mod Size vs) = Done (vs\<lparr>proposer := Some v\<rparr>)"
      using pos calc v by (simp add: mod_add_right_eq)
  next
    fix d
    assume d: "0 \<le> d \<and> d < Size vs \<and> CalcProposer vs p d = Done (vs\<lparr>proposer := Some v\<rparr>)"
    then have "slot vs v = (slot vs p + d) mod Size vs" using calc [of d] by simp
    then have "(slot vs v - slot vs p) mod Size vs = d mod Size vs"
      by (simp add: mod_diff_left_eq)
    then show "d = (slot vs v - slot vs p) mod Size vs" using d by simp
  qed
qed

theorem CalcProposer_fair_witness:
  "\<exists>vs. newDefaultSet (\<lambda>_. 0) [5, 0, 9] RoundRobin 4 = Done vs \<and>
     (\<exists>!d. 0 \<le> d \<and> d < Size vs \<and> CalcProposer vs 5 d = Done (vs\<lparr>proposer := Some 9\<rparr>))"
proof -
  obtain vs where vs: "newDefaultSet (\<lambda>_. 0) [5, 0, 9] RoundRobin 4 = Done vs" "Size vs = 3"
    by (simp add: newDefaultSet_nonempty Size_def)
  have "\<exists>!d. 0 \<le> d \<and> d < Size vs \<and> CalcProposer vs 5 d = Done (vs\<lparr>proposer := Some 9\<rparr>)"
    by (rule CalcProposer_fair [OF _ _ vs(1)]) (simp_all add: vs(2))
  with vs(1) show ?thesis by blast
qed

end
