(* ===== verification/Validator_Ops.thy ===== *)
theory Validator_Ops
  imports Validator_Set
begin

text \<open>
  The validator set as a collection of addresses: the type invariant of \<^verbatim>\<open>validator/default.go\<close> under any
  sequence of its operations, as a refinement of a finite set.
\<close>

section \<open>Sequences of operations\<close>

datatype valset_op =
    V_Add address
  | V_Remove address
  | V_Calc address int
  | V_Copy

text \<open>The answers of \<^verbatim>\<open>AddValidator\<close> and \<^verbatim>\<open>RemoveValidator\<close> are collected in order.\<close>

definition valset_step ::
    "(byte list \<Rightarrow> hash) \<Rightarrow> valset_op \<Rightarrow> defaultSet \<Rightarrow> (bool list \<times> defaultSet) outcome" where
  "valset_step kec x vs =
    (case x of
       V_Add a \<Rightarrow> (case AddValidator vs a of (r, vs) \<Rightarrow> Done ([r], vs))
     | V_Remove a \<Rightarrow> (case RemoveValidator vs a of (r, vs) \<Rightarrow> Done ([r], vs))
     | V_Calc p d \<Rightarrow> obind (CalcProposer vs p d) (\<lambda>vs. Done ([], vs))
     | V_Copy \<Rightarrow> obind (Copy kec vs) (\<lambda>vs. Done ([], vs)))"

fun valset_run ::
    "(byte list \<Rightarrow> hash) \<Rightarrow> valset_op list \<Rightarrow> defaultSet \<Rightarrow> (bool list \<times> defaultSet) outcome" where
  "valset_run kec [] vs = Done ([], vs)"
| "valset_run kec (x # xs) vs =
    obind (valset_step kec x vs) (\<lambda>(r, vs). obind (valset_run kec xs vs) (\<lambda>(rs, vs). Done (r @ rs, vs)))"

text \<open>The specification: a set, and whether an addition or a removal changes it.\<close>

fun set_run :: "valset_op list \<Rightarrow> address set \<Rightarrow> bool list \<times> address set" where
  "set_run [] A = ([], A)"
| "set_run (V_Add a # xs) A = (case set_run xs (insert a A) of (rs, B) \<Rightarrow> ((a \<notin> A) # rs, B))"
| "set_run (V_Remove a # xs) A = (case set_run xs (A - {a}) of (rs, B) \<Rightarrow> ((a \<in> A) # rs, B))"
| "set_run (V_Calc p d # xs) A = set_run xs A"
| "set_run (V_Copy # xs) A = set_run xs A"

section \<open>The operations keep the invariant\<close>

lemma AddValidator_set:
  assumes "distinct (validators vs)"
  shows "distinct (validators (snd (AddValidator vs a)))"
    "set (validators (snd (AddValidator vs a))) = insert a (set (validators vs))"
    "fst (AddValidator vs a) \<longleftrightarrow> a \<notin> set (validators vs)"
    "Size (snd (AddValidator vs a)) \<le> Size vs + 1" "setHeight (snd (AddValidator vs a)) = setHeight vs"
  using assms by (auto simp: AddValidator_def Size_def)

lemma RemoveValidator_set:
  assumes "distinct (validators vs)"
  shows "distinct (validators (snd (RemoveValidator vs a)))"
    "set (validators (snd (RemoveValidator vs a))) = set (validators vs) - {a}"
    "fst (RemoveValidator vs a) \<longleftrightarrow> a \<in> set (validators vs)"
    "Size (snd (RemoveValidator vs a)) \<le> Size vs + 1" "setHeight (snd (RemoveValidator vs a)) = setHeight vs"
proof -
  have "distinct (validators (snd (RemoveValidator vs a))) \<and>
    set (validators (snd (RemoveValidator vs a))) = set (validators vs) - {a} \<and>
    (fst (RemoveValidator vs a) \<longleftrightarrow> a \<in> set (validators vs)) \<and>
    Size (snd (RemoveValidator vs a)) \<le> Size vs + 1 \<and> setHeight (snd (RemoveValidator vs a)) = setHeight vs"
  proof (cases "index_of a (validators vs)")
    case None
    then show ?thesis using assms index_of_None_iff [of a "validators vs"] by (simp add: RemoveValidator_def)
  next
    case (Some i)
    then have i: "i < length (validators vs)" "validators vs ! i = a" using index_of_SomeD [of a "validators vs" i] by auto
    then have split: "validators vs = take i (validators vs) @ a # drop (i + 1) (validators vs)"
      using id_take_nth_drop by fastforce
    then have "distinct (take i (validators vs) @ a # drop (i + 1) (validators vs))" using assms by simp
    moreover have "set (validators vs) = insert a (set (take i (validators vs) @ drop (i + 1) (validators vs)))"
      by (subst split) simp
    ultimately show ?thesis using Some i by (auto simp: RemoveValidator_def Size_def)
  qed
  then show "distinct (validators (snd (RemoveValidator vs a)))"
    "set (validators (snd (RemoveValidator vs a))) = set (validators vs) - {a}"
    "fst (RemoveValidator vs a) \<longleftrightarrow> a \<in> set (validators vs)"
    "Size (snd (RemoveValidator vs a)) \<le> Size vs + 1" "setHeight (snd (RemoveValidator vs a)) = setHeight vs"
    by blast+
qed

lemma GetByIndex_rem:
  assumes "0 \<le> k" "0 < Size vs"
  shows "\<exists>p. GetByIndex vs (go_rem k (Size vs)) = Done p"
  using assms by (simp add: GetByIndex_def not_less)

lemma calcSeed_nonneg:
  assumes "0 \<le> d" "d + Size vs < 2 ^ 63"
  shows "0 \<le> calcSeed vs p d"
proof -
  let ?o = "case GetByAddress vs p of (idx, Some _) \<Rightarrow> idx | (_, None) \<Rightarrow> 0"
  have "0 \<le> ?o \<and> ?o \<le> Size vs"
    using index_of_SomeD [of p "validators vs"]
    by (cases "index_of p (validators vs)") (auto simp: GetByAddress_def Size_def)
  then show ?thesis using assms by (simp add: calcSeed_def in_i64_def)
qed

lemma CalcProposer_set:
  assumes "0 \<le> d" "d + Size vs < 2 ^ 63"
  shows "\<exists>p'. CalcProposer vs p d = Done (vs\<lparr>proposer := p'\<rparr>)"
proof (cases "Size vs = 0")
  case True
  then show ?thesis by (auto simp: CalcProposer_def selector_def stickyProposer_def roundRobinProposer_def)
next
  case False
  then have "0 < Size vs" by (simp add: Size_def)
  then obtain p' p'' where "GetByIndex vs (go_rem d (Size vs)) = Done p'"
    "GetByIndex vs (go_rem (calcSeed vs p d) (Size vs)) = Done p''"
    using GetByIndex_rem assms calcSeed_nonneg by meson
  then show ?thesis
    by (cases "emptyAddress p") (auto simp: CalcProposer_def selector_def stickyProposer_def roundRobinProposer_def)
qed

lemma Copy_set:
  assumes "0 \<le> setHeight vs"
  shows "\<exists>vs'. Copy kec vs = Done vs' \<and> mset (validators vs') = mset (validators vs) \<and> setHeight vs' = setHeight vs"
  using assms newDefaultSet_nonempty [of "validators vs" "setHeight vs" kec "policy vs"]
  by (cases "validators vs = []") (auto simp: Copy_def newDefaultSet_def [of _ "[]"] Size_def)

section \<open>Refinement\<close>

text \<open>The rounds a proposer is advanced by are not negative and far from the bounds of 64 bits.\<close>

definition op_ok :: "valset_op \<Rightarrow> bool" where
  "op_ok x = (case x of V_Calc _ d \<Rightarrow> 0 \<le> d \<and> d < 2 ^ 62 | _ \<Rightarrow> True)"

lemma valset_step_ok:
  assumes "distinct (validators vs)" "0 \<le> setHeight vs" "op_ok x" "Size vs < 2 ^ 62"
  shows "\<exists>vs'. valset_step kec x vs = Done (fst (set_run [x] (set (validators vs))), vs') \<and>
    distinct (validators vs') \<and> set (validators vs') = snd (set_run [x] (set (validators vs))) \<and>
    setHeight vs' = setHeight vs \<and> Size vs' \<le> Size vs + 1"
proof (cases x)
  case (V_Add a)
  then show ?thesis
    using AddValidator_set [OF assms(1), of a] by (cases "AddValidator vs a") (simp add: valset_step_def)
next
  case (V_Remove a)
  then show ?thesis
    using RemoveValidator_set [OF assms(1), of a] by (cases "RemoveValidator vs a") (simp add: valset_step_def)
next
  case (V_Calc p d)
  then obtain p' where "CalcProposer vs p d = Done (vs\<lparr>proposer := p'\<rparr>)"
    using CalcProposer_set [of d vs p] assms(3,4) by (auto simp: op_ok_def)
  then show ?thesis using V_Calc assms(1) by (simp add: valset_step_def Size_def)
next
  case V_Copy
  obtain vs' where "Copy kec vs = Done vs'" "mset (validators vs') = mset (validators vs)" "setHeight vs' = setHeight vs"
    using Copy_set [OF assms(2)] by blast
  then show ?thesis
    using V_Copy assms(1) mset_eq_setD [of "validators vs'"] mset_eq_imp_distinct_iff [of "validators vs'"]
      mset_eq_length [of "validators vs'"]
    by (simp add: valset_step_def Size_def)
qed

lemma set_run_Cons:
  "set_run (x # xs) A = (case set_run [x] A of (r, B) \<Rightarrow> case set_run xs B of (rs, C) \<Rightarrow> (r @ rs, C))"
  by (cases x) (simp_all split: prod.split)

lemma valset_run_ok:
  "distinct (validators vs) \<Longrightarrow> 0 \<le> setHeight vs \<Longrightarrow> list_all op_ok xs \<Longrightarrow> Size vs + int (length xs) < 2 ^ 62 \<Longrightarrow>
   \<exists>vs'. valset_run kec xs vs = Done (fst (set_run xs (set (validators vs))), vs') \<and>
     distinct (validators vs') \<and> set (validators vs') = snd (set_run xs (set (validators vs)))"
proof (induction xs arbitrary: vs)
  case Nil
  then show ?case by simp
next
  case (Cons x xs)
  let ?A = "set (validators vs)"
  obtain vs1 where one: "valset_step kec x vs = Done (fst (set_run [x] ?A), vs1)" "distinct (validators vs1)"
    "set (validators vs1) = snd (set_run [x] ?A)" "setHeight vs1 = setHeight vs" "Size vs1 \<le> Size vs + 1"
    using valset_step_ok [of vs x kec] Cons.prems by auto
  obtain vs' where "valset_run kec xs vs1 = Done (fst (set_run xs (set (validators vs1))), vs')"
    "distinct (validators vs')" "set (validators vs') = snd (set_run xs (set (validators vs1)))"
    using Cons.IH [of vs1] Cons.prems one by auto
  with one show ?case
    by (simp add: set_run_Cons [of x xs] split: prod.split)
qed



end
