(* ===== verification/Rlp.thy ===== *)
theory Rlp
  imports Prelude
begin

text \<open>
  The RLP serialisation of \<^verbatim>\<open>src/rlp\<close>: the encoder of \<^verbatim>\<open>encode.go\<close> with its
  deferred list headers (\<^verbatim>\<open>encbuf\<close>, \<^verbatim>\<open>listhead\<close>), the slice reader of \<^verbatim>\<open>raw.go\<close>
  (\<^verbatim>\<open>Split\<close>, \<^verbatim>\<open>CountValues\<close>) and the streaming decoder of \<^verbatim>\<open>decode.go\<close>
  (\<^verbatim>\<open>Stream\<close>).  A Go value that is encoded or decoded is an \<open>item\<close>, the
  \<^verbatim>\<open>[]byte\<close> or \<^verbatim>\<open>[]interface{}\<close> that \<^verbatim>\<open>decodeInterface\<close> produces.

  Sizes are \<^verbatim>\<open>int\<close> and \<^verbatim>\<open>uint64\<close> in the code and natural numbers here; a slice has
  fewer than \<open>2 ^ 64\<close> bytes, which the lemmas that need it say.  The reflection
  cache (\<^verbatim>\<open>typecache.go\<close>) only selects one of the writers and decoders below.
\<close>

section \<open>Encoder\<close>

datatype item = Str "byte list" | Lst "item list"

text \<open>\<^verbatim>\<open>putint\<close>: big endian, the least number of bytes.\<close>

definition putint :: "nat \<Rightarrow> byte list" where
  "putint i =
    (if i < 2 ^ 8 then [of_nat i]
     else if i < 2 ^ 16 then [of_nat (i div 2 ^ 8), of_nat i]
     else if i < 2 ^ 24 then [of_nat (i div 2 ^ 16), of_nat (i div 2 ^ 8), of_nat i]
     else if i < 2 ^ 32 then
       [of_nat (i div 2 ^ 24), of_nat (i div 2 ^ 16), of_nat (i div 2 ^ 8), of_nat i]
     else if i < 2 ^ 40 then
       [of_nat (i div 2 ^ 32), of_nat (i div 2 ^ 24), of_nat (i div 2 ^ 16),
        of_nat (i div 2 ^ 8), of_nat i]
     else if i < 2 ^ 48 then
       [of_nat (i div 2 ^ 40), of_nat (i div 2 ^ 32), of_nat (i div 2 ^ 24),
        of_nat (i div 2 ^ 16), of_nat (i div 2 ^ 8), of_nat i]
     else if i < 2 ^ 56 then
       [of_nat (i div 2 ^ 48), of_nat (i div 2 ^ 40), of_nat (i div 2 ^ 32),
        of_nat (i div 2 ^ 24), of_nat (i div 2 ^ 16), of_nat (i div 2 ^ 8), of_nat i]
     else
       [of_nat (i div 2 ^ 56), of_nat (i div 2 ^ 48), of_nat (i div 2 ^ 40),
        of_nat (i div 2 ^ 32), of_nat (i div 2 ^ 24), of_nat (i div 2 ^ 16),
        of_nat (i div 2 ^ 8), of_nat i])"

text \<open>\<^verbatim>\<open>intsize\<close>: shifts right by eight until nothing is left.\<close>

fun intsize :: "nat \<Rightarrow> nat" where
  "intsize i = (if i div 2 ^ 8 = 0 then 1 else Suc (intsize (i div 2 ^ 8)))"

declare intsize.simps [simp del]

definition headsize :: "nat \<Rightarrow> nat" where
  "headsize sz = (if sz < 56 then 1 else 1 + intsize sz)"

definition ListSize :: "nat \<Rightarrow> nat" where
  "ListSize contentSize = headsize contentSize + contentSize"

definition puthead :: "byte \<Rightarrow> byte \<Rightarrow> nat \<Rightarrow> byte list" where
  "puthead smalltag largetag sz =
    (if sz < 56 then [smalltag + of_nat sz]
     else let enc = putint sz in (largetag + of_nat (length enc)) # enc)"

text \<open>
  \<^verbatim>\<open>encbuf\<close>: the string data, the list headers in the order they were opened, and
  the total size of the closed headers.  A \<^verbatim>\<open>*listhead\<close> is its index in \<open>lheads\<close>.
\<close>

record listhead =
  offset :: nat
  lh_size :: nat

record encbuf =
  str :: "byte list"
  lheads :: "listhead list"
  lhsize :: nat

definition encbuf_reset :: encbuf where
  "encbuf_reset = \<lparr>str = [], lheads = [], lhsize = 0\<rparr>"

definition encbuf_write :: "byte list \<Rightarrow> encbuf \<Rightarrow> encbuf" where
  "encbuf_write b w = w\<lparr>str := str w @ b\<rparr>"

definition encbuf_size :: "encbuf \<Rightarrow> nat" where
  "encbuf_size w = length (str w) + lhsize w"

definition encodeStringHeader :: "nat \<Rightarrow> encbuf \<Rightarrow> encbuf" where
  "encodeStringHeader sz w =
    (if sz < 56 then encbuf_write [0x80 + of_nat sz] w
     else let enc = putint sz in encbuf_write ((0xB7 + of_nat (length enc)) # enc) w)"

definition encodeString :: "byte list \<Rightarrow> encbuf \<Rightarrow> encbuf" where
  "encodeString b w =
    (if length b = 1 \<and> hd b \<le> 0x7F then encbuf_write [hd b] w
     else encbuf_write b (encodeStringHeader (length b) w))"

definition encbuf_list :: "encbuf \<Rightarrow> nat \<times> encbuf" where
  "encbuf_list w =
    (length (lheads w),
     w\<lparr>lheads := lheads w @ [\<lparr>offset = length (str w), lh_size = lhsize w\<rparr>]\<rparr>)"

definition encbuf_listEnd :: "nat \<Rightarrow> encbuf \<Rightarrow> encbuf" where
  "encbuf_listEnd lh w =
    (let hd0 = lheads w ! lh;
         sz = encbuf_size w - offset hd0 - lh_size hd0;
         w = w\<lparr>lheads := (lheads w)[lh := hd0\<lparr>lh_size := sz\<rparr>]\<rparr>
     in if sz < 56 then w\<lparr>lhsize := lhsize w + 1\<rparr>
        else w\<lparr>lhsize := lhsize w + (1 + intsize sz)\<rparr>)"

definition listhead_encode :: "listhead \<Rightarrow> byte list" where
  "listhead_encode head = puthead 0xC0 0xF7 (lh_size head)"

text \<open>\<^verbatim>\<open>toBytes\<close>: the loop carries the position in the string data and the output.\<close>

fun toBytes_loop :: "byte list \<Rightarrow> listhead list \<Rightarrow> nat \<Rightarrow> byte list \<Rightarrow> byte list" where
  "toBytes_loop s [] strpos out = out @ drop strpos s"
| "toBytes_loop s (head # heads) strpos out =
    (let piece = take (offset head - strpos) (drop strpos s)
     in toBytes_loop s heads (strpos + length piece) (out @ piece @ listhead_encode head))"

definition toBytes :: "encbuf \<Rightarrow> byte list" where
  "toBytes w = toBytes_loop (str w) (lheads w) 0 []"

text \<open>The writers that \<^verbatim>\<open>makeWriter\<close> selects.\<close>

definition writeUint :: "nat \<Rightarrow> encbuf \<Rightarrow> encbuf" where
  "writeUint i w =
    (if i = 0 then encbuf_write [0x80] w
     else if i < 128 then encbuf_write [of_nat i] w
     else let s = putint i in encbuf_write ((0x80 + of_nat (length s)) # s) w)"

definition writeBool :: "bool \<Rightarrow> encbuf \<Rightarrow> encbuf" where
  "writeBool b w = (if b then encbuf_write [0x01] w else encbuf_write [0x80] w)"

text \<open>\<^verbatim>\<open>big.Int.Bytes\<close>: big endian without leading zeros.\<close>

fun big_bytes_rev :: "nat \<Rightarrow> byte list" where
  "big_bytes_rev n = (if n = 0 then [] else of_nat (n mod 256) # big_bytes_rev (n div 256))"

declare big_bytes_rev.simps [simp del]

definition big_bytes :: "nat \<Rightarrow> byte list" where
  "big_bytes n = rev (big_bytes_rev n)"

definition writeBigInt :: "int \<Rightarrow> encbuf \<Rightarrow> encbuf option" where
  "writeBigInt i w =
    (if i < 0 then None
     else if i = 0 then Some (encbuf_write [0x80] w)
     else Some (encodeString (big_bytes (nat i)) w))"

definition writeBigIntPtr :: "int option \<Rightarrow> encbuf \<Rightarrow> encbuf option" where
  "writeBigIntPtr ptr w =
    (case ptr of None \<Rightarrow> Some (encbuf_write [0x80] w) | Some i \<Rightarrow> writeBigInt i w)"

text \<open>
  \<^verbatim>\<open>writeInterface\<close> on an \<open>item\<close>: a byte slice goes to \<^verbatim>\<open>writeBytes\<close>, a slice to the
  writer of \<^verbatim>\<open>makeSliceWriter\<close>, which opens a list, writes the elements and closes
  the list.
\<close>

fun writeInterface :: "item \<Rightarrow> encbuf \<Rightarrow> encbuf"
and writeElems :: "item list \<Rightarrow> encbuf \<Rightarrow> encbuf" where
  "writeInterface (Str b) w = encodeString b w"
| "writeInterface (Lst xs) w =
    (let (lh, w) = encbuf_list w in encbuf_listEnd lh (writeElems xs w))"
| "writeElems [] w = w"
| "writeElems (x # xs) w = writeElems xs (writeInterface x w)"

definition EncodeToBytes :: "item \<Rightarrow> byte list" where
  "EncodeToBytes val = toBytes (writeInterface val encbuf_reset)"

text \<open>The reference encoding: one recursive pass with every header in front.\<close>

fun rlp :: "item \<Rightarrow> byte list" where
  "rlp (Str b) =
    (if length b = 1 \<and> hd b \<le> 0x7F then b else puthead 0x80 0xB7 (length b) @ b)"
| "rlp (Lst xs) =
    (let payload = concat (map rlp xs) in puthead 0xC0 0xF7 (length payload) @ payload)"

section \<open>Errors and kinds\<close>

datatype rlp_error =
    EOL | ErrExpectedString | ErrExpectedList | ErrCanonInt | ErrCanonSize
  | ErrElemTooLarge | ErrValueTooLarge | ErrMoreThanOneValue
  | errNotInList | errNotAtEOL | errUintOverflow
  | ErrUnexpectedEOF | io_EOF
  | decodeError string
  | Fuel_Exhausted

datatype Kind = Byte | String | List

definition wrapStreamError :: "rlp_error \<Rightarrow> rlp_error" where
  "wrapStreamError err =
    (case err of
       ErrCanonInt \<Rightarrow> decodeError ''non-canonical integer (leading zero bytes)''
     | ErrCanonSize \<Rightarrow> decodeError ''non-canonical sz information''
     | ErrExpectedList \<Rightarrow> decodeError ''expected input list''
     | ErrExpectedString \<Rightarrow> decodeError ''expected input string or byte''
     | errUintOverflow \<Rightarrow> decodeError ''input string too long''
     | errNotAtEOL \<Rightarrow> decodeError ''input list has too many elements''
     | e \<Rightarrow> e)"

section \<open>Reading a slice\<close>

text \<open>The big endian value of some bytes (\<^verbatim>\<open>binary.BigEndian.Uint64\<close>, \<^verbatim>\<open>SetBytes\<close>).\<close>

definition be_val :: "byte list \<Rightarrow> nat" where
  "be_val bs = foldl (\<lambda>acc b. acc * 256 + unat b) 0 bs"

definition readSize :: "byte list \<Rightarrow> nat \<Rightarrow> rlp_error + nat" where
  "readSize b slen =
    (if slen > length b then Inl ErrUnexpectedEOF
     else let s = be_val (take slen b)
          in if s < 56 \<or> b ! 0 = 0 then Inl ErrCanonSize else Inr s)"

definition readKind :: "byte list \<Rightarrow> rlp_error + (Kind \<times> nat \<times> nat)" where
  "readKind buf =
    (if buf = [] then Inl ErrUnexpectedEOF
     else
       let b = buf ! 0;
           r = (if b < 0x80 then Inr (Byte, 0, 1)
                else if b < 0xB8 then
                  (let contentsize = unat (b - 0x80)
                   in if contentsize = 1 \<and> length buf > 1 \<and> buf ! 1 < 128
                      then Inl ErrCanonSize else Inr (String, 1, contentsize))
                else if b < 0xC0 then
                  (case readSize (tl buf) (unat (b - 0xB7)) of
                     Inl e \<Rightarrow> Inl e
                   | Inr cs \<Rightarrow> Inr (String, unat (b - 0xB7) + 1, cs))
                else if b < 0xF8 then Inr (List, 1, unat (b - 0xC0))
                else
                  (case readSize (tl buf) (unat (b - 0xF7)) of
                     Inl e \<Rightarrow> Inl e
                   | Inr cs \<Rightarrow> Inr (List, unat (b - 0xF7) + 1, cs)))
       in case r of
            Inl e \<Rightarrow> Inl e
          | Inr (k, tagsize, contentsize) \<Rightarrow>
              if contentsize > length buf - tagsize then Inl ErrValueTooLarge
              else Inr (k, tagsize, contentsize))"

definition Split :: "byte list \<Rightarrow> rlp_error + (Kind \<times> byte list \<times> byte list)" where
  "Split b =
    (case readKind b of
       Inl e \<Rightarrow> Inl e
     | Inr (k, ts, cs) \<Rightarrow> Inr (k, take cs (drop ts b), drop (ts + cs) b))"

definition SplitString :: "byte list \<Rightarrow> rlp_error + (byte list \<times> byte list)" where
  "SplitString b =
    (case Split b of
       Inl e \<Rightarrow> Inl e
     | Inr (k, content, rest) \<Rightarrow>
         if k = List then Inl ErrExpectedString else Inr (content, rest))"

definition SplitList :: "byte list \<Rightarrow> rlp_error + (byte list \<times> byte list)" where
  "SplitList b =
    (case Split b of
       Inl e \<Rightarrow> Inl e
     | Inr (k, content, rest) \<Rightarrow>
         if k \<noteq> List then Inl ErrExpectedList else Inr (content, rest))"


lemma readKind_progress: "readKind b = Inr (k, ts, cs) \<Longrightarrow> 0 < ts + cs"
  by (auto simp: readKind_def Let_def split: if_splits sum.splits)

function CountValues :: "byte list \<Rightarrow> rlp_error + nat" where
  "CountValues b =
    (if b = [] then Inr 0
     else case readKind b of
            Inl e \<Rightarrow> Inl e
          | Inr (k, tagsize, sz) \<Rightarrow>
              (case CountValues (drop (tagsize + sz) b) of
                 Inl e \<Rightarrow> Inl e
               | Inr i \<Rightarrow> Inr (i + 1)))"
  by auto
termination
  by (relation "measure length") (auto dest!: readKind_progress)

declare CountValues.simps [simp del]

section \<open>The streaming decoder\<close>

text \<open>
  \<^verbatim>\<open>Stream\<close>: \<open>rd\<close> is what the reader still holds and \<^verbatim>\<open>kind = -1\<close> is \<open>None\<close>.  The
  stack has its top first; a pair is \<^verbatim>\<open>listpos{pos, size}\<close>.
\<close>

record stream =
  rd :: "byte list"
  remaining :: nat
  limited :: bool
  kind :: "Kind option"
  ahead :: nat
  byteval :: byte
  kinderr :: "rlp_error option"
  stack :: "(nat \<times> nat) list"

type_synonym 'a decoder = "stream \<Rightarrow> (rlp_error + 'a) \<times> stream"

definition sret :: "'a \<Rightarrow> 'a decoder" where
  "sret x s = (Inr x, s)"

definition sbind :: "'a decoder \<Rightarrow> ('a \<Rightarrow> 'b decoder) \<Rightarrow> 'b decoder" where
  "sbind m f s = (case m s of (Inl e, s') \<Rightarrow> (Inl e, s') | (Inr x, s') \<Rightarrow> f x s')"

definition smap_err :: "(rlp_error \<Rightarrow> rlp_error) \<Rightarrow> 'a decoder \<Rightarrow> 'a decoder" where
  "smap_err g m s = (case m s of (Inl e, s') \<Rightarrow> (Inl (g e), s') | (Inr x, s') \<Rightarrow> (Inr x, s'))"

text \<open>\<^verbatim>\<open>Reset\<close> on a \<^verbatim>\<open>bytes.Reader\<close>: the limit is the length of the input.\<close>

definition Stream_Reset :: "byte list \<Rightarrow> nat \<Rightarrow> stream" where
  "Stream_Reset r inputLimit =
    \<lparr>rd = r, remaining = (if inputLimit > 0 then inputLimit else length r), limited = True,
     kind = None, ahead = 0, byteval = 0, kinderr = None, stack = []\<rparr>"

definition NewListStream :: "byte list \<Rightarrow> nat \<Rightarrow> stream" where
  "NewListStream r len = (Stream_Reset r len)\<lparr>kind := Some List, ahead := len\<rparr>"

definition willRead :: "nat \<Rightarrow> unit decoder" where
  "willRead n s =
    (let s = s\<lparr>kind := None\<rparr>;
         limit = (\<lambda>s. if limited s then
                        (if n > remaining s then (Inl ErrValueTooLarge, s)
                         else (Inr (), s\<lparr>remaining := remaining s - n\<rparr>))
                      else (Inr (), s))
     in case stack s of
          [] \<Rightarrow> limit s
        | (pos, sz) # st \<Rightarrow>
            if n > sz - pos then (Inl ErrElemTooLarge, s)
            else limit (s\<lparr>stack := (pos + n, sz) # st\<rparr>))"

definition readFull :: "nat \<Rightarrow> byte list decoder" where
  "readFull n =
    sbind (willRead n) (\<lambda>_ s.
      if length (rd s) < n then (Inl ErrUnexpectedEOF, s\<lparr>rd := []\<rparr>)
      else (Inr (take n (rd s)), s\<lparr>rd := drop n (rd s)\<rparr>))"

definition readByte :: "byte decoder" where
  "readByte =
    sbind (willRead 1) (\<lambda>_ s.
      case rd s of [] \<Rightarrow> (Inl ErrUnexpectedEOF, s) | b # bs \<Rightarrow> (Inr b, s\<lparr>rd := bs\<rparr>))"

definition readUint :: "nat \<Rightarrow> nat decoder" where
  "readUint sz =
    (if sz = 0 then (\<lambda>s. (Inr 0, s\<lparr>kind := None\<rparr>))
     else if sz = 1 then sbind readByte (\<lambda>b. sret (unat b))
     else sbind (readFull sz) (\<lambda>buf s.
            if buf ! 0 = 0 then (Inl ErrCanonSize, s) else (Inr (be_val buf), s)))"

text \<open>
  \<^verbatim>\<open>Stream.readKind\<close> hands back a kind and a size also with an error, and \<^verbatim>\<open>Kind\<close>
  stores all three.
\<close>

definition longKind :: "Kind \<Rightarrow> nat \<Rightarrow> stream \<Rightarrow> (Kind \<times> nat \<times> rlp_error option) \<times> stream" where
  "longKind k n s =
    (case readUint n s of
       (Inl e, s) \<Rightarrow> ((k, 0, Some e), s)
     | (Inr sz, s) \<Rightarrow> ((k, sz, if sz < 56 then Some ErrCanonSize else None), s))"

definition Stream_readKind :: "stream \<Rightarrow> (Kind \<times> nat \<times> rlp_error option) \<times> stream" where
  "Stream_readKind s =
    (case readByte s of
       (Inl err, s) \<Rightarrow>
         ((Byte, 0, Some (if stack s = [] \<and> err \<in> {ErrUnexpectedEOF, ErrValueTooLarge}
                          then io_EOF else err)), s)
     | (Inr b, s) \<Rightarrow>
         let s = s\<lparr>byteval := 0\<rparr>
         in if b < 0x80 then ((Byte, 0, None), s\<lparr>byteval := b\<rparr>)
            else if b < 0xB8 then ((String, unat (b - 0x80), None), s)
            else if b < 0xC0 then longKind String (unat (b - 0xB7)) s
            else if b < 0xF8 then ((List, unat (b - 0xC0), None), s)
            else longKind List (unat (b - 0xF7)) s)"

definition Stream_Kind :: "(Kind \<times> nat) decoder" where
  "Stream_Kind s =
    (let result = (\<lambda>s. (case kinderr s of
                           Some e \<Rightarrow> (Inl e, s)
                         | None \<Rightarrow> (Inr (the (kind s), ahead s), s)))
     in if kind s \<noteq> None then result s
        else
          let s = s\<lparr>kinderr := None\<rparr>
          in if stack s \<noteq> [] \<and> fst (hd (stack s)) = snd (hd (stack s)) then (Inl EOL, s)
             else
               let ((k, sz, err), s) = Stream_readKind s;
                   s = s\<lparr>kind := Some k, ahead := sz, kinderr := err\<rparr>
               in if err \<noteq> None then result s
                  else case stack s of
                         [] \<Rightarrow>
                           if limited s \<and> sz > remaining s
                           then result (s\<lparr>kinderr := Some ErrValueTooLarge\<rparr>) else result s
                       | (pos, lsz) # _ \<Rightarrow>
                           if sz > lsz - pos
                           then result (s\<lparr>kinderr := Some ErrElemTooLarge\<rparr>) else result s)"

definition Stream_Bytes :: "byte list decoder" where
  "Stream_Bytes =
    sbind Stream_Kind (\<lambda>(k, sz).
      case k of
        Byte \<Rightarrow> (\<lambda>s. (Inr [byteval s], s\<lparr>kind := None\<rparr>))
      | String \<Rightarrow> sbind (readFull sz) (\<lambda>b s.
          if sz = 1 \<and> b ! 0 < 128 then (Inl ErrCanonSize, s) else (Inr b, s))
      | List \<Rightarrow> (\<lambda>s. (Inl ErrExpectedString, s)))"

definition Stream_Raw :: "byte list decoder" where
  "Stream_Raw =
    sbind Stream_Kind (\<lambda>(k, sz).
      if k = Byte then (\<lambda>s. (Inr [byteval s], s\<lparr>kind := None\<rparr>))
      else sbind (readFull sz) (\<lambda>b.
        sret ((if k = String then puthead 0x80 0xB7 sz else puthead 0xC0 0xF7 sz) @ b)))"

definition Stream_uint :: "nat \<Rightarrow> nat decoder" where
  "Stream_uint maxbits =
    sbind Stream_Kind (\<lambda>(k, sz).
      case k of
        Byte \<Rightarrow> (\<lambda>s. if byteval s = 0 then (Inl ErrCanonInt, s)
                     else (Inr (unat (byteval s)), s\<lparr>kind := None\<rparr>))
      | String \<Rightarrow>
          (\<lambda>s. if sz > maxbits div 8 then (Inl errUintOverflow, s)
               else case readUint sz s of
                      (Inl e, s) \<Rightarrow> (Inl (if e = ErrCanonSize then ErrCanonInt else e), s)
                    | (Inr v, s) \<Rightarrow>
                        if sz > 0 \<and> v < 128 then (Inl ErrCanonSize, s) else (Inr v, s))
      | List \<Rightarrow> (\<lambda>s. (Inl ErrExpectedString, s)))"

definition Stream_Bool :: "bool decoder" where
  "Stream_Bool =
    sbind (Stream_uint 8) (\<lambda>num s.
      if num = 0 then (Inr False, s)
      else if num = 1 then (Inr True, s)
      else (Inl (decodeError ''invalid boolean value''), s))"

definition Stream_List :: "nat decoder" where
  "Stream_List =
    sbind Stream_Kind (\<lambda>(k, sz) s.
      if k \<noteq> List then (Inl ErrExpectedList, s)
      else (Inr sz, s\<lparr>stack := (0, sz) # stack s, kind := None, ahead := 0\<rparr>))"

definition Stream_ListEnd :: "unit decoder" where
  "Stream_ListEnd s =
    (case stack s of
       [] \<Rightarrow> (Inl errNotInList, s)
     | (pos, sz) # st \<Rightarrow>
         if pos \<noteq> sz then (Inl errNotAtEOL, s)
         else (Inr (),
               s\<lparr>stack := (case st of [] \<Rightarrow> [] | (p, q) # st' \<Rightarrow> (p + sz, q) # st'),
                 kind := None, ahead := 0\<rparr>))"

text \<open>
  \<^verbatim>\<open>decodeSliceElems\<close>: elements until the list ends.  Every element takes at least one
  byte off the reader, so one more round than there are bytes is enough fuel
  (\<open>DecodeBytes_fuel\<close> in \<open>Rlp_Codec\<close>).
\<close>

fun decodeSliceElems :: "nat \<Rightarrow> 'a decoder \<Rightarrow> 'a list decoder" where
  "decodeSliceElems 0 elemdec s = (Inl Fuel_Exhausted, s)"
| "decodeSliceElems (Suc n) elemdec s =
    (case elemdec s of
       (Inl e, s) \<Rightarrow> if e = EOL then (Inr [], s) else (Inl e, s)
     | (Inr x, s) \<Rightarrow>
         (case decodeSliceElems n elemdec s of
            (Inl e, s) \<Rightarrow> (Inl e, s)
          | (Inr xs, s) \<Rightarrow> (Inr (x # xs), s)))"

definition decodeListSlice :: "'a decoder \<Rightarrow> 'a list decoder" where
  "decodeListSlice elemdec =
    sbind (smap_err wrapStreamError Stream_List) (\<lambda>sz s.
      if sz = 0 then sbind Stream_ListEnd (\<lambda>_. sret []) s
      else sbind (decodeSliceElems (Suc (length (rd s))) elemdec)
             (\<lambda>xs. sbind Stream_ListEnd (\<lambda>_. sret xs)) s)"

definition decodeByteSlice :: "byte list decoder" where
  "decodeByteSlice = smap_err wrapStreamError Stream_Bytes"

definition decodeUint :: "nat \<Rightarrow> nat decoder" where
  "decodeUint bits = smap_err wrapStreamError (Stream_uint bits)"

definition decodeBigInt :: "nat decoder" where
  "decodeBigInt =
    sbind (smap_err wrapStreamError Stream_Bytes) (\<lambda>b s.
      if length b > 0 \<and> b ! 0 = 0 then (Inl (wrapStreamError ErrCanonInt), s)
      else (Inr (be_val b), s))"

definition decodeByteArray :: "nat \<Rightarrow> byte list decoder" where
  "decodeByteArray vlen =
    sbind Stream_Kind (\<lambda>(k, sz).
      case k of
        Byte \<Rightarrow> (\<lambda>s.
          if vlen = 0 then (Inl (decodeError ''input string too long''), s)
          else if vlen > 1 then (Inl (decodeError ''input string too short''), s)
          else case Stream_uint 64 s of
                 (Inl _, s) \<Rightarrow> (Inr [0], s)
               | (Inr bv, s) \<Rightarrow> (Inr [of_nat bv], s))
      | String \<Rightarrow> (\<lambda>s.
          if vlen < sz then (Inl (decodeError ''input string too long''), s)
          else if vlen > sz then (Inl (decodeError ''input string too short''), s)
          else sbind (readFull vlen) (\<lambda>b s.
                 if sz = 1 \<and> b ! 0 < 128 then (Inl (wrapStreamError ErrCanonSize), s)
                 else (Inr b, s)) s)
      | List \<Rightarrow> (\<lambda>s. (Inl (wrapStreamError ErrExpectedString), s)))"

text \<open>
  A field of \<^verbatim>\<open>makeStructDecoder\<close>: the end of the list before the last field is an
  error of its own.
\<close>

definition struct_field :: "'a decoder \<Rightarrow> ('a \<Rightarrow> 'b decoder) \<Rightarrow> 'b decoder" where
  "struct_field dec k =
    sbind (smap_err (\<lambda>e. if e = EOL then decodeError ''too few elements'' else e) dec) k"

definition struct_of :: "'a decoder \<Rightarrow> 'a decoder" where
  "struct_of flds =
    sbind (smap_err wrapStreamError Stream_List) (\<lambda>_.
      sbind flds (\<lambda>v. sbind (smap_err wrapStreamError Stream_ListEnd) (\<lambda>_. sret v)))"

text \<open>\<^verbatim>\<open>decodeInterface\<close>, with the nesting depth as fuel.\<close>

fun decodeInterface :: "nat \<Rightarrow> item decoder" where
  "decodeInterface 0 = (\<lambda>s. (Inl Fuel_Exhausted, s))"
| "decodeInterface (Suc n) =
    sbind Stream_Kind (\<lambda>(k, _).
      if k = List then sbind (decodeListSlice (decodeInterface n)) (\<lambda>xs. sret (Lst xs))
      else sbind Stream_Bytes (\<lambda>b. sret (Str b)))"

definition DecodeBytes :: "'a decoder \<Rightarrow> byte list \<Rightarrow> rlp_error + 'a" where
  "DecodeBytes dec b =
    (case dec (Stream_Reset b (length b)) of
       (Inl e, _) \<Rightarrow> Inl e
     | (Inr x, s) \<Rightarrow> if length (rd s) > 0 then Inl ErrMoreThanOneValue else Inr x)"

definition DecodeItem :: "byte list \<Rightarrow> rlp_error + item" where
  "DecodeItem b = DecodeBytes (decodeInterface (Suc (length b))) b"

end
