(* ===== verification/Chain_Types.thy ===== *)
theory Chain_Types
  imports Common Rlp
begin

text \<open>
  The block header and block of \<^verbatim>\<open>core/types/block.go\<close>, the consensus data a header
  carries in its extra field (\<^verbatim>\<open>core/types/tendermint.go\<close>) and the functions that write
  and read it (\<^verbatim>\<open>consensus/tendermint/utils/utils.go\<close>).  The hash functions are parameters:
  \<open>kec\<close> is Keccak-256 and \<open>sha\<close> is SHA3-256.  What these functions
  guarantee is proved in \<open>Extra_Data\<close>.
\<close>

section \<open>Fixed-size byte arrays\<close>

definition fixed_bytes :: "nat \<Rightarrow> nat \<Rightarrow> byte list" where
  "fixed_bytes n v = map (\<lambda>i. of_nat (v div 256 ^ (n - 1 - i))) [0..<n]"

definition Hash_Bytes :: "hash \<Rightarrow> byte list" where
  "Hash_Bytes h = fixed_bytes 32 (unat h)"

definition Address_Bytes :: "address \<Rightarrow> byte list" where
  "Address_Bytes a = fixed_bytes 20 (unat a)"

section \<open>Headers and blocks\<close>

text \<open>A \<^verbatim>\<open>*big.Int\<close> that may be nil is an \<open>int option\<close>; \<^verbatim>\<open>uint64\<close> fields are \<open>nat\<close>.\<close>

record header =
  ParentHash :: hash
  UncleHash :: hash
  Coinbase :: address
  Root :: hash
  TxHash :: hash
  ReceiptHash :: hash
  Bloom :: "byte list"
  Difficulty :: "int option"
  Number :: "int option"
  GasLimit :: nat
  GasUsed :: nat
  Time :: nat
  Extra :: "byte list"
  MixDigest :: hash
  Nonce :: "64 word"

definition CopyHeader :: "header \<Rightarrow> header" where
  "CopyHeader h =
    h\<lparr>Difficulty := Some (case Difficulty h of None \<Rightarrow> 0 | Some d \<Rightarrow> d),
      Number := Some (case Number h of None \<Rightarrow> 0 | Some n \<Rightarrow> n)\<rparr>"

text \<open>
  A transaction is known to consensus only through its encoding, so a block holds the RLP
  items of its transactions.
\<close>

record block =
  block_header :: header
  uncles :: "header list"
  transactions :: "item list"

definition NewBlockWithHeader :: "header \<Rightarrow> block" where
  "NewBlockWithHeader h = \<lparr>block_header = CopyHeader h, uncles = [], transactions = []\<rparr>"

definition WithSeal :: "block \<Rightarrow> header \<Rightarrow> block" where
  "WithSeal b h = b\<lparr>block_header := h\<rparr>"

definition WithBody :: "block \<Rightarrow> item list \<Rightarrow> header list \<Rightarrow> block" where
  "WithBody b txs us =
    \<lparr>block_header = CopyHeader (block_header b), uncles = map CopyHeader us, transactions = txs\<rparr>"

definition Block_Header :: "block \<Rightarrow> header" where
  "Block_Header b = CopyHeader (block_header b)"

text \<open>
  \<^verbatim>\<open>Block.Number\<close>: the header of a block was copied or decoded when the block was built,
  which turned a nil number into zero.
\<close>

definition Block_Number :: "block \<Rightarrow> int" where
  "Block_Number b = (case Number (block_header b) of None \<Rightarrow> 0 | Some n \<Rightarrow> n)"

section \<open>Encoding a header\<close>

definition uint_item :: "nat \<Rightarrow> item" where
  "uint_item n = Str (big_bytes n)"

text \<open>\<^verbatim>\<open>writeBigIntPtr\<close>: nil encodes like zero, a negative number is an error.\<close>

definition bigint_item :: "int option \<Rightarrow> item option" where
  "bigint_item i =
    (case i of None \<Rightarrow> Some (Str [])
     | Some n \<Rightarrow> if n < 0 then None else Some (Str (big_bytes (nat n))))"

definition header_item :: "header \<Rightarrow> item option" where
  "header_item h =
    (case (bigint_item (Difficulty h), bigint_item (Number h)) of
       (Some d, Some n) \<Rightarrow>
         Some (Lst [Str (Hash_Bytes (ParentHash h)), Str (Hash_Bytes (UncleHash h)),
                    Str (Address_Bytes (Coinbase h)), Str (Hash_Bytes (Root h)),
                    Str (Hash_Bytes (TxHash h)), Str (Hash_Bytes (ReceiptHash h)),
                    Str (Bloom h), d, n, uint_item (GasLimit h), uint_item (GasUsed h),
                    uint_item (Time h), Str (Extra h), Str (Hash_Bytes (MixDigest h)),
                    Str (fixed_bytes 8 (unat (Nonce h)))])
     | _ \<Rightarrow> None)"

text \<open>
  What \<^verbatim>\<open>rlp.Encode\<close> writes into a hasher for a \<^verbatim>\<open>*Header\<close>: an empty list for nil, nothing
  when the encoding fails.
\<close>

definition header_bytes :: "header option \<Rightarrow> byte list" where
  "header_bytes h =
    (case h of None \<Rightarrow> EncodeToBytes (Lst [])
     | Some h \<Rightarrow> (case header_item h of None \<Rightarrow> [] | Some it \<Rightarrow> EncodeToBytes it))"

definition rlpHash :: "(byte list \<Rightarrow> hash) \<Rightarrow> header \<Rightarrow> hash" where
  "rlpHash kec h = kec (header_bytes (Some h))"

section \<open>The consensus part of the extra data\<close>

definition TendermintDigest :: hash where
  "TendermintDigest = 0"

abbreviation TendermintExtraVanity :: nat where
  "TendermintExtraVanity \<equiv> 32"

abbreviation TendermintExtraSeal :: nat where
  "TendermintExtraSeal \<equiv> 65"

record TendermintExtra =
  Seal :: "byte list"
  CommittedSeal :: "byte list list"
  ValidatorAdds :: "byte list"

definition TendermintExtra_EncodeRLP :: "TendermintExtra \<Rightarrow> byte list" where
  "TendermintExtra_EncodeRLP te =
    EncodeToBytes (Lst [Str (Seal te), Lst (map Str (CommittedSeal te)), Str (ValidatorAdds te)])"

definition TendermintExtra_DecodeRLP :: "TendermintExtra decoder" where
  "TendermintExtra_DecodeRLP =
    struct_of
      (struct_field decodeByteSlice (\<lambda>seal.
       struct_field (decodeListSlice decodeByteSlice) (\<lambda>committed.
       struct_field decodeByteSlice (\<lambda>adds.
       sret \<lparr>Seal = seal, CommittedSeal = committed, ValidatorAdds = adds\<rparr>))))"

definition ExtractTendermintExtra :: "header \<Rightarrow> error + TendermintExtra" where
  "ExtractTendermintExtra h =
    (if length (Extra h) < TendermintExtraVanity then Inl ErrInvalidTendermintHeaderExtra
     else case DecodeBytes TendermintExtra_DecodeRLP (drop TendermintExtraVanity (Extra h)) of
            Inl _ \<Rightarrow> Inl ErrDecode
          | Inr te \<Rightarrow> Inr te)"

text \<open>\<^verbatim>\<open>append(h.Extra[:TendermintExtraVanity], payload...)\<close>\<close>

definition put_extra :: "header \<Rightarrow> TendermintExtra \<Rightarrow> header" where
  "put_extra h te =
    h\<lparr>Extra := take TendermintExtraVanity (Extra h) @ TendermintExtra_EncodeRLP te\<rparr>"

definition TendermintFilteredHeader :: "header \<Rightarrow> bool \<Rightarrow> header option" where
  "TendermintFilteredHeader h keepSeal =
    (let newHeader = CopyHeader h
     in case ExtractTendermintExtra newHeader of
          Inl _ \<Rightarrow> None
        | Inr te \<Rightarrow>
            let te = (if keepSeal then te else te\<lparr>Seal := []\<rparr>);
                te = te\<lparr>CommittedSeal := [], ValidatorAdds := []\<rparr>
            in Some (put_extra newHeader te))"

definition Header_Hash :: "(byte list \<Rightarrow> hash) \<Rightarrow> header \<Rightarrow> hash" where
  "Header_Hash kec h =
    (if MixDigest h = TendermintDigest then
       (case TendermintFilteredHeader h True of
          Some h' \<Rightarrow> rlpHash kec h' | None \<Rightarrow> rlpHash kec h)
     else rlpHash kec h)"

definition Block_Hash :: "(byte list \<Rightarrow> hash) \<Rightarrow> block \<Rightarrow> hash" where
  "Block_Hash kec b = Header_Hash kec (block_header b)"

section \<open>Writing and reading the extra data\<close>

definition SigHash :: "(byte list \<Rightarrow> hash) \<Rightarrow> header \<Rightarrow> hash" where
  "SigHash sha h = sha (header_bytes (TendermintFilteredHeader h False))"

definition WriteSeal :: "header \<Rightarrow> byte list \<Rightarrow> error + header" where
  "WriteSeal h seal =
    (if length seal mod TendermintExtraSeal \<noteq> 0 then Inl ErrInvalidSealLength
     else case ExtractTendermintExtra h of
            Inl e \<Rightarrow> Inl e
          | Inr te \<Rightarrow> Inr (put_extra h (te\<lparr>Seal := seal\<rparr>)))"

definition WriteValSet :: "header \<Rightarrow> address list \<Rightarrow> error + header" where
  "WriteValSet h validators =
    (case ExtractTendermintExtra h of
       Inl e \<Rightarrow> Inl e
     | Inr te \<Rightarrow>
         let valSetData = EncodeToBytes (Lst (map (\<lambda>a. Str (Address_Bytes a)) validators))
         in Inr (put_extra h (te\<lparr>ValidatorAdds := valSetData\<rparr>)))"

definition WriteCommittedSeals :: "header \<Rightarrow> byte list list \<Rightarrow> error + header" where
  "WriteCommittedSeals h committedSeals =
    (if committedSeals = [] then Inl ErrInvalidSealLength
     else if list_ex (\<lambda>seal. length seal \<noteq> TendermintExtraSeal) committedSeals
     then Inl ErrInvalidSealLength
     else case ExtractTendermintExtra h of
            Inl e \<Rightarrow> Inl e
          | Inr te \<Rightarrow> Inr (put_extra h (te\<lparr>CommittedSeal := committedSeals\<rparr>)))"

definition PrepareCommittedSeal :: "hash \<Rightarrow> byte list" where
  "PrepareCommittedSeal h = Hash_Bytes h @ [0]"

text \<open>An epoch of length zero makes the division panic.\<close>

definition GetCheckpointNumber :: "nat \<Rightarrow> nat \<Rightarrow> nat outcome" where
  "GetCheckpointNumber epochDuration blockNumber =
    (if blockNumber = 0 \<or> blockNumber < epochDuration then Done 0
     else if epochDuration = 0 then Panic ''integer divide by zero''
     else Done (epochDuration * ((blockNumber - 1) div epochDuration)))"

definition decodeAddress :: "address decoder" where
  "decodeAddress = sbind (decodeByteArray 20) (\<lambda>b. sret (of_nat (be_val b)))"

definition GetValSetAddresses :: "header \<Rightarrow> error + address list" where
  "GetValSetAddresses h =
    (case ExtractTendermintExtra h of
       Inl e \<Rightarrow> Inl e
     | Inr te \<Rightarrow>
         if ValidatorAdds te = [] then Inl ErrEmptyValSet
         else case DecodeBytes (decodeListSlice decodeAddress) (ValidatorAdds te) of
                Inl _ \<Rightarrow> Inl ErrDecode
              | Inr validators \<Rightarrow> Inr validators)"

end
