(* ===== verification/Timeouts.thy ===== *)
theory Timeouts
  imports Prelude
begin

text \<open>
  The steps of a round, the durations of \<^verbatim>\<open>consensus/tendermint/config.go\<close> and the timeout
  ticker of \<^verbatim>\<open>core/timeout.go\<close>.  A \<^verbatim>\<open>time.Duration\<close> is an \<^verbatim>\<open>int64\<close> of nanoseconds whose
  arithmetic wraps around.  The goroutine \<^verbatim>\<open>timeoutRoutine\<close> is the transition
  system \<open>tick_step\<close>: its state is the timeout in force, whether the timer is armed, and the
  timeouts sent on the tock channel.
\<close>

section \<open>Round steps\<close>

type_synonym RoundStepType = nat

abbreviation RoundStepNewHeight :: RoundStepType where "RoundStepNewHeight \<equiv> 1"
abbreviation RoundStepNewRound :: RoundStepType where "RoundStepNewRound \<equiv> 2"
abbreviation RoundStepPropose :: RoundStepType where "RoundStepPropose \<equiv> 3"
abbreviation RoundStepPrevote :: RoundStepType where "RoundStepPrevote \<equiv> 4"
abbreviation RoundStepPrevoteWait :: RoundStepType where "RoundStepPrevoteWait \<equiv> 5"
abbreviation RoundStepPrecommit :: RoundStepType where "RoundStepPrecommit \<equiv> 6"
abbreviation RoundStepPrecommitWait :: RoundStepType where "RoundStepPrecommitWait \<equiv> 7"
abbreviation RoundStepCommit :: RoundStepType where "RoundStepCommit \<equiv> 8"

definition RoundStep_IsValid :: "RoundStepType \<Rightarrow> bool" where
  "RoundStep_IsValid rs \<longleftrightarrow> rs \<ge> 1 \<and> rs \<le> 8"

definition RoundStep_String :: "RoundStepType \<Rightarrow> string" where
  "RoundStep_String rs =
    (if rs = RoundStepNewHeight then ''RoundStepNewHeight''
     else if rs = RoundStepNewRound then ''RoundStepNewRound''
     else if rs = RoundStepPropose then ''RoundStepPropose''
     else if rs = RoundStepPrevote then ''RoundStepPrevote''
     else if rs = RoundStepPrevoteWait then ''RoundStepPrevoteWait''
     else if rs = RoundStepPrecommit then ''RoundStepPrecommit''
     else if rs = RoundStepPrecommitWait then ''RoundStepPrecommitWait''
     else if rs = RoundStepCommit then ''RoundStepCommit''
     else ''RoundStepUnknown'')"

section \<open>Durations\<close>

record timing =
  TimeoutPropose :: int
  TimeoutProposeDelta :: int
  TimeoutPrevote :: int
  TimeoutPrevoteDelta :: int
  TimeoutPrecommit :: int
  TimeoutPrecommitDelta :: int
  TimeoutCommit :: int

definition DefaultTiming :: timing where
  "DefaultTiming =
    \<lparr>TimeoutPropose = 3000 * 1000000, TimeoutProposeDelta = 500 * 1000000,
     TimeoutPrevote = 1000 * 1000000, TimeoutPrevoteDelta = 500 * 1000000,
     TimeoutPrecommit = 1000 * 1000000, TimeoutPrecommitDelta = 500 * 1000000,
     TimeoutCommit = 1000 * 1000000\<rparr>"

definition ProposeTimeout :: "timing \<Rightarrow> int \<Rightarrow> int" where
  "ProposeTimeout cfg round = i64 (TimeoutPropose cfg + i64 (TimeoutProposeDelta cfg * round))"

definition PrevoteTimeout :: "timing \<Rightarrow> int \<Rightarrow> int" where
  "PrevoteTimeout cfg round = i64 (TimeoutPrevote cfg + i64 (TimeoutPrevoteDelta cfg * round))"

definition PrevoteCatchupTimeout :: "timing \<Rightarrow> int \<Rightarrow> int" where
  "PrevoteCatchupTimeout cfg round = i64 (ProposeTimeout cfg round * 2)"

definition PrecommitTimeout :: "timing \<Rightarrow> int \<Rightarrow> int" where
  "PrecommitTimeout cfg round = i64 (TimeoutPrecommit cfg + i64 (TimeoutPrecommitDelta cfg * round))"

definition PrecommitCatchupTimeout :: "timing \<Rightarrow> int \<Rightarrow> int" where
  "PrecommitCatchupTimeout cfg round = i64 (PrevoteTimeout cfg round * 2)"

text \<open>\<^verbatim>\<open>time.Time.Add\<close>; a time is its distance in nanoseconds from a fixed origin.\<close>

definition Commit_time :: "timing \<Rightarrow> int \<Rightarrow> int" where
  "Commit_time cfg t = t + TimeoutCommit cfg"

section \<open>The ticker\<close>

record timeoutInfo =
  tiDuration :: int
  tiBlockNumber :: int
  tiRound :: int
  tiStep :: RoundStepType
  tiRetry :: nat

definition earlierOrEqual :: "timeoutInfo \<Rightarrow> timeoutInfo \<Rightarrow> bool" where
  "earlierOrEqual A B =
    (if tiBlockNumber A < tiBlockNumber B then True
     else if tiBlockNumber A = tiBlockNumber B then
       (if tiRound A < tiRound B then True
        else if tiRound A = tiRound B then
          (if tiStep A > 0 \<and> tiStep A < tiStep B then True
           else if tiStep A = tiStep B \<and> tiRetry A \<le> tiRetry B then True
           else False)
        else False)
     else False)"

record ticker =
  ti :: timeoutInfo
  armed :: bool
  tock :: "timeoutInfo list"

definition ticker_init :: ticker where
  "ticker_init =
    \<lparr>ti = \<lparr>tiDuration = 0, tiBlockNumber = 0, tiRound = 0, tiStep = 0, tiRetry = 0\<rparr>,
     armed = False, tock = []\<rparr>"

datatype tick_event = Tick timeoutInfo | Fire

text \<open>
  One iteration of the loop of \<^verbatim>\<open>timeoutRoutine\<close>: a new timeout on the tick channel, or the
  expiry of an armed timer.
\<close>

fun timeoutRoutine :: "tick_event \<Rightarrow> ticker \<Rightarrow> ticker" where
  "timeoutRoutine (Tick newti) t =
    (if earlierOrEqual newti (ti t) then t else t\<lparr>ti := newti, armed := True\<rparr>)"
| "timeoutRoutine Fire t =
    (if armed t then t\<lparr>armed := False, tock := tock t @ [ti t]\<rparr> else t)"

definition ticker_run :: "tick_event list \<Rightarrow> ticker" where
  "ticker_run evs = fold timeoutRoutine evs ticker_init"

text \<open>\<^verbatim>\<open>Start\<close> and \<^verbatim>\<open>Stop\<close>: the flag \<^verbatim>\<open>running\<close> alternates.\<close>

definition ticker_Start :: "bool \<Rightarrow> error option \<times> bool" where
  "ticker_Start running =
    (if running then (Some (ErrOther ''timer already started''), running) else (None, True))"

definition ticker_Stop :: "bool \<Rightarrow> error option \<times> bool" where
  "ticker_Stop running =
    (if \<not> running then (Some (ErrOther ''timer already stopped''), running) else (None, False))"


section \<open>Properties\<close>

text \<open>\<^verbatim>\<open>earlierOrEqual\<close> compares height, round, step and retry lexicographically.\<close>

definition later :: "timeoutInfo \<Rightarrow> timeoutInfo \<Rightarrow> bool" where
  "later B A \<longleftrightarrow>
     tiBlockNumber A < tiBlockNumber B \<or>
     tiBlockNumber A = tiBlockNumber B \<and>
       (tiRound A < tiRound B \<or>
        tiRound A = tiRound B \<and>
          (tiStep A < tiStep B \<or> tiStep A = tiStep B \<and> tiRetry A < tiRetry B))"

lemma later_trans: "later C B \<Longrightarrow> later B A \<Longrightarrow> later C A"
  unfolding later_def by linarith

lemma earlierOrEqual_iff: "0 < tiStep A \<Longrightarrow> earlierOrEqual A B \<longleftrightarrow> \<not> later A B"
  unfolding earlierOrEqual_def later_def by auto

definition ticks_valid :: "tick_event list \<Rightarrow> bool" where
  "ticks_valid evs \<longleftrightarrow> (\<forall>t. Tick t \<in> set evs \<longrightarrow> 0 < tiStep t)"

text \<open>
  The timeouts delivered so far increase strictly, none is later than the one in force, and while
  the timer is armed the one in force is later than all of them.
\<close>

definition ticker_ok :: "ticker \<Rightarrow> bool" where
  "ticker_ok t \<longleftrightarrow>
     sorted_wrt (\<lambda>x y. later y x) (tock t) \<and>
     (\<forall>x \<in> set (tock t). x = ti t \<or> later (ti t) x) \<and>
     (armed t \<longrightarrow> (\<forall>x \<in> set (tock t). later (ti t) x))"

lemma timeoutRoutine_ok:
  assumes "ticker_ok t" "\<And>n. ev = Tick n \<Longrightarrow> 0 < tiStep n"
  shows "ticker_ok (timeoutRoutine ev t)"
proof (cases ev)
  case (Tick n)
  show ?thesis
  proof (cases "earlierOrEqual n (ti t)")
    case False
    then have "later n (ti t)"
      using Tick assms(2) earlierOrEqual_iff by blast
    then have "\<forall>x \<in> set (tock t). later n x"
      using assms(1) unfolding ticker_ok_def by (auto intro: later_trans)
    then show ?thesis
      using Tick False assms(1) by (simp add: ticker_ok_def)
  qed (use Tick assms in simp)
next
  case Fire
  then show ?thesis
    using assms(1) by (auto simp: ticker_ok_def sorted_wrt_append)
qed

lemma ticker_run_snoc: "ticker_run (evs @ [ev]) = timeoutRoutine ev (ticker_run evs)"
  by (simp add: ticker_run_def)

lemma ticker_run_ok: "ticks_valid evs \<Longrightarrow> ticker_ok (ticker_run evs)"
proof (induction evs rule: rev_induct)
  case Nil
  then show ?case by (simp add: ticker_run_def ticker_init_def ticker_ok_def)
next
  case (snoc ev evs)
  then show ?case
    by (auto simp: ticker_run_snoc ticks_valid_def intro!: timeoutRoutine_ok)
qed



text \<open>
  A scheduled timeout that is later than the one in force replaces it and is the next one
  delivered: the ticker never loses the timeout of the newest step.
\<close>
theorem newest_timeout_fires:
  assumes "later t (ti (ticker_run evs))" "0 < tiStep t"
  shows "tock (ticker_run (evs @ [Tick t, Fire])) = tock (ticker_run evs) @ [t]"
proof -
  have "\<not> earlierOrEqual t (ti (ticker_run evs))"
    using assms earlierOrEqual_iff by blast
  then show ?thesis
    by (simp add: ticker_run_def)
qed

theorem newest_timeout_fires_witness:
  "let p = \<lparr>tiDuration = 5, tiBlockNumber = 1, tiRound = 0, tiStep = RoundStepPropose, tiRetry = 0\<rparr>
   in tock (ticker_run ([] @ [Tick p, Fire])) = [p]"
  using newest_timeout_fires
    [of "\<lparr>tiDuration = 5, tiBlockNumber = 1, tiRound = 0, tiStep = RoundStepPropose, tiRetry = 0\<rparr>" "[]"]
  by (simp add: later_def ticker_run_def ticker_init_def)



end
