(* ===== verification/Messages.thy ===== *)
theory Messages
  imports Validator_Set Chain_Types Timeouts
begin

text \<open>
  The consensus messages and the vote counter: \<^verbatim>\<open>core/types.go\<close>, \<^verbatim>\<open>core/messages.go\<close> and the
  \<^verbatim>\<open>View\<close> of \<^verbatim>\<open>consensus/tendermint/validator.go\<close>.  A message travels as RLP; here its body
  is the value it encodes, so decoding a body as a vote succeeds exactly on the body of a
  vote (the four formats have different shapes, hence no byte string is two of them).
  The decoders allocate every pointer, so the hash and the number of a vote are never nil.
  The main facts: a message set counts one vote per validator, its two-thirds
  majority is backed by \<open>MinMajority\<close> distinct validators and is final.
\<close>

section \<open>Message values\<close>

abbreviation msgPropose :: nat where "msgPropose \<equiv> 0"
abbreviation msgPrevote :: nat where "msgPrevote \<equiv> 1"
abbreviation msgPrecommit :: nat where "msgPrecommit \<equiv> 2"
abbreviation msgCatchUpRequest :: nat where "msgCatchUpRequest \<equiv> 3"
abbreviation msgCatchUpReply :: nat where "msgCatchUpReply \<equiv> 4"

datatype message =
  Message (Code: nat) (Msg: body) (Address: address) (Signature: "byte list")
and body =
    Body_Proposal block int int
  | Body_Vote hash int int "byte list"
  | Body_CatchUpRequest int int RoundStepType
  | Body_CatchUpReply int "payload list"
  | Body_Other "byte list"
and payload =
    Payload_Empty
  | Payload_Message message
  | Payload_Other "byte list"

record Proposal =
  pBlock :: block
  pRound :: int
  pPOLRound :: int

record Vote =
  vBlockHash :: hash
  vBlockNumber :: int
  vRound :: int
  vSeal :: "byte list"

record View =
  BlockNumber :: int
  Round :: int

definition DecodeProposal :: "body \<Rightarrow> Proposal option" where
  "DecodeProposal m =
    (case m of Body_Proposal b r pol \<Rightarrow> Some \<lparr>pBlock = b, pRound = r, pPOLRound = pol\<rparr>
     | _ \<Rightarrow> None)"

definition DecodeVote :: "body \<Rightarrow> Vote option" where
  "DecodeVote m =
    (case m of
       Body_Vote h n r seal \<Rightarrow>
         Some \<lparr>vBlockHash = h, vBlockNumber = n, vRound = r, vSeal = seal\<rparr>
     | _ \<Rightarrow> None)"

definition DecodeMessage :: "payload \<Rightarrow> message option" where
  "DecodeMessage p = (case p of Payload_Message m \<Rightarrow> Some m | _ \<Rightarrow> None)"

text \<open>
  Encoding fails on a negative \<^verbatim>\<open>big.Int\<close> only: the number of a vote, the difficulty and number of
  a header.
\<close>

definition header_encodable :: "header \<Rightarrow> bool" where
  "header_encodable h \<longleftrightarrow> bigint_item (Difficulty h) \<noteq> None \<and> bigint_item (Number h) \<noteq> None"

definition EncodeProposal :: "Proposal \<Rightarrow> body option" where
  "EncodeProposal p =
    (if header_encodable (block_header (pBlock p)) \<and> list_all header_encodable (uncles (pBlock p))
     then Some (Body_Proposal (pBlock p) (pRound p) (pPOLRound p)) else None)"

definition EncodeVote :: "Vote \<Rightarrow> body option" where
  "EncodeVote v =
    (if vBlockNumber v < 0 then None
     else Some (Body_Vote (vBlockHash v) (vBlockNumber v) (vRound v) (vSeal v)))"

definition EncodeCatchUpRequest :: "int \<Rightarrow> int \<Rightarrow> RoundStepType \<Rightarrow> body option" where
  "EncodeCatchUpRequest n r st = (if n < 0 then None else Some (Body_CatchUpRequest n r st))"

definition EncodeCatchUpReply :: "int \<Rightarrow> payload list \<Rightarrow> body option" where
  "EncodeCatchUpReply n ps = (if n < 0 then None else Some (Body_CatchUpReply n ps))"

text \<open>
  What a validator signs: a message without its signature, the seal of a block hash
  (\<^verbatim>\<open>PrepareCommittedSeal\<close>), or the hash of a header it proposes.
\<close>

datatype signed_data =
    Signed_Message nat body address
  | Signed_Bytes "byte list"

definition PayLoadWithoutSignature :: "message \<Rightarrow> signed_data" where
  "PayLoadWithoutSignature m = Signed_Message (Code m) (Msg m) (Address m)"

text \<open>\<open>recover\<close> is Keccak-256 followed by \<^verbatim>\<open>crypto.SigToPub\<close> and \<^verbatim>\<open>PubkeyToAddress\<close>.\<close>

definition GetAddressFromSignature ::
    "(signed_data \<Rightarrow> byte list \<Rightarrow> address option) \<Rightarrow> message \<Rightarrow> address option" where
  "GetAddressFromSignature recover m = recover (PayLoadWithoutSignature m) (Signature m)"

text \<open>An entry of the queue of messages for later heights.\<close>

record msgItem =
  item_message :: message
  item_height :: nat

definition msgItem_Compare :: "msgItem \<Rightarrow> msgItem \<Rightarrow> int" where
  "msgItem_Compare x y =
    (if item_height x > item_height y then 1
     else if item_height x = item_height y then 0 else -1)"

section \<open>Message sets\<close>

record blockVotes =
  votes :: "Vote option list"
  bv_totalReceived :: int

record messageSet =
  ms_view :: View
  ms_valSet :: defaultSet
  msgCode :: nat
  messages :: "address \<rightharpoonup> message"
  voteByAddress :: "address \<rightharpoonup> Vote"
  voteByBlock :: "hash \<rightharpoonup> blockVotes"
  maj23 :: "hash option"
  totalReceived :: int

definition newMessageSet :: "defaultSet \<Rightarrow> nat \<Rightarrow> View \<Rightarrow> messageSet" where
  "newMessageSet valSet code view =
    \<lparr>ms_view = view, ms_valSet = valSet, msgCode = code, messages = Map.empty,
     voteByAddress = Map.empty, voteByBlock = Map.empty, maj23 = None, totalReceived = 0\<rparr>"

definition VotesByAddress :: "messageSet \<Rightarrow> address \<rightharpoonup> Vote" where
  "VotesByAddress ms = voteByAddress ms"

definition addVoteToBlockVote ::
    "Vote \<Rightarrow> nat \<Rightarrow> messageSet \<Rightarrow> (error option \<times> messageSet) outcome" where
  "addVoteToBlockVote vote index ms =
    (let bvotes = (case voteByBlock ms (vBlockHash vote) of
                     Some bv \<Rightarrow> bv
                   | None \<Rightarrow> \<lparr>votes = replicate (nat (Size (ms_valSet ms))) None,
                              bv_totalReceived = 0\<rparr>)
     in if index \<ge> length (votes bvotes) then Panic ''index out of range''
        else if (case votes bvotes ! index of
                   Some v \<Rightarrow> vBlockHash v \<noteq> vBlockHash vote | None \<Rightarrow> False)
        then Done (Some ErrConflictingVotes, ms)
        else
          let bvotes = \<lparr>votes = (votes bvotes)[index := Some vote],
                        bv_totalReceived = bv_totalReceived bvotes + 1\<rparr>
          in Done (None, ms\<lparr>voteByBlock := (voteByBlock ms)(vBlockHash vote \<mapsto> bvotes)\<rparr>))"

definition AddVote ::
    "message \<Rightarrow> Vote \<Rightarrow> messageSet \<Rightarrow> ((error + bool) \<times> messageSet) outcome" where
  "AddVote msg vote ms =
    (let copyHash = vBlockHash vote;
         index = fst (GetByAddress (ms_valSet ms) (Address msg))
     in if msgCode ms \<noteq> Code msg then Done (Inl ErrDifferentMsgType, ms)
        else if index = -1 then Done (Inl ErrVoteInvalidValidatorAddress, ms)
        else if BlockNumber (ms_view ms) \<noteq> vBlockNumber vote then Done (Inl ErrVoteHeightMismatch, ms)
        else if Round (ms_view ms) \<noteq> vRound vote
        then Done (Inl (ErrOther ''invalid vote for the message set''), ms)
        else case messages ms (Address msg) of
               Some current \<Rightarrow>
                 (case DecodeVote (Msg current) of
                    None \<Rightarrow> Done (Inl ErrDecode, ms)
                  | Some currentVote \<Rightarrow>
                      if vBlockHash currentVote \<noteq> vBlockHash vote
                      then Done (Inl ErrConflictingVotes, ms)
                      else Done (Inr False, ms))
             | None \<Rightarrow>
                 let ms = ms\<lparr>messages := (messages ms)(Address msg \<mapsto> msg),
                             voteByAddress := (voteByAddress ms)(Address msg \<mapsto> vote),
                             totalReceived := totalReceived ms + 1\<rparr>
                 in obind (addVoteToBlockVote vote (nat index) ms) (\<lambda>(err, ms).
                      case err of
                        Some e \<Rightarrow> Done (Inl e, ms)
                      | None \<Rightarrow>
                          (case voteByBlock ms copyHash of
                             None \<Rightarrow> Panic ''nil pointer dereference''
                           | Some bv \<Rightarrow>
                               if bv_totalReceived bv \<ge> MinMajority (ms_valSet ms) \<and> maj23 ms = None
                               then Done (Inr True, ms\<lparr>maj23 := Some copyHash\<rparr>)
                               else Done (Inr True, ms))))"

text \<open>The methods that accept a nil receiver take a \<open>messageSet option\<close>.\<close>

definition HasMajority :: "messageSet option \<Rightarrow> bool" where
  "HasMajority ms = (case ms of None \<Rightarrow> False | Some ms \<Rightarrow> maj23 ms \<noteq> None)"

definition HasTwoThirdAny :: "messageSet option \<Rightarrow> bool" where
  "HasTwoThirdAny ms =
    (case ms of None \<Rightarrow> False | Some ms \<Rightarrow> totalReceived ms \<ge> MinMajority (ms_valSet ms))"

definition TwoThirdMajority :: "messageSet option \<Rightarrow> hash option" where
  "TwoThirdMajority ms = (case ms of None \<Rightarrow> None | Some ms \<Rightarrow> maj23 ms)"

definition MissingVotes :: "messageSet \<Rightarrow> address list" where
  "MissingVotes ms = filter (\<lambda>a. voteByAddress ms a = None) (validators (ms_valSet ms))"


section \<open>The invariant of a message set\<close>

definition voters :: "messageSet \<Rightarrow> hash \<Rightarrow> address set" where
  "voters ms h = {a. \<exists>v. voteByAddress ms a = Some v \<and> vBlockHash v = h}"

definition slot_vote :: "messageSet \<Rightarrow> hash \<Rightarrow> address \<Rightarrow> Vote option" where
  "slot_vote ms h a =
    (case voteByAddress ms a of Some v \<Rightarrow> if vBlockHash v = h then Some v else None | None \<Rightarrow> None)"

definition blockVotes_of :: "messageSet \<Rightarrow> hash \<Rightarrow> blockVotes" where
  "blockVotes_of ms h =
    \<lparr>votes = map (slot_vote ms h) (validators (ms_valSet ms)),
     bv_totalReceived = int (card (voters ms h))\<rparr>"

text \<open>
  The three maps of a message set are views of one table of votes: the stored messages are those
  votes, each per-block tally is the table restricted to that block, and the majority is the
  block whose tally reached the threshold first.
\<close>

definition ms_ok :: "messageSet \<Rightarrow> bool" where
  "ms_ok ms \<longleftrightarrow>
     valset_ok (ms_valSet ms) \<and>
     dom (messages ms) = dom (voteByAddress ms) \<and>
     dom (voteByAddress ms) \<subseteq> set (validators (ms_valSet ms)) \<and>
     (\<forall>a m. messages ms a = Some m \<longrightarrow>
        Code m = msgCode ms \<and> Address m = a \<and> DecodeVote (Msg m) = voteByAddress ms a) \<and>
     (\<forall>a v. voteByAddress ms a = Some v \<longrightarrow>
        vBlockNumber v = BlockNumber (ms_view ms) \<and> vRound v = Round (ms_view ms)) \<and>
     totalReceived ms = int (card (dom (voteByAddress ms))) \<and>
     (\<forall>h. voteByBlock ms h = (if voters ms h = {} then None else Some (blockVotes_of ms h))) \<and>
     (\<forall>h. maj23 ms = Some h \<longrightarrow> int (card (voters ms h)) \<ge> MinMajority (ms_valSet ms)) \<and>
     (maj23 ms = None \<longrightarrow> (\<forall>h. int (card (voters ms h)) < MinMajority (ms_valSet ms)))"

lemma ms_okD:
  assumes "ms_ok ms"
  shows "valset_ok (ms_valSet ms)"
    and "dom (messages ms) = dom (voteByAddress ms)"
    and "dom (voteByAddress ms) \<subseteq> set (validators (ms_valSet ms))"
    and "messages ms a = Some m \<Longrightarrow>
           Code m = msgCode ms \<and> Address m = a \<and> DecodeVote (Msg m) = voteByAddress ms a"
    and "voteByAddress ms a = Some v \<Longrightarrow>
           vBlockNumber v = BlockNumber (ms_view ms) \<and> vRound v = Round (ms_view ms)"
    and "totalReceived ms = int (card (dom (voteByAddress ms)))"
    and "voteByBlock ms h = (if voters ms h = {} then None else Some (blockVotes_of ms h))"
    and "maj23 ms = Some h \<Longrightarrow> int (card (voters ms h)) \<ge> MinMajority (ms_valSet ms)"
    and "maj23 ms = None \<Longrightarrow> int (card (voters ms h)) < MinMajority (ms_valSet ms)"
  using assms unfolding ms_ok_def by blast+

lemma voters_subset: "voters ms h \<subseteq> dom (voteByAddress ms)"
  by (auto simp: voters_def)

lemma MinMajority_pos: "valset_ok vs \<Longrightarrow> 0 < MinMajority vs"
  using threshold_bounds [of vs] Size_pos [of vs] by auto

lemma newMessageSet_ok: "valset_ok vs \<Longrightarrow> ms_ok (newMessageSet vs code view)"
  by (auto simp: ms_ok_def newMessageSet_def voters_def MinMajority_pos)

text \<open>A vote that passes the tests of \<^verbatim>\<open>AddVote\<close>, and the table with it entered.\<close>

definition vote_fits :: "messageSet \<Rightarrow> message \<Rightarrow> Vote \<Rightarrow> bool" where
  "vote_fits ms msg vote \<longleftrightarrow>
     msgCode ms = Code msg \<and> Address msg \<in> set (validators (ms_valSet ms)) \<and>
     BlockNumber (ms_view ms) = vBlockNumber vote \<and> Round (ms_view ms) = vRound vote"

definition enter_vote :: "message \<Rightarrow> Vote \<Rightarrow> messageSet \<Rightarrow> messageSet" where
  "enter_vote msg vote ms =
    (let h = vBlockHash vote;
         ms' = ms\<lparr>messages := (messages ms)(Address msg \<mapsto> msg),
                  voteByAddress := (voteByAddress ms)(Address msg \<mapsto> vote),
                  totalReceived := totalReceived ms + 1\<rparr>;
         ms' = ms'\<lparr>voteByBlock := (voteByBlock ms)(h \<mapsto> blockVotes_of ms' h)\<rparr>
     in if int (card (voters ms' h)) \<ge> MinMajority (ms_valSet ms) \<and> maj23 ms = None
        then ms'\<lparr>maj23 := Some h\<rparr> else ms')"

lemma enter_vote_simps [simp]:
  "ms_view (enter_vote msg vote ms) = ms_view ms"
  "ms_valSet (enter_vote msg vote ms) = ms_valSet ms"
  "msgCode (enter_vote msg vote ms) = msgCode ms"
  "messages (enter_vote msg vote ms) = (messages ms)(Address msg \<mapsto> msg)"
  "voteByAddress (enter_vote msg vote ms) = (voteByAddress ms)(Address msg \<mapsto> vote)"
  "totalReceived (enter_vote msg vote ms) = totalReceived ms + 1"
  by (simp_all add: enter_vote_def Let_def)

lemma voters_cong: "voteByAddress ms = voteByAddress ms' \<Longrightarrow> voters ms = voters ms'"
  by (simp add: voters_def fun_eq_iff)

lemma voters_update [simp]:
  "voters (ms\<lparr>voteByBlock := x\<rparr>) = voters ms"
  "voters (ms\<lparr>maj23 := y\<rparr>) = voters ms"
  by (simp_all add: voters_def fun_eq_iff)

lemma blockVotes_of_cong:
  assumes "voteByAddress ms = voteByAddress ms'" "ms_valSet ms = ms_valSet ms'"
  shows "blockVotes_of ms h = blockVotes_of ms' h"
proof -
  have "slot_vote ms h = slot_vote ms' h"
    using assms by (simp add: slot_vote_def fun_eq_iff)
  then show ?thesis
    using assms voters_cong [OF assms(1)] by (simp add: blockVotes_of_def)
qed

lemma voters_add:
  assumes "voteByAddress ms a = None" "voteByAddress ms' = (voteByAddress ms)(a \<mapsto> vote)"
  shows "voters ms' h = (if h = vBlockHash vote then insert a (voters ms h) else voters ms h)"
  using assms by (auto simp: voters_def)

lemma slot_vote_add:
  assumes "voteByAddress ms a = None" "voteByAddress ms' = (voteByAddress ms)(a \<mapsto> vote)"
  shows "slot_vote ms' h = (if h = vBlockHash vote then (slot_vote ms h)(a \<mapsto> vote) else slot_vote ms h)"
  using assms by (auto simp: slot_vote_def fun_eq_iff)

lemma list_update_distinct_map:
  assumes "distinct xs" "index_of a xs = Some i"
  shows "(map f xs)[i := y] = map (f(a := y)) xs"
proof (rule nth_equalityI)
  fix j assume "j < length ((map f xs)[i := y])"
  then have "j < length xs" by simp
  then show "(map f xs)[i := y] ! j = map (f(a := y)) xs ! j"
    using index_of_SomeD [OF assms(2)] assms(1)
    by (cases "i = j") (auto simp: nth_eq_iff_index_eq)
qed simp

lemma finite_voters: "ms_ok ms \<Longrightarrow> finite (voters ms h)"
  using voters_subset [of ms h] ms_okD(3) [of ms] by (meson List.finite_set finite_subset)


lemma blockVotes_of_empty:
  assumes "voters ms h = {}"
  shows "blockVotes_of ms h =
    \<lparr>votes = replicate (nat (Size (ms_valSet ms))) None, bv_totalReceived = 0\<rparr>"
proof -
  have "slot_vote ms h = (\<lambda>_. None)"
    using assms by (auto simp: voters_def slot_vote_def fun_eq_iff split: option.split)
  then show ?thesis
    using assms by (simp add: blockVotes_of_def Size_def map_replicate_const)
qed

lemma tally_lookup:
  assumes "ms_ok ms"
  shows "(case voteByBlock ms h of Some bv \<Rightarrow> bv
          | None \<Rightarrow> \<lparr>votes = replicate (nat (Size (ms_valSet ms))) None, bv_totalReceived = 0\<rparr>)
         = blockVotes_of ms h"
  using ms_okD(7) [OF assms, of h] blockVotes_of_empty [of ms h] by simp

lemma addVoteToBlockVote_enter:
  assumes ok: "ms_ok ms" and new: "voteByAddress ms a = None"
    and i: "index_of a (validators (ms_valSet ms)) = Some i"
    and ms': "ms' = ms\<lparr>messages := M, voteByAddress := (voteByAddress ms)(a \<mapsto> vote),
                       totalReceived := n\<rparr>"
  shows "addVoteToBlockVote vote i ms' =
    Done (None, ms'\<lparr>voteByBlock := (voteByBlock ms)(vBlockHash vote \<mapsto> blockVotes_of ms' (vBlockHash vote))\<rparr>)"
proof -
  let ?h = "vBlockHash vote" and ?vs = "validators (ms_valSet ms)"
  have same: "voteByBlock ms' = voteByBlock ms" "ms_valSet ms' = ms_valSet ms"
    and upd: "voteByAddress ms' = (voteByAddress ms)(a \<mapsto> vote)"
    using ms' by simp_all
  note idx = index_of_SomeD [OF i]
  have dist: "distinct ?vs"
    using ms_okD(1) [OF ok] by (simp add: valset_ok_def)
  have empty: "slot_vote ms ?h a = None" and out: "a \<notin> voters ms ?h"
    using new by (auto simp: slot_vote_def voters_def)
  have tally: "blockVotes_of ms' ?h =
      \<lparr>votes = (votes (blockVotes_of ms ?h))[i := Some vote],
       bv_totalReceived = bv_totalReceived (blockVotes_of ms ?h) + 1\<rparr>"
    using finite_voters [OF ok] out same
    by (simp add: blockVotes_of_def voters_add [OF new upd] slot_vote_add [OF new upd]
          list_update_distinct_map [OF dist i])
  have "i < length (votes (blockVotes_of ms ?h))" "votes (blockVotes_of ms ?h) ! i = None"
    using idx empty by (simp_all add: blockVotes_of_def)
  then show ?thesis
    unfolding addVoteToBlockVote_def Let_def same tally_lookup [OF ok] tally by simp
qed

lemma GetByAddress_index [simp]: "fst (GetByAddress vs a) = -1 \<longleftrightarrow> a \<notin> set (validators vs)"
  using index_of_None_iff [of a "validators vs"]
  by (auto simp: GetByAddress_def split: option.split)

text \<open>The behaviour of \<^verbatim>\<open>AddVote\<close> on a set that satisfies the invariant; it never panics.\<close>

lemma AddVote_run:
  assumes ok: "ms_ok ms"
  shows "AddVote msg vote ms =
    (if msgCode ms \<noteq> Code msg then Done (Inl ErrDifferentMsgType, ms)
     else if Address msg \<notin> set (validators (ms_valSet ms))
     then Done (Inl ErrVoteInvalidValidatorAddress, ms)
     else if BlockNumber (ms_view ms) \<noteq> vBlockNumber vote then Done (Inl ErrVoteHeightMismatch, ms)
     else if Round (ms_view ms) \<noteq> vRound vote
     then Done (Inl (ErrOther ''invalid vote for the message set''), ms)
     else case voteByAddress ms (Address msg) of
            Some cur \<Rightarrow> Done (if vBlockHash cur \<noteq> vBlockHash vote then Inl ErrConflictingVotes
                              else Inr False, ms)
          | None \<Rightarrow> Done (Inr True, enter_vote msg vote ms))"
proof (cases "vote_fits ms msg vote")
  case False
  then show ?thesis
    by (auto simp: AddVote_def vote_fits_def)
next
  case True
  note fit = True [unfolded vote_fits_def]
  obtain i where i: "index_of (Address msg) (validators (ms_valSet ms)) = Some i"
    using fit index_of_in_set by metis
  show ?thesis
  proof (cases "voteByAddress ms (Address msg)")
    case (Some cur)
    then obtain m where m: "messages ms (Address msg) = Some m"
      using ms_okD(2) [OF ok] by (metis domD domI)
    show ?thesis
      using fit i Some m ms_okD(4) [OF ok m] by (simp add: AddVote_def GetByAddress_def)
  next
    case None
    then have m: "messages ms (Address msg) = None"
      using ms_okD(2) [OF ok] by (metis domIff)
    show ?thesis
      using fit i None m
      by (simp add: AddVote_def GetByAddress_def addVoteToBlockVote_enter [OF ok None i refl]
            enter_vote_def Let_def blockVotes_of_def)
  qed
qed

lemma enter_vote_ok:
  assumes ok: "ms_ok ms" and fit: "vote_fits ms msg vote"
    and new: "voteByAddress ms (Address msg) = None" and dec: "DecodeVote (Msg msg) = Some vote"
  shows "ms_ok (enter_vote msg vote ms)"
proof -
  let ?ms = "enter_vote msg vote ms" and ?h = "vBlockHash vote" and ?a = "Address msg"
  have upd: "voteByAddress ?ms = (voteByAddress ms)(?a \<mapsto> vote)" by simp
  note vot = voters_add [OF new upd]
  have fresh: "?a \<notin> voters ms ?h" "?a \<notin> dom (voteByAddress ms)"
    using new by (auto simp: voters_def)
  have fin: "finite (voters ms h)" "finite (dom (voteByAddress ms))" for h
    using finite_voters [OF ok] ms_okD(3) [OF ok] finite_subset by auto
  have tally: "voteByBlock ?ms h = (if voters ?ms h = {} then None else Some (blockVotes_of ?ms h))" for h
  proof -
    have "voteByBlock ?ms = (voteByBlock ms)(?h \<mapsto> blockVotes_of ?ms ?h)"
      by (auto simp: enter_vote_def Let_def fun_eq_iff intro: blockVotes_of_cong)
    moreover have "blockVotes_of ?ms h = blockVotes_of ms h" if "h \<noteq> ?h"
      using that by (simp add: blockVotes_of_def vot slot_vote_add [OF new upd])
    ultimately show ?thesis
      using ms_okD(7) [OF ok, of h] by (simp add: vot)
  qed
  have "maj23 ?ms = (if int (card (voters ?ms ?h)) \<ge> MinMajority (ms_valSet ms) \<and> maj23 ms = None
                     then Some ?h else maj23 ms)"
    by (simp add: enter_vote_def Let_def voters_def)
  then have maj:
      "maj23 ?ms = Some h \<Longrightarrow> int (card (voters ?ms h)) \<ge> MinMajority (ms_valSet ms)"
      "maj23 ?ms = None \<Longrightarrow> int (card (voters ?ms h)) < MinMajority (ms_valSet ms)" for h
    using ms_okD(8,9) [OF ok, of h] fin fresh
    by (auto simp: vot split: if_splits)
  show ?thesis
    using ms_okD(1-6) [OF ok] fit dec fresh fin tally maj
    unfolding ms_ok_def vote_fits_def by (auto simp: dom_fun_upd)
qed


lemma maj23_enter_vote: "maj23 ms = Some h \<Longrightarrow> maj23 (enter_vote msg vote ms) = Some h"
  by (simp add: enter_vote_def Let_def)

lemma AddVote_cases:
  assumes "ms_ok ms" "DecodeVote (Msg msg) = Some vote"
  obtains (rejected) r where "AddVote msg vote ms = Done (r, ms)" "r \<noteq> Inr True"
  | (added) "AddVote msg vote ms = Done (Inr True, enter_vote msg vote ms)"
      "vote_fits ms msg vote" "voteByAddress ms (Address msg) = None"
      "ms_ok (enter_vote msg vote ms)"
proof (cases "vote_fits ms msg vote \<and> voteByAddress ms (Address msg) = None")
  case True
  then show thesis
    using added enter_vote_ok [OF assms(1) _ _ assms(2)] AddVote_run [OF assms(1), of msg vote]
    by (simp add: vote_fits_def)
next
  case False
  then show thesis
    using rejected AddVote_run [OF assms(1), of msg vote]
    by (auto simp: vote_fits_def split: if_splits option.splits)
qed

section \<open>Counting a stream of messages\<close>

text \<open>
  What \<open>addPrevote\<close> and \<open>addPrecommit\<close> do over time to the set of one round: each message that
  decodes to a vote is added, and one that is refused leaves the count as it is.
\<close>

fun count_votes :: "message list \<Rightarrow> messageSet \<Rightarrow> messageSet outcome" where
  "count_votes [] ms = Done ms"
| "count_votes (msg # msgs) ms =
    (case DecodeVote (Msg msg) of
       None \<Rightarrow> count_votes msgs ms
     | Some vote \<Rightarrow> obind (AddVote msg vote ms) (\<lambda>(_, ms). count_votes msgs ms))"

text \<open>The votes of a set come from messages of the stream.\<close>

definition backed :: "message list \<Rightarrow> messageSet \<Rightarrow> bool" where
  "backed msgs ms \<longleftrightarrow>
     (\<forall>a v. voteByAddress ms a = Some v \<longrightarrow>
        (\<exists>m \<in> set msgs. Address m = a \<and> Code m = msgCode ms \<and> DecodeVote (Msg m) = Some v))"

lemma backed_mono: "backed msgs ms \<Longrightarrow> set msgs \<subseteq> set msgs' \<Longrightarrow> backed msgs' ms"
  by (meson backed_def subsetD)

lemma count_votes_ok:
  assumes "ms_ok ms" "backed old ms"
  shows "\<exists>ms'. count_votes msgs ms = Done ms' \<and> ms_ok ms' \<and> backed (old @ msgs) ms' \<and>
    ms_valSet ms' = ms_valSet ms \<and> msgCode ms' = msgCode ms \<and> (\<forall>h. maj23 ms = Some h \<longrightarrow> maj23 ms' = Some h)"
  using assms
proof (induction msgs arbitrary: ms old)
  case (Cons msg msgs)
  have later: "\<exists>ms'. count_votes msgs ms1 = Done ms' \<and> ms_ok ms' \<and> backed (old @ msg # msgs) ms' \<and>
      ms_valSet ms' = ms_valSet ms1 \<and> msgCode ms' = msgCode ms1 \<and> (\<forall>h. maj23 ms1 = Some h \<longrightarrow> maj23 ms' = Some h)"
    if "ms_ok ms1" "backed (old @ [msg]) ms1" for ms1
    using Cons.IH [OF that] by simp
  have same: "backed (old @ [msg]) ms"
    using Cons.prems(2) by (rule backed_mono) auto
  show ?case
  proof (cases "DecodeVote (Msg msg)")
    case None
    then show ?thesis
      using later [OF Cons.prems(1) same] by simp
  next
    case (Some vote)
    from Cons.prems(1) Some show ?thesis
    proof (cases rule: AddVote_cases)
      case rejected
      then show ?thesis
        using later [OF Cons.prems(1) same] Some by simp
    next
      case added
      then have "backed (old @ [msg]) (enter_vote msg vote ms)"
        using Some same by (auto simp: backed_def vote_fits_def)
      then show ?thesis
        using later [OF added(4)] added(1) Some maj23_enter_vote by fastforce
    qed
  qed
qed auto

lemma count_votes_append:
  "count_votes (xs @ ys) ms = obind (count_votes xs ms) (count_votes ys)"
proof (induction xs arbitrary: ms)
  case (Cons msg xs)
  then show ?case
    by (cases "DecodeVote (Msg msg)"; cases "AddVote msg (the (DecodeVote (Msg msg))) ms") auto
qed simp

text \<open>
  C6. Counting never panics, and a majority is real: whatever messages arrive, in whatever order and
  however often, a block is reported as the two-thirds majority exactly when \<open>MinMajority\<close> distinct
  validators are counted for it, each with a received message of the right kind that votes for that
  block, and no other block can have as many; the total is the number of validators heard.
\<close>

theorem count_votes_majority:
  assumes "valset_ok vs"
  shows "\<exists>ms. count_votes msgs (newMessageSet vs code view) = Done ms \<and>
    (\<forall>h. TwoThirdMajority (Some ms) = Some h \<longleftrightarrow> MinMajority vs \<le> int (card (voters ms h))) \<and>
    (\<forall>h. voters ms h \<subseteq> set (validators vs)) \<and>
    (\<forall>h a. a \<in> voters ms h \<longrightarrow> (\<exists>m \<in> set msgs. Address m = a \<and> Code m = code \<and>
       (\<exists>v. DecodeVote (Msg m) = Some v \<and> vBlockHash v = h))) \<and>
    totalReceived ms = int (card (\<Union>h. voters ms h))"
proof -
  have "backed [] (newMessageSet vs code view)"
    by (simp add: backed_def newMessageSet_def)
  from count_votes_ok [OF newMessageSet_ok [OF assms] this, of msgs]
  obtain ms where ms: "count_votes msgs (newMessageSet vs code view) = Done ms" "ms_ok ms" "backed msgs ms"
      "ms_valSet ms = vs" "msgCode ms = code"
    by (auto simp: newMessageSet_def)
  have all: "(\<Union>h. voters ms h) = dom (voteByAddress ms)"
    by (auto simp: voters_def)
  have "h = h'" if "maj23 ms = Some h'" "MinMajority vs \<le> int (card (voters ms h))" for h h'
  proof (rule ccontr)
    assume "h \<noteq> h'"
    then have "voters ms h \<inter> voters ms h' = {}"
      by (auto simp: voters_def)
    then have "card (voters ms h) + card (voters ms h') \<le> length (validators vs)"
      using finite_voters [OF ms(2)] voters_subset ms_okD(1,3) [OF ms(2)] ms(4)
      by (metis (no_types, lifting) List.finite_set Un_least card_Un_disjoint card_mono card_length order_trans)
    moreover have "MinMajority vs \<le> int (card (voters ms h'))"
      using ms_okD(8) [OF ms(2) that(1)] ms(4) by simp
    ultimately show False
      using that(2) threshold_bounds [OF Size_pos [OF assms]] by (simp add: Size_def)
  qed
  then have "\<forall>h. maj23 ms = Some h \<longleftrightarrow> MinMajority vs \<le> int (card (voters ms h))"
    using ms_okD(8,9) [OF ms(2)] ms(4) by (metis not_le not_None_eq)
  moreover have "\<forall>h. voters ms h \<subseteq> set (validators vs)"
    using voters_subset ms_okD(3) [OF ms(2)] ms(4) by blast
  moreover have "\<forall>h a. a \<in> voters ms h \<longrightarrow> (\<exists>m \<in> set msgs. Address m = a \<and> Code m = code \<and>
       (\<exists>v. DecodeVote (Msg m) = Some v \<and> vBlockHash v = h))"
    using ms(3,5) by (fastforce simp: backed_def voters_def)
  ultimately show ?thesis
    using ms(1) ms_okD(6) [OF ms(2)] all by (auto simp: TwoThirdMajority_def)
qed

theorem count_votes_majority_witness:
  "\<exists>ms. count_votes [Message msgPrevote (Body_Vote 7 1 0 []) 5 []]
       (newMessageSet \<lparr>validators = [5], policy = RoundRobin, proposer = Some 5, setHeight = 0\<rparr> msgPrevote
          \<lparr>BlockNumber = 1, Round = 0\<rparr>) = Done ms \<and> TwoThirdMajority (Some ms) = Some 7"
proof -
  let ?vs = "\<lparr>validators = [5], policy = RoundRobin, proposer = Some 5, setHeight = 0\<rparr> :: defaultSet"
  have "valset_ok ?vs"
    by (simp add: valset_ok_def)
  from count_votes_majority [OF this, of "[Message msgPrevote (Body_Vote 7 1 0 []) 5 []]" msgPrevote
      "\<lparr>BlockNumber = 1, Round = 0\<rparr>"]
  show ?thesis
    by (auto simp: AddVote_def newMessageSet_def DecodeVote_def GetByAddress_def addVoteToBlockVote_def MinMajority_def
          valF_def Size_def TwoThirdMajority_def)
qed

text \<open>
  C15. A majority is final: once a block is the two-thirds majority of a round, no later message
  changes it.
\<close>

theorem majority_final:
  assumes "valset_ok vs" "count_votes xs (newMessageSet vs code view) = Done ms"
    and "TwoThirdMajority (Some ms) = Some h"
  shows "\<exists>ms'. count_votes (xs @ ys) (newMessageSet vs code view) = Done ms' \<and> TwoThirdMajority (Some ms') = Some h"
proof -
  have "backed [] (newMessageSet vs code view)"
    by (simp add: backed_def newMessageSet_def)
  from count_votes_ok [OF newMessageSet_ok [OF assms(1)] this, of xs] have "ms_ok ms" "backed xs ms"
    using assms(2) by auto
  from count_votes_ok [OF this, of ys] show ?thesis
    using assms(2,3) by (auto simp: count_votes_append TwoThirdMajority_def)
qed

theorem majority_final_witness:
  "\<exists>ms'. count_votes ([Message msgPrevote (Body_Vote 7 1 0 []) 5 []] @ [Message msgPrevote (Body_Vote 8 1 0 []) 5 []])
       (newMessageSet \<lparr>validators = [5], policy = RoundRobin, proposer = Some 5, setHeight = 0\<rparr> msgPrevote
          \<lparr>BlockNumber = 1, Round = 0\<rparr>) = Done ms' \<and> TwoThirdMajority (Some ms') = Some 7"
proof -
  let ?vs = "\<lparr>validators = [5], policy = RoundRobin, proposer = Some 5, setHeight = 0\<rparr> :: defaultSet"
  obtain ms where "count_votes [Message msgPrevote (Body_Vote 7 1 0 []) 5 []]
      (newMessageSet ?vs msgPrevote \<lparr>BlockNumber = 1, Round = 0\<rparr>) = Done ms" "TwoThirdMajority (Some ms) = Some 7"
    by (simp add: AddVote_def newMessageSet_def DecodeVote_def GetByAddress_def addVoteToBlockVote_def MinMajority_def
          valF_def Size_def TwoThirdMajority_def)
  then show ?thesis
    by (intro majority_final) (simp_all add: valset_ok_def)
qed

end
