(* ===== verification/Round_State.thy ===== *)
theory Round_State
  imports Messages
begin

text \<open>
  The consensus state of one node at one height: \<^verbatim>\<open>core/roundState.go\<close>.  A map from rounds to
  message sets is a partial function, a nil block or proposal is \<open>None\<close>, the zero time
  is \<open>None\<close>.
\<close>

record roundState =
  view :: View
  rs_block :: "block option"
  lockedRound :: int
  lockedBlock :: "block option"
  validRound :: int
  validBlock :: "block option"
  commitRound :: int
  commitTime :: "int option"
  startTime :: "int option"
  proposalReceived :: "Proposal option"
  PrevotesReceived :: "int \<rightharpoonup> messageSet"
  PrecommitsReceived :: "int \<rightharpoonup> messageSet"
  PrecommitWaited :: bool
  rs_step :: RoundStepType

abbreviation sBlockNumber :: "roundState \<Rightarrow> int" where
  "sBlockNumber s \<equiv> BlockNumber (view s)"

abbreviation sRound :: "roundState \<Rightarrow> int" where
  "sRound s \<equiv> Round (view s)"

definition newRoundState ::
    "View \<Rightarrow> (int \<rightharpoonup> messageSet) \<Rightarrow> (int \<rightharpoonup> messageSet) \<Rightarrow> block option \<Rightarrow>
     int \<Rightarrow> block option \<Rightarrow> int \<Rightarrow> block option \<Rightarrow> Proposal option \<Rightarrow>
     RoundStepType \<Rightarrow> int \<Rightarrow> roundState" where
  "newRoundState v prevotes precommits b lockedR lockedB validR validB proposal step commitR =
    \<lparr>view = v, rs_block = b, lockedRound = lockedR, lockedBlock = lockedB,
     validRound = validR, validBlock = validB, commitRound = commitR, commitTime = None,
     startTime = None, proposalReceived = proposal, PrevotesReceived = prevotes,
     PrecommitsReceived = precommits, PrecommitWaited = False, rs_step = step\<rparr>"

definition UpdateRoundStep :: "int \<Rightarrow> RoundStepType \<Rightarrow> roundState \<Rightarrow> roundState" where
  "UpdateRoundStep round step s = s\<lparr>view := (view s)\<lparr>Round := round\<rparr>, rs_step := step\<rparr>"

definition SetProposalReceived :: "Proposal option \<Rightarrow> roundState \<Rightarrow> roundState" where
  "SetProposalReceived p s = s\<lparr>proposalReceived := p\<rparr>"

definition SetView :: "View \<Rightarrow> roundState \<Rightarrow> roundState" where
  "SetView v s = s\<lparr>view := v\<rparr>"

definition IsProposalComplete :: "roundState \<Rightarrow> bool" where
  "IsProposalComplete s =
    (case proposalReceived s of
       None \<Rightarrow> False
     | Some p \<Rightarrow>
         if pPOLRound p < 0 then True
         else case PrevotesReceived s (pPOLRound p) of
                None \<Rightarrow> False
              | Some prevotes \<Rightarrow> HasMajority (Some prevotes))"

definition SetBlock :: "block option \<Rightarrow> roundState \<Rightarrow> roundState" where
  "SetBlock b s = s\<lparr>rs_block := b\<rparr>"

definition SetLockedRoundAndBlock :: "int \<Rightarrow> block option \<Rightarrow> roundState \<Rightarrow> roundState" where
  "SetLockedRoundAndBlock r b s = s\<lparr>lockedRound := r, lockedBlock := b\<rparr>"

definition Unlock :: "roundState \<Rightarrow> roundState" where
  "Unlock s = s\<lparr>lockedRound := -1, lockedBlock := None\<rparr>"

definition SetValidRoundAndBlock :: "int \<Rightarrow> block option \<Rightarrow> roundState \<Rightarrow> roundState" where
  "SetValidRoundAndBlock r b s = s\<lparr>validRound := r, validBlock := b\<rparr>"

definition setPrecommitWaited :: "bool \<Rightarrow> roundState \<Rightarrow> roundState" where
  "setPrecommitWaited w s = s\<lparr>PrecommitWaited := w\<rparr>"

definition GetPrevotesByRound :: "int \<Rightarrow> roundState \<Rightarrow> messageSet option" where
  "GetPrevotesByRound r s = PrevotesReceived s r"

definition GetPrecommitsByRound :: "int \<Rightarrow> roundState \<Rightarrow> messageSet option" where
  "GetPrecommitsByRound r s = PrecommitsReceived s r"

text \<open>The countdown of \<^verbatim>\<open>POLInfo\<close>: \<open>n\<close> is the number of rounds left to inspect.\<close>

fun POLInfo_loop :: "roundState \<Rightarrow> nat \<Rightarrow> int \<times> hash" where
  "POLInfo_loop s 0 = (-1, 0)"
| "POLInfo_loop s (Suc n) =
    (case TwoThirdMajority (GetPrevotesByRound (int n) s) of
       Some h \<Rightarrow> (int n, h)
     | None \<Rightarrow> POLInfo_loop s n)"

definition POLInfo :: "roundState \<Rightarrow> int \<times> hash" where
  "POLInfo s = POLInfo_loop s (nat (sRound s + 1))"

text \<open>
  \<^verbatim>\<open>addPrevote\<close> and \<^verbatim>\<open>addPrecommit\<close> create the message set of the vote's round on demand; the set
  stays in the map also when the vote is rejected.
\<close>

definition addPrevote ::
    "message \<Rightarrow> Vote \<Rightarrow> defaultSet \<Rightarrow> roundState \<Rightarrow> ((error + bool) \<times> roundState) outcome" where
  "addPrevote msg vote vs s =
    (let msgSet = (case PrevotesReceived s (vRound vote) of
                     Some ms \<Rightarrow> ms
                   | None \<Rightarrow> newMessageSet vs msgPrevote
                               \<lparr>BlockNumber = vBlockNumber vote, Round = vRound vote\<rparr>)
     in obind (AddVote msg vote msgSet) (\<lambda>(r, ms).
          Done (r, s\<lparr>PrevotesReceived := (PrevotesReceived s)(vRound vote \<mapsto> ms)\<rparr>)))"

definition addPrecommit ::
    "message \<Rightarrow> Vote \<Rightarrow> defaultSet \<Rightarrow> roundState \<Rightarrow> ((error + bool) \<times> roundState) outcome" where
  "addPrecommit msg vote vs s =
    (let msgSet = (case PrecommitsReceived s (vRound vote) of
                     Some ms \<Rightarrow> ms
                   | None \<Rightarrow> newMessageSet vs msgPrecommit
                               \<lparr>BlockNumber = vBlockNumber vote, Round = vRound vote\<rparr>)
     in obind (AddVote msg vote msgSet) (\<lambda>(r, ms).
          Done (r, s\<lparr>PrecommitsReceived := (PrecommitsReceived s)(vRound vote \<mapsto> ms)\<rparr>)))"

definition clearPreviousRoundData :: "roundState \<Rightarrow> roundState" where
  "clearPreviousRoundData s =
    (let s = (case rs_block s of
                Some b \<Rightarrow> if Block_Number b < sBlockNumber s then SetBlock None s else s
              | None \<Rightarrow> s);
         s = UpdateRoundStep 0 RoundStepNewHeight s;
         s = SetLockedRoundAndBlock (-1) None s;
         s = SetValidRoundAndBlock (-1) None s;
         s = SetProposalReceived None s
     in s\<lparr>commitRound := -1, PrevotesReceived := Map.empty, PrecommitsReceived := Map.empty,
          PrecommitWaited := False\<rparr>)"

section \<open>Proof of lock\<close>

lemma POLInfo_loop_bound: "fst (POLInfo_loop s n) < int n"
  by (induction n) (auto split: option.split)

lemma POLInfo_loop_ge:
  assumes "TwoThirdMajority (GetPrevotesByRound r s) = Some h" "0 \<le> r" "r < int n"
  shows "r \<le> fst (POLInfo_loop s n)"
  using assms(3)
proof (induction n)
  case (Suc n)
  then show ?case
    using assms by (cases "r = int n") (auto split: option.split)
qed (use assms in simp)

lemma POLInfo_current:
  assumes "TwoThirdMajority (GetPrevotesByRound r s) = Some h" "0 \<le> r" "r = sRound s"
  shows "fst (POLInfo s) = r"
  using POLInfo_loop_ge [OF assms(1,2), of "nat (sRound s + 1)"]
    POLInfo_loop_bound [of s "nat (sRound s + 1)"] assms
  by (simp add: POLInfo_def)

end
