(* ===== verification/Msg_Storage.thy ===== *)
theory Msg_Storage
  imports Messages
begin

text \<open>
  The store of the messages a node has sent at the current height
  (\<^verbatim>\<open>core/sentMsgStorage.go\<close>), from which catch-up requests are answered.  The slice only grows at
  its end and stays ordered by round and step; \<^verbatim>\<open>lookup\<close> returns the first entry
  that is not before the place asked for.
\<close>

section \<open>Operations\<close>

record MsgStorageData =
  sd_Step :: RoundStepType
  sd_Round :: int
  sd_Data :: payload

type_synonym msgStorage = "MsgStorageData list"

definition NewMsgStorage :: msgStorage where
  "NewMsgStorage = []"

definition storeSentMsg :: "RoundStepType \<Rightarrow> int \<Rightarrow> payload \<Rightarrow> msgStorage \<Rightarrow> msgStorage outcome" where
  "storeSentMsg step round msgData saved =
    (if msgData = Payload_Empty then Panic ''length of payload data should not be zero''
     else if saved \<noteq> [] \<and>
             (sd_Round (last saved) > round \<or>
              sd_Round (last saved) = round \<and> sd_Step (last saved) > step)
     then Done saved
     else Done (saved @ [\<lparr>sd_Step = step, sd_Round = round, sd_Data = msgData\<rparr>]))"

fun lookup_from :: "int \<Rightarrow> RoundStepType \<Rightarrow> int \<Rightarrow> msgStorage \<Rightarrow> int" where
  "lookup_from i step round [] = -1"
| "lookup_from i step round (element # rest) =
    (if sd_Round element > round then i
     else if sd_Round element = round \<and> sd_Step element \<ge> step then i
     else lookup_from (i + 1) step round rest)"

definition lookup :: "RoundStepType \<Rightarrow> int \<Rightarrow> msgStorage \<Rightarrow> int" where
  "lookup step round saved = lookup_from 0 step round saved"

definition get_msg :: "int \<Rightarrow> msgStorage \<Rightarrow> error + payload" where
  "get_msg index saved =
    (if index \<ge> int (length saved) \<or> index < 0 then Inl EOF
     else Inr (sd_Data (saved ! nat index)))"

definition truncateMsgStored :: "msgStorage \<Rightarrow> msgStorage" where
  "truncateMsgStored saved = []"

section \<open>Order\<close>

definition sd_before :: "MsgStorageData \<Rightarrow> MsgStorageData \<Rightarrow> bool" where
  "sd_before x y \<longleftrightarrow> sd_Round x < sd_Round y \<or> sd_Round x = sd_Round y \<and> sd_Step x \<le> sd_Step y"

text \<open>An entry that is not before the step and round asked for.\<close>

definition at_or_after :: "RoundStepType \<Rightarrow> int \<Rightarrow> MsgStorageData \<Rightarrow> bool" where
  "at_or_after step round x \<longleftrightarrow> sd_Round x > round \<or> sd_Round x = round \<and> sd_Step x \<ge> step"

definition storage_ok :: "msgStorage \<Rightarrow> bool" where
  "storage_ok saved \<longleftrightarrow> sorted_wrt sd_before saved \<and> (\<forall>x \<in> set saved. sd_Data x \<noteq> Payload_Empty)"

lemma sd_before_trans: "sd_before x y \<Longrightarrow> sd_before y z \<Longrightarrow> sd_before x z"
  unfolding sd_before_def by linarith

lemma sd_before_refl [simp]: "sd_before x x"
  by (simp add: sd_before_def)

lemma storage_ok_append:
  assumes "storage_ok saved" "sd_Data y \<noteq> Payload_Empty" "saved \<noteq> [] \<Longrightarrow> sd_before (last saved) y"
  shows "storage_ok (saved @ [y])"
proof (cases saved rule: rev_cases)
  case (snoc xs z)
  then have "sd_before x y" if "x \<in> set xs" for x
    using that assms sd_before_trans [of x z y]
    by (auto simp: storage_ok_def sorted_wrt_append)
  then show ?thesis
    using snoc assms by (auto simp: storage_ok_def sorted_wrt_append)
qed (use assms in \<open>simp add: storage_ok_def\<close>)

lemma storeSentMsg_ok:
  assumes "storage_ok saved" "storeSentMsg step round d saved = Done saved'"
  shows "storage_ok saved'"
  using assms storage_ok_append [of saved "\<lparr>sd_Step = step, sd_Round = round, sd_Data = d\<rparr>"]
  by (auto simp: storeSentMsg_def sd_before_def not_less_iff_gr_or_eq split: if_splits)

lemma at_or_after_mono: "at_or_after step round x \<Longrightarrow> sd_before x y \<Longrightarrow> at_or_after step round y"
  unfolding at_or_after_def sd_before_def by linarith

lemma lookup_from_spec:
  "lookup_from i step round saved =
     (let pre = takeWhile (\<lambda>x. \<not> at_or_after step round x) saved
      in if length pre = length saved then -1 else i + int (length pre))"
  by (induction saved arbitrary: i) (auto simp: at_or_after_def Let_def)

lemma dropWhile_sorted:
  assumes "sorted_wrt R xs" "\<And>x y. P x \<Longrightarrow> R x y \<Longrightarrow> P y"
  shows "dropWhile (\<lambda>x. \<not> P x) xs = filter P xs"
  using assms
proof (induction xs)
  case (Cons x xs)
  then have "P x \<Longrightarrow> filter P xs = xs"
    by (auto simp: filter_id_conv)
  then show ?case using Cons by simp
qed simp

section \<open>Properties\<close>

text \<open>
  Storing a message keeps the store ordered by round and step, appends the message exactly when
  it is not before the last one, and otherwise leaves the store as it was; only an empty payload
  panics.
\<close>
theorem storeSentMsg_ordered:
  assumes "storage_ok saved" "d \<noteq> Payload_Empty"
  shows "\<exists>saved'. storeSentMsg step round d saved = Done saved' \<and> storage_ok saved' \<and>
           saved' = (if saved \<noteq> [] \<and> \<not> sd_before (last saved) \<lparr>sd_Step = step, sd_Round = round, sd_Data = d\<rparr>
                     then saved else saved @ [\<lparr>sd_Step = step, sd_Round = round, sd_Data = d\<rparr>])"
proof -
  obtain saved' where run: "storeSentMsg step round d saved = Done saved'"
    using assms(2) by (cases "storeSentMsg step round d saved") (auto simp: storeSentMsg_def split: if_splits)
  then show ?thesis
    using storeSentMsg_ok [OF assms(1) run] assms(2)
    by (auto simp: storeSentMsg_def sd_before_def not_less split: if_splits)
qed

theorem storeSentMsg_ordered_witness:
  "\<exists>saved'. storeSentMsg RoundStepPrevote 2 (Payload_Other [1]) [] = Done saved' \<and> storage_ok saved' \<and>
     saved' = [\<lparr>sd_Step = RoundStepPrevote, sd_Round = 2, sd_Data = Payload_Other [1]\<rparr>]"
  using storeSentMsg_ordered [of "[]" "Payload_Other [1]" RoundStepPrevote 2]
  by (simp add: storage_ok_def)

text \<open>
  C21. In an ordered store \<^verbatim>\<open>lookup\<close> finds the place from which everything at or after the asked
  round and step is sent: it is -1 exactly when there is no such message, and otherwise the
  messages from that index on are all of them, in order.
\<close>
theorem lookup_suffix:
  assumes "storage_ok saved"
  shows "(lookup step round saved = -1 \<longleftrightarrow> filter (at_or_after step round) saved = []) \<and>
         (lookup step round saved \<noteq> -1 \<longrightarrow>
            0 \<le> lookup step round saved \<and>
            drop (nat (lookup step round saved)) saved = filter (at_or_after step round) saved)"
proof -
  let ?pre = "takeWhile (\<lambda>x. \<not> at_or_after step round x) saved"
  have eq: "lookup step round saved =
      (if length ?pre = length saved then -1 else int (length ?pre))"
    by (simp add: lookup_def lookup_from_spec Let_def)
  have dropped: "dropWhile (\<lambda>x. \<not> at_or_after step round x) saved = filter (at_or_after step round) saved"
    using assms dropWhile_sorted [of sd_before saved "at_or_after step round"] at_or_after_mono
    by (auto simp: storage_ok_def)
  have "drop (length ?pre) saved = filter (at_or_after step round) saved"
    using dropped by (simp add: dropWhile_eq_drop)
  moreover have "length ?pre = length saved \<longleftrightarrow> filter (at_or_after step round) saved = []"
    using dropped arg_cong [OF takeWhile_dropWhile_id, of length "\<lambda>x. \<not> at_or_after step round x" saved]
    by (simp flip: length_0_conv) arith
  ultimately show ?thesis
    using eq by (auto split: if_splits)
qed

theorem lookup_suffix_witness:
  "let a = \<lparr>sd_Step = RoundStepPrevote, sd_Round = 0, sd_Data = Payload_Other [1]\<rparr>;
       b = \<lparr>sd_Step = RoundStepPropose, sd_Round = 1, sd_Data = Payload_Other [2]\<rparr>
   in lookup RoundStepPrecommit 0 [a, b] = 1 \<and>
      drop (nat (lookup RoundStepPrecommit 0 [a, b])) [a, b] =
        filter (at_or_after RoundStepPrecommit 0) [a, b]"
  using lookup_suffix [of
      "[\<lparr>sd_Step = RoundStepPrevote, sd_Round = 0, sd_Data = Payload_Other [1]\<rparr>,
        \<lparr>sd_Step = RoundStepPropose, sd_Round = 1, sd_Data = Payload_Other [2]\<rparr>]"
      RoundStepPrecommit 0]
  by (simp add: storage_ok_def sd_before_def lookup_def Let_def)

end
