(* ===== verification/Core.thy ===== *)
theory Core
  imports Round_State Msg_Storage
begin

text \<open>
  The consensus state machine of \<^verbatim>\<open>consensus/tendermint/core\<close>: \<^verbatim>\<open>consensus.go\<close>, \<^verbatim>\<open>core.go\<close>,
  \<^verbatim>\<open>handler.go\<close>, \<^verbatim>\<open>catch_up.go\<close>, \<^verbatim>\<open>rebroadcast.go\<close> and \<^verbatim>\<open>state_modification.go\<close>.  The state of a
  node is the record \<open>core\<close>; what it does to the outside (scheduling a timeout, sending a
  message, handing a block to the miner) is appended to \<open>outs\<close> in the order of the calls.  The
  interface \<^verbatim>\<open>tendermint.Backend\<close>, the clock, the random fake blocks of a node configured as faulty and
  the priority queue of \<^verbatim>\<open>go-datastructures\<close> are the record \<open>env\<close>.

  Deferred functions run at the end of the function that defers them.  A panic ends the
  process, so only what was sent before it counts.  Broadcasting and signing may fail; the code
  only logs a failed broadcast.  Goroutines that only send (\<^verbatim>\<open>reBroadcastMsg\<close>, the re-post of a
  node's own vote) are effects in place.
\<close>

section \<open>Environment and state\<close>

record env =
  e_Address :: address
  e_Sign :: "signed_data \<Rightarrow> byte list option"
  e_recover :: "signed_data \<Rightarrow> byte list \<Rightarrow> address option"
  e_kec :: "byte list \<Rightarrow> hash"
  e_Validators :: "int \<Rightarrow> defaultSet"
  e_CurrentHead :: int
  e_VerifyProposalHeader :: "header \<Rightarrow> error option"
  e_VerifyProposalBlock :: "block \<Rightarrow> error option"
  e_timing :: timing
  e_FaultyMode :: nat
  e_fake :: "Proposal \<Rightarrow> Proposal"
  e_rebroadcast :: bool
  e_now :: int
  e_put :: "msgItem \<Rightarrow> msgItem list \<Rightarrow> msgItem list"

datatype effect =
    Schedule timeoutInfo
  | Broadcast int int nat payload
  | Multicast "address list" payload
  | Commit block
  | Cancel block
  | Post payload

record core =
  valSet :: defaultSet
  currentState :: roundState
  sentMsgStorage :: msgStorage
  futureMessages :: "msgItem list"
  futureProposals :: "int \<rightharpoonup> message"
  outs :: "effect list"

type_synonym 'a handler = "('a, core) exec"

definition emit :: "effect \<Rightarrow> unit handler" where
  "emit x = modify (\<lambda>c. c\<lparr>outs := outs c @ [x]\<rparr>)"

definition update :: "(roundState \<Rightarrow> roundState) \<Rightarrow> unit handler" where
  "update f = modify (\<lambda>c. c\<lparr>currentState := f (currentState c)\<rparr>)"

definition set_valSet :: "defaultSet \<Rightarrow> unit handler" where
  "set_valSet vs = modify (\<lambda>c. c\<lparr>valSet := vs\<rparr>)"

definition ScheduleTimeout :: "int \<Rightarrow> int \<Rightarrow> int \<Rightarrow> RoundStepType \<Rightarrow> nat \<Rightarrow> unit handler" where
  "ScheduleTimeout dur n r step retry =
    emit (Schedule \<lparr>tiDuration = dur, tiBlockNumber = n, tiRound = r, tiStep = step, tiRetry = retry\<rparr>)"

text \<open>\<^verbatim>\<open>c.valSet.GetProposer().Address()\<close>; an empty set has no proposer.\<close>

definition GetProposerAddress :: "defaultSet \<Rightarrow> address outcome" where
  "GetProposerAddress vs =
    (case proposer vs of Some a \<Rightarrow> Done a | None \<Rightarrow> Panic ''nil pointer dereference'')"

abbreviation bhash :: "env \<Rightarrow> block \<Rightarrow> hash" where
  "bhash e b \<equiv> Block_Hash (e_kec e) b"

section \<open>Sending\<close>

definition FinalizeMsg :: "env \<Rightarrow> nat \<Rightarrow> body \<Rightarrow> message option" where
  "FinalizeMsg e code m =
    (case e_Sign e (Signed_Message code m (e_Address e)) of
       None \<Rightarrow> None
     | Some sig \<Rightarrow> Some (Message code m (e_Address e) sig))"

definition store_and_broadcast :: "RoundStepType \<Rightarrow> int \<Rightarrow> message \<Rightarrow> unit handler" where
  "store_and_broadcast step round msg =
    get (\<lambda>c.
      bnd (lift (storeSentMsg step round (Payload_Message msg) (sentMsgStorage c))) (\<lambda>saved.
        seqs [modify (\<lambda>c. c\<lparr>sentMsgStorage := saved\<rparr>),
              emit (Broadcast (sBlockNumber (currentState c)) round (Code msg) (Payload_Message msg))]))"

definition SendPropose :: "env \<Rightarrow> Proposal \<Rightarrow> unit handler" where
  "SendPropose e propose =
    (case EncodeProposal propose of
       None \<Rightarrow> ret ()
     | Some msgData \<Rightarrow>
         (case FinalizeMsg e msgPropose msgData of
            None \<Rightarrow> ret ()
          | Some msg \<Rightarrow> store_and_broadcast RoundStepPropose (pRound propose) msg))"

definition SendVote :: "env \<Rightarrow> nat \<Rightarrow> block option \<Rightarrow> int \<Rightarrow> unit handler" where
  "SendVote e voteType b round =
    (if voteType \<noteq> msgPrevote \<and> voteType \<noteq> msgPrecommit then ret ()
     else
       let sealed =
         (case b of
            None \<Rightarrow> Some (0, [])
          | Some b \<Rightarrow>
              (case e_Sign e (Signed_Bytes (PrepareCommittedSeal (Header_Hash (e_kec e) (Block_Header b)))) of
                 None \<Rightarrow> None
               | Some seal \<Rightarrow> Some (bhash e b, seal)))
       in case sealed of
            None \<Rightarrow> ret ()
          | Some (blockHash, seal) \<Rightarrow>
              get (\<lambda>c.
                let vote = \<lparr>vBlockHash = blockHash, vBlockNumber = sBlockNumber (currentState c),
                            vRound = round, vSeal = seal\<rparr>
                in case EncodeVote vote of
                     None \<Rightarrow> ret ()
                   | Some msgData \<Rightarrow>
                       (case FinalizeMsg e voteType msgData of
                          None \<Rightarrow> ret ()
                        | Some msg \<Rightarrow>
                            store_and_broadcast
                              (if voteType = msgPrevote then RoundStepPrevote else RoundStepPrecommit)
                              round msg)))"

definition SendCatchupReply :: "env \<Rightarrow> address \<Rightarrow> payload list \<Rightarrow> unit handler" where
  "SendCatchupReply e target payloads =
    get (\<lambda>c.
      case EncodeCatchUpReply (sBlockNumber (currentState c)) payloads of
        None \<Rightarrow> ret ()
      | Some msgData \<Rightarrow>
          (case FinalizeMsg e msgCatchUpReply msgData of
             None \<Rightarrow> ret ()
           | Some msg \<Rightarrow> emit (Multicast [target] (Payload_Message msg))))"

definition reBroadcastMsg :: "env \<Rightarrow> message \<Rightarrow> unit handler" where
  "reBroadcastMsg e msg =
    (if \<not> e_rebroadcast e then ret ()
     else if Address msg = e_Address e then ret ()
     else get (\<lambda>c.
       emit (Multicast (case GetNeighbors (valSet c) (e_Address e) of None \<Rightarrow> [] | Some ns \<Rightarrow> ns)
               (Payload_Message msg))))"

section \<open>Proposing\<close>

text \<open>A valid round without a valid block would be a nil dereference in \<^verbatim>\<open>SendPropose\<close>.\<close>

definition defaultDecideProposal :: "env \<Rightarrow> int \<Rightarrow> roundState \<Rightarrow> Proposal option outcome" where
  "defaultDecideProposal e round state =
    (if validRound state \<noteq> -1 then
       (case validBlock state of
          None \<Rightarrow> Panic ''nil pointer dereference''
        | Some b \<Rightarrow> Done (Some \<lparr>pBlock = b, pRound = round, pPOLRound = validRound state\<rparr>))
     else case rs_block state of
            None \<Rightarrow> Done None
          | Some b \<Rightarrow>
              if bhash e b = 0 then Done None
              else Done (Some \<lparr>pBlock = b, pRound = round, pPOLRound = -1\<rparr>))"

definition checkAndFakeProposal :: "env \<Rightarrow> Proposal \<Rightarrow> Proposal" where
  "checkAndFakeProposal e p = (if e_FaultyMode e = 1 then e_fake e p else p)"

definition getDefaultProposal :: "env \<Rightarrow> int \<Rightarrow> roundState \<Rightarrow> Proposal option outcome" where
  "getDefaultProposal e round state =
    obind (defaultDecideProposal e round state) (\<lambda>p. Done (map_option (checkAndFakeProposal e) p))"

definition propose_block :: "env \<Rightarrow> int \<Rightarrow> unit handler" where
  "propose_block e round =
    get (\<lambda>c.
      bnd (lift (getDefaultProposal e round (currentState c))) (\<lambda>proposal.
        case proposal of None \<Rightarrow> ret () | Some p \<Rightarrow> SendPropose e p))"

section \<open>Steps of a round\<close>

definition defaultDoPrevote :: "env \<Rightarrow> int \<Rightarrow> unit handler" where
  "defaultDoPrevote e round =
    get (\<lambda>c.
      let state = currentState c
      in if lockedRound state \<noteq> -1 then SendVote e msgPrevote (lockedBlock state) round
         else case proposalReceived state of
                None \<Rightarrow> SendVote e msgPrevote None round
              | Some p \<Rightarrow> SendVote e msgPrevote (Some (pBlock p)) round)"

definition enterPrevote :: "env \<Rightarrow> int \<Rightarrow> int \<Rightarrow> unit handler" where
  "enterPrevote e blockNumber round =
    get (\<lambda>c.
      let state = currentState c
      in if sBlockNumber state \<noteq> blockNumber \<or> round < sRound state \<or>
            (sRound state = round \<and> rs_step state \<ge> RoundStepPrevote)
         then ret ()
         else seqs
           [ScheduleTimeout (PrevoteCatchupTimeout (e_timing e) (sRound state))
              (sBlockNumber state) (sRound state) RoundStepPrevote 0,
            defaultDoPrevote e round,
            update (UpdateRoundStep round RoundStepPrevote)])"

definition enterPropose :: "env \<Rightarrow> int \<Rightarrow> int \<Rightarrow> unit handler" where
  "enterPropose e blockNumber round =
    get (\<lambda>c.
      let state = currentState c; sr = sRound state
      in if sBlockNumber state \<noteq> blockNumber \<or> sr > round \<or>
            (sr = round \<and> rs_step state \<ge> RoundStepPropose)
         then ret ()
         else seqs
           [ScheduleTimeout (ProposeTimeout (e_timing e) round) blockNumber round RoundStepPropose 0,
            (if IsProposer (valSet c) (e_Address e) then propose_block e round else ret ()),
            update (UpdateRoundStep round RoundStepPropose),
            get (\<lambda>c. if IsProposalComplete (currentState c)
                     then enterPrevote e blockNumber sr else ret ())])"

text \<open>
  \<^verbatim>\<open>enterNewRound\<close> replays a stored proposal of the new round through \<^verbatim>\<open>handleMsgLocked\<close>, which is
  its argument \<open>h\<close>; the recursion is tied at \<open>handleMsgLocked\<close>.
\<close>

definition enterNewRound ::
    "(message \<Rightarrow> error option handler) \<Rightarrow> env \<Rightarrow> int \<Rightarrow> int \<Rightarrow> unit handler" where
  "enterNewRound h e blockNumber round =
    get (\<lambda>c.
      let state = currentState c
      in if sBlockNumber state \<noteq> blockNumber \<or> round < sRound state \<or>
            (sRound state = round \<and> rs_step state \<noteq> RoundStepNewHeight)
         then ret ()
         else seqs
           [(if sRound state < round then
               bnd (lift (GetProposerAddress (valSet c))) (\<lambda>p.
               bnd (lift (CalcProposer (valSet c) p (i64 (round - sRound state)))) set_valSet)
             else ret ()),
            (if round > 0 then update (SetProposalReceived None) else ret ()),
            update (UpdateRoundStep round RoundStepNewRound),
            update (setPrecommitWaited False),
            enterPropose e blockNumber round,
            get (\<lambda>c. case futureProposals c round of
                       Some m \<Rightarrow> bnd (h m) (\<lambda>_. ret ())
                     | None \<Rightarrow> ret ())])"

text \<open>The two tests on the prevotes of the round only log.\<close>

definition enterPrevoteWait :: "env \<Rightarrow> int \<Rightarrow> int \<Rightarrow> unit handler" where
  "enterPrevoteWait e blockNumber round =
    get (\<lambda>c.
      let state = currentState c
      in if sBlockNumber state \<noteq> blockNumber \<or> round < sRound state \<or>
            (sRound state = round \<and> RoundStepPrevoteWait \<le> rs_step state)
         then ret ()
         else seqs
           [ScheduleTimeout (PrevoteTimeout (e_timing e) round) blockNumber round RoundStepPrevoteWait 0,
            update (UpdateRoundStep round RoundStepPrevoteWait)])"

definition enterPrecommitWait :: "env \<Rightarrow> int \<Rightarrow> int \<Rightarrow> unit handler" where
  "enterPrecommitWait e blockNumber round =
    get (\<lambda>c.
      let state = currentState c
      in if sBlockNumber state \<noteq> blockNumber \<or> round < sRound state \<or>
            (sRound state = round \<and> PrecommitWaited state)
         then ret ()
         else case GetPrecommitsByRound round state of
                None \<Rightarrow> panic ''enterPrecommitWait with no precommit votes''
              | Some precommits \<Rightarrow>
                  if \<not> HasTwoThirdAny (Some precommits)
                  then panic ''enterPrecommitWait without precommits has 2/3 of votes''
                  else seqs
                    [ScheduleTimeout (PrecommitTimeout (e_timing e) round)
                       blockNumber round RoundStepPrecommitWait 0,
                     update (UpdateRoundStep round RoundStepPrecommitWait),
                     update (setPrecommitWaited True)])"

text \<open>The body of \<^verbatim>\<open>enterPrecommit\<close> between the guard and the deferred change of step.\<close>

definition doPrecommit :: "env \<Rightarrow> int \<Rightarrow> unit handler" where
  "doPrecommit e round =
    get (\<lambda>c.
      let state = currentState c
      in case TwoThirdMajority (GetPrevotesByRound round state) of
           None \<Rightarrow> SendVote e msgPrecommit None round
         | Some blockHash \<Rightarrow>
             if fst (POLInfo state) < round then panic ''wrong POLRound''
             else if blockHash = 0 then
               seqs [(if lockedBlock state = None then ret () else update Unlock),
                     SendVote e msgPrecommit None round]
             else if map_option (bhash e) (lockedBlock state) = Some blockHash then
               seqs [update (SetLockedRoundAndBlock round (lockedBlock state)),
                     SendVote e msgPrecommit (lockedBlock state) round]
             else if map_option (\<lambda>p. bhash e (pBlock p)) (proposalReceived state) = Some blockHash then
               seqs [update (SetLockedRoundAndBlock round (map_option pBlock (proposalReceived state))),
                     SendVote e msgPrecommit (map_option pBlock (proposalReceived state)) round]
             else
               seqs [update Unlock, SendVote e msgPrecommit None round])"

definition enterPrecommit :: "env \<Rightarrow> int \<Rightarrow> int \<Rightarrow> unit handler" where
  "enterPrecommit e blockNumber round =
    get (\<lambda>c.
      let state = currentState c
      in if sBlockNumber state \<noteq> blockNumber \<or> round < sRound state \<or>
            (sRound state = round \<and> rs_step state \<ge> RoundStepPrecommit)
         then ret ()
         else seqs
           [ScheduleTimeout (PrecommitCatchupTimeout (e_timing e) (sRound state))
              (sBlockNumber state) (sRound state) RoundStepPrecommit 0,
            doPrecommit e round,
            update (UpdateRoundStep round RoundStepPrecommit)])"

section \<open>Committing\<close>

text \<open>The loop of \<^verbatim>\<open>FinalizeBlock\<close>: seals of the votes present, until there are \<open>n\<close> of them.\<close>

fun collect_seals :: "Vote option list \<Rightarrow> int \<Rightarrow> byte list list \<Rightarrow> byte list list" where
  "collect_seals [] minMajority seals = seals"
| "collect_seals (None # vs) minMajority seals = collect_seals vs minMajority seals"
| "collect_seals (Some v # vs) minMajority seals =
    (let seals = seals @ [vSeal v]
     in if int (length seals) \<ge> minMajority then seals else collect_seals vs minMajority seals)"

definition FinalizeBlock :: "env \<Rightarrow> Proposal \<Rightarrow> core \<Rightarrow> (error + block) outcome" where
  "FinalizeBlock e proposal c =
    (let state = currentState c;
         hdr = Block_Header (pBlock proposal);
         minMajority = MinMajority (valSet c)
     in case GetPrecommitsByRound (commitRound state) state of
          None \<Rightarrow> Panic ''no precommits at commitRound''
        | Some precommits \<Rightarrow>
            (case voteByBlock precommits (Header_Hash (e_kec e) hdr) of
               None \<Rightarrow> Panic ''no votes for the committing block''
             | Some bv \<Rightarrow>
                 if bv_totalReceived bv < minMajority
                 then Done (Inl (ErrOther ''not enough precommits''))
                 else
                   let commitSeals = collect_seals (votes bv) minMajority []
                   in if int (length commitSeals) < minMajority
                      then Done (Inl (ErrOther ''not enough precommits''))
                      else case WriteCommittedSeals hdr commitSeals of
                             Inl err \<Rightarrow> Done (Inl err)
                           | Inr hdr \<Rightarrow> Done (Inr (WithSeal (pBlock proposal) hdr))))"

definition finalizeCommit :: "env \<Rightarrow> int \<Rightarrow> unit handler" where
  "finalizeCommit e blockNumber =
    get (\<lambda>c.
      let state = currentState c
      in if sBlockNumber state \<noteq> blockNumber
         then panic ''finalize a commit at different state block number''
         else if rs_step state \<noteq> RoundStepCommit then ret ()
         else case TwoThirdMajority (GetPrecommitsByRound (commitRound state) state) of
                None \<Rightarrow> ret ()
              | Some blockHash \<Rightarrow>
                  if blockHash = 0 then ret ()
                  else case proposalReceived state of
                         None \<Rightarrow> ret ()
                       | Some proposal \<Rightarrow>
                           if bhash e (pBlock proposal) \<noteq> blockHash then ret ()
                           else bnd (lift (FinalizeBlock e proposal c)) (\<lambda>r.
                                  case r of
                                    Inl err \<Rightarrow> panic ''block committing failed''
                                  | Inr b \<Rightarrow> emit (Commit b)))"

text \<open>The body of \<^verbatim>\<open>enterCommit\<close> before its deferred function.\<close>

definition commit_proposal :: "env \<Rightarrow> int \<Rightarrow> hash \<Rightarrow> roundState \<Rightarrow> roundState" where
  "commit_proposal e cRound blockHash state =
    (let state = (case lockedBlock state of
                    Some b \<Rightarrow>
                      if bhash e b = blockHash
                      then SetProposalReceived
                             (Some \<lparr>pBlock = b, pRound = cRound, pPOLRound = lockedRound state\<rparr>) state
                      else state
                  | None \<Rightarrow> state)
     in case proposalReceived state of
          Some p \<Rightarrow> if bhash e (pBlock p) \<noteq> blockHash then SetProposalReceived None state else state
        | None \<Rightarrow> state)"

definition enterCommit :: "env \<Rightarrow> int \<Rightarrow> int \<Rightarrow> unit handler" where
  "enterCommit e blockNumber cRound =
    get (\<lambda>c.
      let state = currentState c
      in if sBlockNumber state \<noteq> blockNumber \<or> rs_step state \<ge> RoundStepCommit then ret ()
         else case GetPrecommitsByRound cRound state of
                None \<Rightarrow> panic ''commit round must have a set of precommits''
              | Some precommits \<Rightarrow>
                  (case TwoThirdMajority (Some precommits) of
                     None \<Rightarrow> panic ''commit round must has a majority block''
                   | Some blockHash \<Rightarrow>
                       seqs [update (commit_proposal e cRound blockHash),
                             update (\<lambda>s. UpdateRoundStep (sRound s) RoundStepCommit s),
                             update (\<lambda>s. s\<lparr>commitRound := cRound, commitTime := Some (e_now e)\<rparr>),
                             finalizeCommit e blockNumber]))"


section \<open>Message handlers\<close>

definition VerifyProposal :: "env \<Rightarrow> Proposal \<Rightarrow> message \<Rightarrow> core \<Rightarrow> error option outcome" where
  "VerifyProposal e proposal msg c =
    (if pPOLRound proposal < -1 \<or> (pPOLRound proposal \<ge> 0 \<and> pPOLRound proposal \<ge> pRound proposal)
     then Done (Some ErrInvalidProposalPOLRound)
     else case GetAddressFromSignature (e_recover e) msg of
            None \<Rightarrow> Done (Some (ErrOther ''recover signer''))
          | Some signer \<Rightarrow>
              obind (GetProposerAddress (valSet c)) (\<lambda>p.
                if p \<noteq> signer then Done (Some ErrInvalidProposalSignature)
                else if bhash e (pBlock proposal) = 0 then Done (Some ErrEmptyBlockProposal)
                else case e_VerifyProposalHeader e (Block_Header (pBlock proposal)) of
                       Some err \<Rightarrow>
                         if err \<noteq> ErrEmptyCommittedSeals then Done (Some err)
                         else Done (e_VerifyProposalBlock e (pBlock proposal))
                     | None \<Rightarrow> Done (e_VerifyProposalBlock e (pBlock proposal))))"

definition put_future :: "env \<Rightarrow> message \<Rightarrow> int \<Rightarrow> unit handler" where
  "put_future e msg n =
    modify (\<lambda>c. c\<lparr>futureMessages :=
      e_put e \<lparr>item_message = msg, item_height = Uint64 n\<rparr> (futureMessages c)\<rparr>)"

text \<open>
  A proposal of a later round is kept when it comes from the proposer that round will have.
\<close>

definition store_future_proposal :: "env \<Rightarrow> message \<Rightarrow> Proposal \<Rightarrow> unit handler" where
  "store_future_proposal e msg proposal =
    get (\<lambda>c.
      bnd (lift (Copy (e_kec e) (valSet c))) (\<lambda>vs.
      bnd (lift (GetProposerAddress (valSet c))) (\<lambda>cur.
      bnd (lift (CalcProposer vs cur (i64 (pRound proposal - sRound (currentState c))))) (\<lambda>vs.
      bnd (lift (GetProposerAddress vs)) (\<lambda>p.
        if p = Address msg
        then modify (\<lambda>c. c\<lparr>futureProposals := (futureProposals c)(pRound proposal \<mapsto> msg)\<rparr>)
        else ret ())))))"

definition accept_proposal :: "env \<Rightarrow> message \<Rightarrow> Proposal \<Rightarrow> unit handler" where
  "accept_proposal e msg proposal =
    seqs
      [reBroadcastMsg e msg,
       update (SetProposalReceived (Some proposal)),
       get (\<lambda>c.
         let state = currentState c
         in if rs_step state \<le> RoundStepPropose \<and> IsProposalComplete state
            then enterPrevote e (sBlockNumber state) (sRound state)
            else if rs_step state = RoundStepCommit
            then finalizeCommit e (Block_Number (pBlock proposal))
            else ret ())]"

definition handlePropose :: "env \<Rightarrow> message \<Rightarrow> error option handler" where
  "handlePropose e msg =
    get (\<lambda>c.
      let state = currentState c
      in case DecodeProposal (Msg msg) of
           None \<Rightarrow> ret (Some ErrDecode)
         | Some proposal \<Rightarrow>
             if proposalReceived state \<noteq> None then ret None
             else if Block_Number (pBlock proposal) \<noteq> sBlockNumber state then
               (if Block_Number (pBlock proposal) > sBlockNumber state
                then bnd (put_future e msg (Block_Number (pBlock proposal))) (\<lambda>_. ret None)
                else ret None)
             else if pRound proposal \<noteq> sRound state then
               (if pRound proposal > sRound state
                then bnd (store_future_proposal e msg proposal) (\<lambda>_. ret None)
                else ret None)
             else
               bnd (lift (VerifyProposal e proposal msg c)) (\<lambda>err.
                 case err of
                   Some err \<Rightarrow> ret (if err = ErrKnownBlock then None else Some err)
                 | None \<Rightarrow> bnd (accept_proposal e msg proposal) (\<lambda>_. ret None)))"

text \<open>
  What a two-thirds majority of prevotes does to the lock and the valid block.
\<close>

definition prevote_majority :: "env \<Rightarrow> Vote \<Rightarrow> hash \<Rightarrow> unit handler" where
  "prevote_majority e vote blockHash =
    seqs
      [get (\<lambda>c.
         let state = currentState c
         in if lockedRound state \<noteq> -1 \<and> lockedRound state < vRound vote \<and> vRound vote \<le> sRound state
            then (case lockedBlock state of
                    None \<Rightarrow> panic ''nil pointer dereference''
                  | Some b \<Rightarrow> if bhash e b \<noteq> blockHash then update Unlock else ret ())
            else ret ()),
       get (\<lambda>c.
         let state = currentState c
         in if blockHash \<noteq> 0 \<and> validRound state < vRound vote \<and> vRound vote = sRound state
            then (if map_option (\<lambda>p. bhash e (pBlock p)) (proposalReceived state) = Some blockHash
                  then update (SetValidRoundAndBlock (vRound vote)
                                 (map_option pBlock (proposalReceived state)))
                  else update (SetProposalReceived None))
            else ret ())]"

text \<open>The \<^verbatim>\<open>switch\<close> at the end of \<^verbatim>\<open>handlePrevote\<close>.\<close>

definition prevote_progress ::
    "(message \<Rightarrow> error option handler) \<Rightarrow> env \<Rightarrow> Vote \<Rightarrow> messageSet \<Rightarrow> unit handler" where
  "prevote_progress h e vote prevotes =
    get (\<lambda>c.
      let state = currentState c
      in if sRound state < vRound vote \<and> HasTwoThirdAny (Some prevotes)
         then enterNewRound h e (sBlockNumber state) (vRound vote)
         else if sRound state = vRound vote \<and> RoundStepPrevote \<le> rs_step state then
           (if TwoThirdMajority (Some prevotes) \<noteq> None \<and>
               (IsProposalComplete state \<or> TwoThirdMajority (Some prevotes) = Some 0)
            then enterPrecommit e (sBlockNumber state) (vRound vote)
            else if HasTwoThirdAny (Some prevotes)
            then enterPrevoteWait e (sBlockNumber state) (vRound vote)
            else ret ())
         else if (case proposalReceived state of
                    Some p \<Rightarrow> 0 \<le> pPOLRound p \<and> pPOLRound p = vRound vote
                  | None \<Rightarrow> False) then
           (if IsProposalComplete state
            then enterPrevote e (sBlockNumber state) (vRound vote) else ret ())
         else ret ())"

definition handlePrevote ::
    "(message \<Rightarrow> error option handler) \<Rightarrow> env \<Rightarrow> message \<Rightarrow> error option handler" where
  "handlePrevote h e msg =
    get (\<lambda>c.
      let state = currentState c
      in case DecodeVote (Msg msg) of
           None \<Rightarrow> ret (Some ErrDecode)
         | Some vote \<Rightarrow>
             if vBlockNumber vote \<noteq> sBlockNumber state then
               (if vBlockNumber vote > sBlockNumber state
                then bnd (put_future e msg (vBlockNumber vote)) (\<lambda>_. ret None)
                else ret None)
             else
               bnd (lift (addPrevote msg vote (valSet c) state)) (\<lambda>(added, state).
               bnd (update (\<lambda>_. state)) (\<lambda>_.
                 case added of
                   Inl err \<Rightarrow> ret (Some err)
                 | Inr False \<Rightarrow> ret None
                 | Inr True \<Rightarrow>
                     (case GetPrevotesByRound (vRound vote) state of
                        None \<Rightarrow> panic ''expect prevotes to exist now''
                      | Some prevotes \<Rightarrow>
                          bnd (seqs
                            [(case TwoThirdMajority (Some prevotes) of
                                Some blockHash \<Rightarrow> prevote_majority e vote blockHash
                              | None \<Rightarrow> ret ()),
                             reBroadcastMsg e msg,
                             prevote_progress h e vote prevotes]) (\<lambda>_. ret None)))))"

definition precommit_progress ::
    "(message \<Rightarrow> error option handler) \<Rightarrow> env \<Rightarrow> Vote \<Rightarrow> messageSet \<Rightarrow> unit handler" where
  "precommit_progress h e vote precommits =
    get (\<lambda>c.
      let n = sBlockNumber (currentState c)
      in case TwoThirdMajority (Some precommits) of
           Some blockHash \<Rightarrow>
             seqs [enterNewRound h e n (vRound vote),
                   enterPrecommit e n (vRound vote),
                   (if blockHash \<noteq> 0 then enterCommit e n (vRound vote)
                    else enterNewRound h e n (i64 (vRound vote + 1)))]
         | None \<Rightarrow>
             if sRound (currentState c) \<le> vRound vote \<and> HasTwoThirdAny (Some precommits)
             then seqs [enterNewRound h e n (vRound vote), enterPrecommitWait e n (vRound vote)]
             else ret ())"

definition handlePrecommit ::
    "(message \<Rightarrow> error option handler) \<Rightarrow> env \<Rightarrow> message \<Rightarrow> error option handler" where
  "handlePrecommit h e msg =
    get (\<lambda>c.
      let state = currentState c
      in case DecodeVote (Msg msg) of
           None \<Rightarrow> ret (Some ErrDecode)
         | Some vote \<Rightarrow>
             if vBlockNumber vote \<noteq> sBlockNumber state then
               (if vBlockNumber vote > sBlockNumber state
                then bnd (put_future e msg (vBlockNumber vote)) (\<lambda>_. ret None)
                else ret None)
             else
               bnd (lift (addPrecommit msg vote (valSet c) state)) (\<lambda>(added, state).
               bnd (update (\<lambda>_. state)) (\<lambda>_.
                 case added of
                   Inl err \<Rightarrow> ret (Some err)
                 | Inr False \<Rightarrow> ret None
                 | Inr True \<Rightarrow>
                     bnd (reBroadcastMsg e msg) (\<lambda>_.
                     case GetPrecommitsByRound (vRound vote) state of
                       None \<Rightarrow> panic ''expect precommits to exist now''
                     | Some precommits \<Rightarrow>
                         bnd (precommit_progress h e vote precommits) (\<lambda>_. ret None)))))"

text \<open>
  The replies to a catch-up request: the stored messages from an index on, in batches of three.
\<close>

fun catchup_batches :: "payload list \<Rightarrow> payload list \<Rightarrow> payload list list" where
  "catchup_batches acc [] = (if acc \<noteq> [] then [acc] else [])"
| "catchup_batches acc (d # ds) =
    (let acc = acc @ [d] in
     if length acc \<ge> 3 then acc # catchup_batches [] ds else catchup_batches acc ds)"

definition handleCatchupRequest :: "env \<Rightarrow> message \<Rightarrow> error option handler" where
  "handleCatchupRequest e msg =
    get (\<lambda>c.
      let state = currentState c
      in case Msg msg of
           Body_CatchUpRequest n r step \<Rightarrow>
             if n \<noteq> sBlockNumber state \<or> r > sRound state \<or> (r = sRound state \<and> step > rs_step state)
             then ret None
             else
               let index = lookup step r (sentMsgStorage c)
               in if index = -1 then ret None
                  else bnd (seqs (map (SendCatchupReply e (Address msg))
                                    (catchup_batches [] (map sd_Data (drop (nat index) (sentMsgStorage c))))))
                         (\<lambda>_. ret None)
         | _ \<Rightarrow> ret (Some ErrDecode))"

fun catchup_replies ::
    "(message \<Rightarrow> error option handler) \<Rightarrow> address \<Rightarrow> payload list \<Rightarrow> error option handler" where
  "catchup_replies h from [] = ret None"
| "catchup_replies h from (p # ps) =
    (case DecodeMessage p of
       None \<Rightarrow> ret (Some ErrDecode)
     | Some subMsg \<Rightarrow>
         if Address subMsg \<noteq> from then ret (Some ErrCatchUpReplyAddressMissMatch)
         else bnd (h subMsg) (\<lambda>err.
                case err of Some e \<Rightarrow> ret (Some e) | None \<Rightarrow> catchup_replies h from ps))"

definition handleCatchUpReply ::
    "(message \<Rightarrow> error option handler) \<Rightarrow> env \<Rightarrow> message \<Rightarrow> error option handler" where
  "handleCatchUpReply h e msg =
    get (\<lambda>c.
      case Msg msg of
        Body_CatchUpReply n ps \<Rightarrow>
          if sBlockNumber (currentState c) \<noteq> n then ret None
          else catchup_replies h (Address msg) ps
      | _ \<Rightarrow> ret (Some ErrDecode))"

text \<open>
  \<^verbatim>\<open>handleMsgLocked\<close> calls itself for the messages inside a catch-up reply and, through
  \<^verbatim>\<open>enterNewRound\<close>, for a stored proposal.  The fuel bounds that nesting
  (\<open>handleMsgLocked_fuel\<close>).
\<close>

fun handleMsgLocked :: "nat \<Rightarrow> env \<Rightarrow> message \<Rightarrow> error option handler" where
  "handleMsgLocked 0 e msg = (\<lambda>c. Unfinished)"
| "handleMsgLocked (Suc fuel) e msg =
    (let h = handleMsgLocked fuel e
     in case GetAddressFromSignature (e_recover e) msg of
          None \<Rightarrow> ret (Some (ErrOther ''recover signer''))
        | Some signer \<Rightarrow>
            if signer \<noteq> Address msg then ret (Some ErrSignerMessageMissMatch)
            else if Code msg = msgPropose then handlePropose e msg
            else if Code msg = msgPrevote then handlePrevote h e msg
            else if Code msg = msgPrecommit then handlePrecommit h e msg
            else if Code msg = msgCatchUpRequest then handleCatchupRequest e msg
            else if Code msg = msgCatchUpReply then handleCatchUpReply h e msg
            else ret (Some (ErrOther ''unknown msg code'')))"

section \<open>Timeouts and catch-up\<close>

definition sendCatchUpRequest :: "env \<Rightarrow> int \<Rightarrow> int \<Rightarrow> RoundStepType \<Rightarrow> unit handler" where
  "sendCatchUpRequest e tiBlock tRound tStep =
    (case EncodeCatchUpRequest tiBlock tRound tStep of
       None \<Rightarrow> ret ()
     | Some msgData \<Rightarrow>
         (case FinalizeMsg e msgCatchUpRequest msgData of
            None \<Rightarrow> ret ()
          | Some msg \<Rightarrow>
              if tStep \<noteq> RoundStepPrevote \<and> tStep \<noteq> RoundStepPrecommit then ret ()
              else get (\<lambda>c.
                let state = currentState c;
                    msgSet = (if tStep = RoundStepPrevote then GetPrevotesByRound tRound state
                              else GetPrecommitsByRound tRound state);
                    missing = (case msgSet of
                                 None \<Rightarrow> validators (valSet c)
                               | Some ms \<Rightarrow> MissingVotes ms)
                in seqs
                  [(if e_Address e \<in> set missing then
                      (case get_msg (lookup tStep tRound (sentMsgStorage c)) (sentMsgStorage c) of
                         Inl _ \<Rightarrow> ret ()
                       | Inr p \<Rightarrow> emit (Post p))
                    else ret ()),
                   emit (Multicast (filter (\<lambda>a. a \<noteq> e_Address e) missing) (Payload_Message msg))])))"

definition enterCatchup :: "env \<Rightarrow> int \<Rightarrow> int \<Rightarrow> RoundStepType \<Rightarrow> nat \<Rightarrow> unit handler" where
  "enterCatchup e tiBlock tRound tStep retry =
    get (\<lambda>c.
      let state = currentState c
      in if sBlockNumber state \<noteq> tiBlock \<or> tRound \<noteq> sRound state \<or> rs_step state \<noteq> tStep then ret ()
         else if tStep = RoundStepPrevote \<or> tStep = RoundStepPrecommit then
           seqs [ScheduleTimeout
                   (if tStep = RoundStepPrevote then PrevoteCatchupTimeout (e_timing e) (sRound state)
                    else PrecommitCatchupTimeout (e_timing e) (sRound state))
                   (sBlockNumber state) (sRound state) tStep ((retry + 1) mod 2 ^ 64),
                 sendCatchUpRequest e tiBlock tRound tStep]
         else ret ())"

definition handleTimeout ::
    "(message \<Rightarrow> error option handler) \<Rightarrow> env \<Rightarrow> timeoutInfo \<Rightarrow> unit handler" where
  "handleTimeout h e t =
    get (\<lambda>c.
      let state = currentState c
      in if tiBlockNumber t \<noteq> sBlockNumber state \<or> tiRound t < sRound state \<or>
            (tiRound t = sRound state \<and> tiStep t < rs_step state)
         then ret ()
         else if tiStep t = RoundStepNewHeight then enterNewRound h e (tiBlockNumber t) 0
         else if tiStep t = RoundStepNewRound then enterPropose e (tiBlockNumber t) 0
         else if tiStep t = RoundStepPropose then enterPrevote e (tiBlockNumber t) (tiRound t)
         else if tiStep t = RoundStepPrevote \<or> tiStep t = RoundStepPrecommit
         then enterCatchup e (tiBlockNumber t) (tiRound t) (tiStep t) (tiRetry t)
         else if tiStep t = RoundStepPrevoteWait then enterPrecommit e (tiBlockNumber t) (tiRound t)
         else if tiStep t = RoundStepPrecommitWait then
           seqs [enterPrecommit e (tiBlockNumber t) (tiRound t),
                 enterNewRound h e (tiBlockNumber t) (i64 (tiRound t + 1))]
         else panic ''Invalid timeout step'')"


section \<open>Heights\<close>

text \<open>\<^verbatim>\<open>time.Until\<close> saturates at the bounds of a duration; the zero time lies before all of them.\<close>

definition time_Until :: "int \<Rightarrow> int option \<Rightarrow> int" where
  "time_Until now t =
    (case t of
       None \<Rightarrow> - (2 ^ 63)
     | Some t \<Rightarrow> max (- (2 ^ 63)) (min (2 ^ 63 - 1) (t - now)))"

definition empty_header :: header where
  "empty_header =
    \<lparr>ParentHash = 0, UncleHash = 0, Coinbase = 0, Root = 0, TxHash = 0, ReceiptHash = 0,
     Bloom = replicate 256 0, Difficulty = None, Number = None, GasLimit = 0, GasUsed = 0,
     Time = 0, Extra = [], MixDigest = 0, Nonce = 0\<rparr>"

definition getInitializedState :: "env \<Rightarrow> roundState" where
  "getInitializedState e =
    newRoundState \<lparr>BlockNumber = e_CurrentHead e + 1, Round = 0\<rparr> Map.empty Map.empty
      (Some (NewBlockWithHeader empty_header)) (-1) None (-1) None None RoundStepNewHeight (-1)"

definition updateStateForNewblock :: "env \<Rightarrow> unit handler" where
  "updateStateForNewblock e =
    get (\<lambda>c.
      let state = currentState c
      in if commitRound state > -1 \<and>
            TwoThirdMajority (GetPrecommitsByRound (commitRound state) state) = None
         then ret ()
         else
           let state = SetView \<lparr>BlockNumber = sBlockNumber state + 1, Round = 0\<rparr> state;
               state = state\<lparr>startTime := Some (Commit_time (e_timing e)
                         (case commitTime state of None \<Rightarrow> e_now e | Some t \<Rightarrow> t))\<rparr>;
               state = clearPreviousRoundData state
           in modify (\<lambda>c. c\<lparr>currentState := state, valSet := e_Validators e (sBlockNumber state),
                            futureProposals := Map.empty\<rparr>))"

definition step_duration :: "env \<Rightarrow> roundState \<Rightarrow> int option" where
  "step_duration e state =
    (let step = rs_step state; r = sRound state; cfg = e_timing e
     in if step = RoundStepNewHeight then Some (time_Until (e_now e) (startTime state))
        else if step = RoundStepPropose then Some (ProposeTimeout cfg r)
        else if step = RoundStepPrevote then Some (PrevoteCatchupTimeout cfg r)
        else if step = RoundStepPrevoteWait then Some (PrevoteTimeout cfg r)
        else if step = RoundStepPrecommit then Some (PrecommitCatchupTimeout cfg r)
        else if step = RoundStepPrecommitWait then Some (PrecommitTimeout cfg r)
        else None)"

definition startNewRound :: "env \<Rightarrow> unit handler" where
  "startNewRound e =
    seqs
      [get (\<lambda>c.
         let expectedBlock = e_CurrentHead e + 1
         in if sBlockNumber (currentState c) = expectedBlock then ret ()
            else
              let state = clearPreviousRoundData
                            (SetView \<lparr>BlockNumber = expectedBlock, Round = 0\<rparr> (currentState c))
              in modify (\<lambda>c. c\<lparr>currentState := state,
                               sentMsgStorage := truncateMsgStored (sentMsgStorage c),
                               valSet := e_Validators e (sBlockNumber state)\<rparr>)),
       get (\<lambda>c.
         let state = currentState c
         in case step_duration e state of
              None \<Rightarrow> ret ()
            | Some duration \<Rightarrow>
                if fst (GetByAddress (valSet c) (e_Address e)) = -1 then ret ()
                else ScheduleTimeout duration (sBlockNumber state) (sRound state) (rs_step state) 0)]"

text \<open>The height a queued message is for, and whether it decodes at all.\<close>

definition msg_height :: "message \<Rightarrow> int option" where
  "msg_height msg =
    (if Code msg = msgPrecommit \<or> Code msg = msgPrevote
     then map_option vBlockNumber (DecodeVote (Msg msg))
     else if Code msg = msgPropose
     then map_option (\<lambda>p. Block_Number (pBlock p)) (DecodeProposal (Msg msg))
     else None)"

text \<open>
  \<^verbatim>\<open>processFutureMessages\<close>: every round of the loop takes one message off the queue or stops, and a
  message of the current height puts none on it, so the length of the queue bounds the rounds
  (\<open>processFutureMessages_fuel\<close>).
\<close>

fun processFutureMessages ::
    "nat \<Rightarrow> (message \<Rightarrow> error option handler) \<Rightarrow> env \<Rightarrow> error option handler" where
  "processFutureMessages 0 h e = (\<lambda>c. Unfinished)"
| "processFutureMessages (Suc fuel) h e =
    get (\<lambda>c.
      case futureMessages c of
        [] \<Rightarrow> ret None
      | it # rest \<Rightarrow>
          let msg = item_message it
          in case msg_height msg of
               None \<Rightarrow> ret (Some ErrDecode)
             | Some n \<Rightarrow>
                 if n < sBlockNumber (currentState c) then
                   bnd (modify (\<lambda>c. c\<lparr>futureMessages := rest\<rparr>)) (\<lambda>_. processFutureMessages fuel h e)
                 else if n > sBlockNumber (currentState c) then ret None
                 else
                   bnd (modify (\<lambda>c. c\<lparr>futureMessages := rest\<rparr>)) (\<lambda>_.
                   bnd (h msg) (\<lambda>_. processFutureMessages fuel h e)))"

section \<open>Events\<close>

definition handleFinalCommitted ::
    "(message \<Rightarrow> error option handler) \<Rightarrow> env \<Rightarrow> int \<Rightarrow> unit handler" where
  "handleFinalCommitted h e newHeadNumber =
    get (\<lambda>c.
      if sBlockNumber (currentState c) > newHeadNumber then ret ()
      else seqs
        [modify (\<lambda>c. c\<lparr>sentMsgStorage := truncateMsgStored (sentMsgStorage c)\<rparr>),
         updateStateForNewblock e,
         startNewRound e,
         get (\<lambda>c. bnd (processFutureMessages (Suc (length (futureMessages c))) h e) (\<lambda>_. ret ()))])"

definition handleNewBlock :: "env \<Rightarrow> block \<Rightarrow> unit handler" where
  "handleNewBlock e b =
    get (\<lambda>c.
      if sBlockNumber (currentState c) > Block_Number b then emit (Cancel b)
      else seqs
        [update (SetBlock (Some b)),
         (if rs_step (currentState c) = RoundStepPropose \<and>
             fst (GetByAddress (valSet c) (e_Address e)) \<noteq> -1 \<and>
             IsProposer (valSet c) (e_Address e)
          then propose_block e (sRound (currentState c)) else ret ())])"

datatype event =
    NewBlockEvent block
  | MessageEvent payload
  | TimeoutEvent timeoutInfo
  | FinalCommittedEvent int

text \<open>The nesting of a message: how deep catch-up replies contain each other.\<close>

fun msg_depth :: "message \<Rightarrow> nat" and body_depth :: "body \<Rightarrow> nat" and payload_depth :: "payload \<Rightarrow> nat" where
  "msg_depth (Message code b a sig) = Suc (body_depth b)"
| "body_depth (Body_CatchUpReply n ps) = fold (\<lambda>p acc. max (payload_depth p) acc) ps 0"
| "body_depth (Body_Proposal b r pol) = 0"
| "body_depth (Body_Vote h n r seal) = 0"
| "body_depth (Body_CatchUpRequest n r st) = 0"
| "body_depth (Body_Other bs) = 0"
| "payload_depth (Payload_Message m) = msg_depth m"
| "payload_depth Payload_Empty = 0"
| "payload_depth (Payload_Other bs) = 0"

text \<open>One round of the loop of \<^verbatim>\<open>handleEvents\<close>; errors are only logged.\<close>

definition handleEvent :: "env \<Rightarrow> event \<Rightarrow> unit handler" where
  "handleEvent e ev =
    (case ev of
       NewBlockEvent b \<Rightarrow> handleNewBlock e b
     | MessageEvent p \<Rightarrow>
         (case DecodeMessage p of
            None \<Rightarrow> ret ()
          | Some msg \<Rightarrow> bnd (handleMsgLocked (Suc (msg_depth msg)) e msg) (\<lambda>_. ret ()))
     | TimeoutEvent t \<Rightarrow> handleTimeout (handleMsgLocked 1 e) e t
     | FinalCommittedEvent n \<Rightarrow> handleFinalCommitted (handleMsgLocked 2 e) e n)"

text \<open>
  \<^verbatim>\<open>New\<close> followed by \<^verbatim>\<open>Start\<close>: a core without a state is initialised from the chain's head, one
  that was stopped keeps its state.
\<close>

definition core_init :: "env \<Rightarrow> core" where
  "core_init e =
    \<lparr>valSet = e_Validators e (sBlockNumber (getInitializedState e)), currentState = getInitializedState e,
     sentMsgStorage = NewMsgStorage, futureMessages = [], futureProposals = Map.empty, outs = []\<rparr>"

definition core_Start :: "env \<Rightarrow> core option \<Rightarrow> (unit, core) res" where
  "core_Start e c = startNewRound e (case c of None \<Rightarrow> core_init e | Some c \<Rightarrow> c)"

end
