(* ===== verification/Voting.thy ===== *)
theory Voting
  imports Validator_Set
begin

text \<open>
  The voting discipline that makes the consensus safe, as an abstract specification.  A
  \<open>voter\<close> knows its height, round and step, the block it is locked on, which blocks got a
  two-thirds majority of prevotes (a polka) or of precommits, and the ballots it has cast;
  \<open>voter_step\<close> says what it may do.  The locale \<open>voting\<close> derives from quorum
  intersection that voters which follow the discipline never decide differently at a height.
  \<open>Core_Refinement\<close> shows that the state machine of the node follows it.
\<close>

section \<open>Voters\<close>

text \<open>A ballot is its type (1 prevote, 2 precommit), height, round and block hash (0 for nil).\<close>

type_synonym ballot = "nat \<times> int \<times> int \<times> hash"

record voter =
  v_height :: int
  v_round :: int
  v_step :: nat
  v_lock :: "(int \<times> hash) option"
  v_polka :: "(int \<times> int \<times> hash) set"
  v_majority :: "(int \<times> int \<times> hash) set"
  v_cast :: "ballot list"
  v_decided :: "(int \<times> hash) list"

text \<open>
  The discipline.  \<open>pol n r x\<close> and \<open>prec n r x\<close> say that a quorum has prevoted or
  precommitted \<open>x\<close>; the list is the ballot cast by the step, if any (signing may fail).
\<close>

inductive voter_step ::
    "(int \<Rightarrow> int \<Rightarrow> hash \<Rightarrow> bool) \<Rightarrow> (int \<Rightarrow> int \<Rightarrow> hash \<Rightarrow> bool) \<Rightarrow>
     voter \<Rightarrow> ballot list \<Rightarrow> voter \<Rightarrow> bool"
  for pol prec where
  learn_polka: "pol (v_height v) r x \<Longrightarrow>
    voter_step pol prec v [] (v\<lparr>v_polka := insert (v_height v, r, x) (v_polka v)\<rparr>)"
| learn_majority: "prec (v_height v) r x \<Longrightarrow>
    voter_step pol prec v [] (v\<lparr>v_majority := insert (v_height v, r, x) (v_majority v)\<rparr>)"
| advance: "v_round v \<le> r \<Longrightarrow>
    r = v_round v \<longrightarrow> (4 \<le> v_step v \<longrightarrow> 4 \<le> st) \<and> (6 \<le> v_step v \<longrightarrow> 6 \<le> st) \<Longrightarrow>
    voter_step pol prec v [] (v\<lparr>v_round := r, v_step := st\<rparr>)"
| unlock: "v_lock v = Some (lr, h) \<Longrightarrow> (v_height v, r, x) \<in> v_polka v \<Longrightarrow> lr < r \<Longrightarrow>
    r \<le> v_round v \<Longrightarrow> x \<noteq> h \<Longrightarrow> voter_step pol prec v [] (v\<lparr>v_lock := None\<rparr>)"
| prevote: "v_round v \<le> r \<Longrightarrow> r = v_round v \<longrightarrow> v_step v < 4 \<Longrightarrow>
    \<forall>lr h. v_lock v = Some (lr, h) \<longrightarrow> h = x \<Longrightarrow> cs \<in> {[], [(1, v_height v, r, x)]} \<Longrightarrow>
    voter_step pol prec v cs (v\<lparr>v_round := r, v_step := 4, v_cast := v_cast v @ cs\<rparr>)"
| precommit_nil: "v_round v \<le> r \<Longrightarrow> r = v_round v \<longrightarrow> v_step v < 6 \<Longrightarrow>
    cs \<in> {[], [(2, v_height v, r, 0)]} \<Longrightarrow>
    voter_step pol prec v cs (v\<lparr>v_round := r, v_step := 6, v_cast := v_cast v @ cs\<rparr>)"
| precommit_unlock: "v_round v \<le> r \<Longrightarrow> r = v_round v \<longrightarrow> v_step v < 6 \<Longrightarrow>
    (v_height v, r, x) \<in> v_polka v \<Longrightarrow> \<forall>lr h. v_lock v = Some (lr, h) \<longrightarrow> h \<noteq> x \<Longrightarrow>
    cs \<in> {[], [(2, v_height v, r, 0)]} \<Longrightarrow>
    voter_step pol prec v cs
      (v\<lparr>v_lock := None, v_round := r, v_step := 6, v_cast := v_cast v @ cs\<rparr>)"
| precommit_lock: "v_round v \<le> r \<Longrightarrow> r = v_round v \<longrightarrow> v_step v < 6 \<Longrightarrow>
    (v_height v, r, x) \<in> v_polka v \<Longrightarrow> x \<noteq> 0 \<Longrightarrow> cs \<in> {[], [(2, v_height v, r, x)]} \<Longrightarrow>
    voter_step pol prec v cs
      (v\<lparr>v_lock := Some (r, x), v_round := r, v_step := 6, v_cast := v_cast v @ cs\<rparr>)"
| decide: "(v_height v, r, x) \<in> v_majority v \<Longrightarrow> x \<noteq> 0 \<Longrightarrow>
    voter_step pol prec v [] (v\<lparr>v_decided := v_decided v @ [(v_height v, x)]\<rparr>)"
| new_height: "v_height v < n \<Longrightarrow>
    voter_step pol prec v [] (v\<lparr>v_height := n, v_round := 0, v_step := 1, v_lock := None\<rparr>)"

definition voter_init :: "voter \<Rightarrow> bool" where
  "voter_init v \<longleftrightarrow>
     v_lock v = None \<and> v_polka v = {} \<and> v_majority v = {} \<and> v_cast v = [] \<and> v_decided v = []"

section \<open>What a voter keeps\<close>

text \<open>Its ballots are for this height or earlier ones, for this round or earlier ones.\<close>

fun ballot_bound :: "int \<Rightarrow> int \<Rightarrow> nat \<Rightarrow> ballot \<Rightarrow> bool" where
  "ballot_bound height round step (k, n, r, x) \<longleftrightarrow>
     n \<le> height \<and>
     (n = height \<longrightarrow> r \<le> round \<and>
        (r = round \<longrightarrow> (k = 1 \<longrightarrow> 4 \<le> step) \<and> (k = 2 \<longrightarrow> 6 \<le> step)))"

definition cast_bound :: "voter \<Rightarrow> bool" where
  "cast_bound v \<longleftrightarrow> (\<forall>b \<in> set (v_cast v). ballot_bound (v_height v) (v_round v) (v_step v) b)"

text \<open>
  A block it has precommitted is still the one it is locked on, unless a later polka for something
  else released it.
\<close>

definition held :: "voter \<Rightarrow> int \<Rightarrow> hash \<Rightarrow> bool" where
  "held v r x \<longleftrightarrow> (\<exists>lr. v_lock v = Some (lr, x) \<and> r \<le> lr)"

definition released :: "voter \<Rightarrow> int \<Rightarrow> hash \<Rightarrow> bool" where
  "released v r x \<longleftrightarrow>
     (\<exists>r' y. r < r' \<and> r' \<le> v_round v \<and> y \<noteq> x \<and> (v_height v, r', y) \<in> v_polka v)"

definition lock_inv :: "voter \<Rightarrow> bool" where
  "lock_inv v \<longleftrightarrow>
     (\<forall>r x. (2, v_height v, r, x) \<in> set (v_cast v) \<and> x \<noteq> 0 \<longrightarrow> held v r x \<or> released v r x)"

definition voter_ok :: "voter \<Rightarrow> bool" where
  "voter_ok v \<longleftrightarrow> cast_bound v \<and> lock_inv v"

lemma cast_boundD:
  assumes "cast_bound v" "(k, v_height v, r, x) \<in> set (v_cast v)"
  shows "r \<le> v_round v" and "k = 1 \<Longrightarrow> r = v_round v \<Longrightarrow> 4 \<le> v_step v"
    and "k = 2 \<Longrightarrow> r = v_round v \<Longrightarrow> 6 \<le> v_step v"
  using assms unfolding cast_bound_def by fastforce+

lemma ballot_bound_mono:
  assumes "ballot_bound n r st b" "r \<le> r'"
    and "r' = r \<Longrightarrow> (4 \<le> st \<longrightarrow> 4 \<le> st') \<and> (6 \<le> st \<longrightarrow> 6 \<le> st')"
  shows "ballot_bound n r' st' b"
  using assms by (cases b) auto

lemma ballot_bound_height: "ballot_bound n r st b \<Longrightarrow> n < n' \<Longrightarrow> ballot_bound n' r' st' b"
  by (cases b) auto

lemma cast_bound_step: "voter_step pol prec v cs v' \<Longrightarrow> cast_bound v \<Longrightarrow> cast_bound v'"
  by (induction rule: voter_step.induct)
    (auto simp: cast_bound_def intro: ballot_bound_mono ballot_bound_height)

lemma precommit_round_less:
  assumes "cast_bound v" "v_round v \<le> r" "r = v_round v \<longrightarrow> v_step v < 6"
    and "(2, v_height v, r', x) \<in> set (v_cast v)"
  shows "r' < r"
  using cast_boundD(1,3) [OF assms(1,4)] assms(2,3) by fastforce

lemma releasedI:
  "r < r' \<Longrightarrow> r' \<le> v_round v \<Longrightarrow> y \<noteq> x \<Longrightarrow> (v_height v, r', y) \<in> v_polka v \<Longrightarrow> released v r x"
  unfolding released_def by blast

lemma released_mono:
  assumes "released v r x" "v_height v' = v_height v" "v_round v \<le> v_round v'"
    and "v_polka v \<subseteq> v_polka v'"
  shows "released v' r x"
proof -
  obtain r' y where "r < r'" "r' \<le> v_round v" "y \<noteq> x" "(v_height v, r', y) \<in> v_polka v"
    using assms(1) unfolding released_def by blast
  then show ?thesis
    using assms(2-4) by (intro releasedI [of r r']) auto
qed

lemma lock_inv_frame:
  assumes "lock_inv v" "v_height v' = v_height v" "v_lock v' = v_lock v"
    and "v_round v \<le> v_round v'" "v_polka v \<subseteq> v_polka v'"
    and "\<And>r x. (2, v_height v, r, x) \<in> set (v_cast v') \<Longrightarrow> x \<noteq> 0 \<Longrightarrow>
           (2, v_height v, r, x) \<in> set (v_cast v)"
  shows "lock_inv v'"
  unfolding lock_inv_def
proof (intro allI impI, elim conjE)
  fix r x assume "(2, v_height v', r, x) \<in> set (v_cast v')" "x \<noteq> 0"
  then have "held v r x \<or> released v r x"
    using assms(1,2) assms(6) [of r x] unfolding lock_inv_def by simp
  then show "held v' r x \<or> released v' r x"
    using released_mono [OF _ assms(2,4,5)] assms(3) by (auto simp: held_def)
qed

lemma lock_inv_step:
  assumes "voter_step pol prec v cs v'" "cast_bound v" "lock_inv v"
  shows "lock_inv v'"
  using assms
proof (induction rule: voter_step.induct)
  case (unlock v lr h r x)
  have "released (v\<lparr>v_lock := None\<rparr>) r0 y" if "held v r0 y \<or> released v r0 y" for r0 y
    using that unlock(1-5)
    by (auto simp: held_def intro: releasedI [where r' = r and y = x] released_mono)
  then show ?case
    using unlock(7) by (simp add: lock_inv_def)
next
  case (precommit_unlock v r x cs)
  let ?v = "v\<lparr>v_lock := None, v_round := r, v_step := 6, v_cast := v_cast v @ cs\<rparr>"
  have "released ?v r0 y" if "(2, v_height v, r0, y) \<in> set (v_cast v)" "y \<noteq> 0" for r0 y
  proof -
    have "held v r0 y \<or> released v r0 y"
      using that precommit_unlock(7) by (simp add: lock_inv_def)
    then show ?thesis
      using precommit_unlock(1,3,4) precommit_round_less [OF precommit_unlock(6,1,2) that(1)]
      by (auto simp: held_def intro: releasedI [where r' = r and y = x] released_mono)
  qed
  then show ?case
    using precommit_unlock(5) by (auto simp: lock_inv_def)
next
  case (precommit_lock v r x cs)
  let ?v = "v\<lparr>v_lock := Some (r, x), v_round := r, v_step := 6, v_cast := v_cast v @ cs\<rparr>"
  have "held ?v r0 y \<or> released ?v r0 y" if "(2, v_height v, r0, y) \<in> set (v_cast v)" for r0 y
    using precommit_lock(3) precommit_round_less [OF precommit_lock(6,1,2) that]
    by (cases "y = x") (auto simp: held_def intro: releasedI [where r' = r and y = x])
  then show ?case
    using precommit_lock(5) by (auto simp: lock_inv_def held_def)
next
  case (new_height v n)
  then show ?case
    by (auto simp: lock_inv_def cast_bound_def)
qed (erule lock_inv_frame; auto)+

lemma voter_ok_step: "voter_step pol prec v cs v' \<Longrightarrow> voter_ok v \<Longrightarrow> voter_ok v'"
  using cast_bound_step lock_inv_step unfolding voter_ok_def by blast


section \<open>Many voters\<close>

text \<open>
  The log holds the ballots of the correct voters, the newest first.  Votes count as support for a
  majority when every correct member of some quorum has them in the log; faulty
  voters may have voted anything.
\<close>

type_synonym 'p log = "('p \<times> ballot) list"

definition support ::
    "(int \<Rightarrow> 'p set \<Rightarrow> bool) \<Rightarrow> 'p set \<Rightarrow> nat \<Rightarrow> 'p log \<Rightarrow> int \<Rightarrow> int \<Rightarrow> hash \<Rightarrow> bool" where
  "support quorum Byz k L n r x \<longleftrightarrow>
     (\<exists>S. quorum n S \<and> (\<forall>q \<in> S - Byz. (q, k, n, r, x) \<in> set L))"

inductive voting_reach ::
    "(int \<Rightarrow> 'p set \<Rightarrow> bool) \<Rightarrow> 'p set \<Rightarrow> ('p \<Rightarrow> voter) \<Rightarrow> 'p log \<Rightarrow> bool"
  for quorum Byz where
  init: "\<forall>p. voter_init (vs p) \<Longrightarrow> voting_reach quorum Byz vs []"
| step: "voting_reach quorum Byz vs L \<Longrightarrow> p \<notin> Byz \<Longrightarrow>
    voter_step (support quorum Byz 1 L) (support quorum Byz 2 L) (vs p) cs v' \<Longrightarrow>
    voting_reach quorum Byz (vs(p := v')) (map (Pair p) (rev cs) @ L)"

text \<open>What every ballot of a correct voter has behind it when it is cast.\<close>

definition ballot_ok ::
    "(int \<Rightarrow> 'p set \<Rightarrow> bool) \<Rightarrow> 'p set \<Rightarrow> 'p \<Rightarrow> nat \<Rightarrow> int \<Rightarrow> int \<Rightarrow> hash \<Rightarrow> 'p log \<Rightarrow> bool" where
  "ballot_ok quorum Byz p k n r x L \<longleftrightarrow>
     (\<forall>k' r' x'. (p, k', n, r', x') \<in> set L \<longrightarrow> r' \<le> r \<and> (k' = k \<and> k \<in> {1, 2} \<longrightarrow> r' < r)) \<and>
     (k = 2 \<and> x \<noteq> 0 \<longrightarrow> support quorum Byz 1 L n r x) \<and>
     (\<forall>r' x'. k = 1 \<and> (p, 2, n, r', x') \<in> set L \<and> x' \<noteq> 0 \<and> r' < r \<and> x \<noteq> x' \<longrightarrow>
        (\<exists>r'' y. r' < r'' \<and> r'' \<le> r \<and> y \<noteq> x' \<and> support quorum Byz 1 L n r'' y))"

fun good_log :: "(int \<Rightarrow> 'p set \<Rightarrow> bool) \<Rightarrow> 'p set \<Rightarrow> 'p log \<Rightarrow> bool" where
  "good_log quorum Byz [] \<longleftrightarrow> True"
| "good_log quorum Byz ((p, k, n, r, x) # L) \<longleftrightarrow>
     (p \<notin> Byz \<longrightarrow> ballot_ok quorum Byz p k n r x L) \<and> good_log quorum Byz L"

lemma support_mono: "support quorum Byz k L n r x \<Longrightarrow> set L \<subseteq> set L' \<Longrightarrow> support quorum Byz k L' n r x"
  unfolding support_def by blast

text \<open>A ballot that the discipline allows is a good one.\<close>

lemma prevote_ballot_ok:
  assumes "voter_ok v" "\<And>b. (p, b) \<in> set L \<longleftrightarrow> b \<in> set (v_cast v)"
    and "\<And>n r x. (n, r, x) \<in> v_polka v \<Longrightarrow> support quorum Byz 1 L n r x"
    and "v_round v \<le> r" "r = v_round v \<longrightarrow> v_step v < 4"
    and lock: "\<forall>lr h. v_lock v = Some (lr, h) \<longrightarrow> h = x"
  shows "ballot_ok quorum Byz p 1 (v_height v) r x L"
proof -
  have bound: "cast_bound v" and inv: "lock_inv v"
    using assms(1) by (simp_all add: voter_ok_def)
  have "\<exists>r'' y. r' < r'' \<and> r'' \<le> r \<and> y \<noteq> x' \<and> support quorum Byz 1 L (v_height v) r'' y"
    if cast: "(2, v_height v, r', x') \<in> set (v_cast v)" and "x' \<noteq> 0" "x \<noteq> x'" for r' x'
  proof -
    have "held v r' x' \<or> released v r' x'"
      using inv that unfolding lock_inv_def by blast
    then have "released v r' x'"
      using lock \<open>x \<noteq> x'\<close> by (auto simp: held_def)
    then show ?thesis
      using assms(3,4) unfolding released_def by (meson order_trans)
  qed
  then show ?thesis
    using cast_boundD(1,2) [OF bound] assms(2,4,5)
    by (fastforce simp: ballot_ok_def)
qed

lemma precommit_ballot_ok:
  assumes "voter_ok v" "\<And>b. (p, b) \<in> set L \<longleftrightarrow> b \<in> set (v_cast v)"
    and "v_round v \<le> r" "r = v_round v \<longrightarrow> v_step v < 6"
    and "x \<noteq> 0 \<Longrightarrow> support quorum Byz 1 L (v_height v) r x"
  shows "ballot_ok quorum Byz p 2 (v_height v) r x L"
proof -
  have bound: "cast_bound v"
    using assms(1) by (simp add: voter_ok_def)
  show ?thesis
    using cast_boundD(1) [OF bound] precommit_round_less [OF bound assms(3,4)] assms(2,3,5)
    by (fastforce simp: ballot_ok_def)
qed

lemma voter_step_ballots:
  assumes "voter_step (support quorum Byz 1 L) (support quorum Byz 2 L) v cs v'"
    and "voter_ok v" "\<And>b. (p, b) \<in> set L \<longleftrightarrow> b \<in> set (v_cast v)"
    and "\<And>n r x. (n, r, x) \<in> v_polka v \<Longrightarrow> support quorum Byz 1 L n r x"
    and "good_log quorum Byz L"
  shows "good_log quorum Byz (map (Pair p) (rev cs) @ L) \<and> v_cast v' = v_cast v @ cs"
  using assms
proof (induction rule: voter_step.induct)
  case (prevote v r x cs)
  then show ?case
    using prevote_ballot_ok [OF prevote(5,6,7,1,2,3)] by auto
next
  case (precommit_nil v r cs)
  then show ?case
    using precommit_ballot_ok [OF precommit_nil(4,5,1,2), of 0] by auto
next
  case (precommit_unlock v r x cs)
  then show ?case
    using precommit_ballot_ok [OF precommit_unlock(6,7,1,2), of 0] by auto
next
  case (precommit_lock v r x cs)
  then show ?case
    using precommit_ballot_ok [OF precommit_lock(6,7,1,2), of x] precommit_lock(8) [OF precommit_lock(3)]
    by auto
qed simp_all


text \<open>What a voter knows about the others is true of the log.\<close>

definition knows :: "(int \<Rightarrow> int \<Rightarrow> hash \<Rightarrow> bool) \<Rightarrow> (int \<Rightarrow> int \<Rightarrow> hash \<Rightarrow> bool) \<Rightarrow> voter \<Rightarrow> bool" where
  "knows pol prec v \<longleftrightarrow>
     (\<forall>n r x. (n, r, x) \<in> v_polka v \<longrightarrow> pol n r x) \<and>
     (\<forall>n r x. (n, r, x) \<in> v_majority v \<longrightarrow> prec n r x) \<and>
     (\<forall>n x. (n, x) \<in> set (v_decided v) \<longrightarrow> x \<noteq> 0 \<and> (\<exists>r. prec n r x))"

lemma voter_step_knows: "voter_step pol prec v cs v' \<Longrightarrow> knows pol prec v \<Longrightarrow> knows pol prec v'"
  by (induction rule: voter_step.induct) (auto simp: knows_def; blast)+

lemma knows_mono:
  assumes "knows (support quorum Byz 1 L) (support quorum Byz 2 L) v" "set L \<subseteq> set L'"
  shows "knows (support quorum Byz 1 L') (support quorum Byz 2 L') v"
  using assms support_mono [of quorum Byz _ L _ _ _ L'] unfolding knows_def by blast

definition voting_inv :: "(int \<Rightarrow> 'p set \<Rightarrow> bool) \<Rightarrow> 'p set \<Rightarrow> ('p \<Rightarrow> voter) \<Rightarrow> 'p log \<Rightarrow> bool" where
  "voting_inv quorum Byz vs L \<longleftrightarrow>
     good_log quorum Byz L \<and>
     (\<forall>p. p \<notin> Byz \<longrightarrow>
        voter_ok (vs p) \<and> knows (support quorum Byz 1 L) (support quorum Byz 2 L) (vs p) \<and>
        (\<forall>b. (p, b) \<in> set L \<longleftrightarrow> b \<in> set (v_cast (vs p))))"

lemma voting_reach_inv: "voting_reach quorum Byz vs L \<Longrightarrow> voting_inv quorum Byz vs L"
proof (induction rule: voting_reach.induct)
  case (init vs)
  then show ?case
    by (simp add: voting_inv_def voter_init_def voter_ok_def cast_bound_def lock_inv_def knows_def)
next
  case (step vs L p cs v')
  let ?L = "map (Pair p) (rev cs) @ L"
  have p: "voter_ok (vs p)" "knows (support quorum Byz 1 L) (support quorum Byz 2 L) (vs p)"
      "\<And>b. (p, b) \<in> set L \<longleftrightarrow> b \<in> set (v_cast (vs p))" "good_log quorum Byz L"
    using step.IH step.hyps(2) by (auto simp: voting_inv_def)
  have new: "good_log quorum Byz ?L" "v_cast v' = v_cast (vs p) @ cs"
    using voter_step_ballots [OF step.hyps(3) p(1,3) _ p(4)] p(2) by (auto simp: knows_def)
  have v': "voter_ok v'" "knows (support quorum Byz 1 ?L) (support quorum Byz 2 ?L) v'"
    using voter_ok_step [OF step.hyps(3) p(1)] voter_step_knows [OF step.hyps(3) p(2)]
      knows_mono [of quorum Byz L v' ?L] by auto
  show ?case
    using step.IH new v' p(3) knows_mono [of quorum Byz L _ ?L]
    by (auto simp: voting_inv_def)
qed

lemma voting_inv_decided:
  assumes "voting_inv quorum Byz vs L" "p \<notin> Byz" "(n, x) \<in> set (v_decided (vs p))"
  shows "x \<noteq> 0 \<and> (\<exists>r. support quorum Byz 2 L n r x)"
  using assms by (auto simp: voting_inv_def knows_def)

section \<open>Agreement\<close>

lemma good_log_append:
  "good_log quorum Byz (K @ (p, k, n, r, x) # L) \<Longrightarrow>
     good_log quorum Byz L \<and> (p \<notin> Byz \<longrightarrow> ballot_ok quorum Byz p k n r x L)"
  by (induction K rule: list.induct) auto

lemma good_log_order:
  assumes "good_log quorum Byz (K @ L)" "(p, k, n, r, x) \<in> set K" "p \<notin> Byz"
    and "(p, k', n, r', y) \<in> set L"
  shows "r' \<le> r"
proof -
  obtain K1 K2 where "K = K1 @ (p, k, n, r, x) # K2"
    using assms(2) by (meson split_list)
  then have "ballot_ok quorum Byz p k n r x (K2 @ L)"
    using good_log_append [of quorum Byz K1 p k n r x "K2 @ L"] assms(1,3) by simp
  then show ?thesis
    using assms(4) unfolding ballot_ok_def by auto
qed

lemma good_log_unique:
  assumes "good_log quorum Byz L" "(p, k, n, r, x) \<in> set L" "(p, k, n, r, y) \<in> set L"
    and "p \<notin> Byz" "k \<in> {1, 2}"
  shows "x = y"
  using assms
proof (induction L)
  case (Cons b L)
  then show ?case
    by (cases b) (auto simp: ballot_ok_def)
qed simp

lemma good_log_precommit:
  assumes "good_log quorum Byz L" "(p, 2, n, r, x) \<in> set L" "p \<notin> Byz" "x \<noteq> 0"
  obtains L' where "good_log quorum Byz L'" "support quorum Byz 1 L' n r x" "set L' \<subseteq> set L"
proof -
  obtain K L' where "L = K @ (p, 2, n, r, x) # L'"
    using assms(2) by (meson split_list)
  then show thesis
    using that [of L'] good_log_append [of quorum Byz K p 2 n r x L'] assms
    by (auto simp: ballot_ok_def)
qed

text \<open>Two quorums of a height share a correct voter.\<close>

locale voting =
  fixes quorum :: "int \<Rightarrow> 'p set \<Rightarrow> bool" and Byz :: "'p set"
  assumes quorums_meet: "quorum n A \<Longrightarrow> quorum n B \<Longrightarrow> \<exists>q \<in> A \<inter> B. q \<notin> Byz"
begin

text \<open>
  Once a quorum has precommitted a block, no correct member of it prevotes anything else in a
  later round: the oldest such prevote would rest on an older one.
\<close>

lemma no_conflicting_prevote:
  assumes "good_log quorum Byz (K @ L)" "quorum n Q" "x \<noteq> 0"
    and pre: "\<And>q. q \<in> Q \<Longrightarrow> q \<notin> Byz \<Longrightarrow> (q, 2, n, r, x) \<in> set (K @ L)"
    and "q \<in> Q" "q \<notin> Byz" "(q, 1, n, r', y) \<in> set L" "r < r'"
  shows "y = x"
  using assms
proof (induction L arbitrary: K q r' y)
  case Nil
  then show ?case by simp
next
  case (Cons b L)
  show ?case
  proof (cases "(q, 1, n, r', y) \<in> set L")
    case True
    then show ?thesis
      using Cons.IH [of "K @ [b]" q r' y] Cons.prems by simp
  next
    case False
    then have b: "b = (q, 1, n, r', y)" using Cons.prems(7) by auto
    have good: "good_log quorum Byz L" and ok: "ballot_ok quorum Byz q 1 n r' y L"
      using good_log_append [OF Cons.prems(1) [unfolded b]] Cons.prems(6) by auto
    have "(q, 2, n, r, x) \<notin> set K"
      using good_log_order [OF Cons.prems(1), of q 2 n r x 1 r' y] b Cons.prems(6,8) by auto
    then have cast: "(q, 2, n, r, x) \<in> set L"
      using Cons.prems(4) [OF Cons.prems(5,6)] b by auto
    show ?thesis
    proof (rule ccontr)
      assume "y \<noteq> x"
      then obtain r'' z where z: "r < r''" "z \<noteq> x" "support quorum Byz 1 L n r'' z"
        using ok cast Cons.prems(3,8) unfolding ballot_ok_def by blast
      then obtain S where S: "quorum n S" "\<forall>q \<in> S - Byz. (q, 1, n, r'', z) \<in> set L"
        unfolding support_def by blast
      then obtain q' where "q' \<in> Q" "q' \<notin> Byz" "(q', 1, n, r'', z) \<in> set L"
        using quorums_meet [OF Cons.prems(2) S(1)] by blast
      then show False
        using Cons.IH [of "K @ [b]" q' r'' z] Cons.prems(1-4) z(1,2) by simp
    qed
  qed
qed

lemma agreement_log:
  assumes "good_log quorum Byz L" "support quorum Byz 2 L n r x" "support quorum Byz 2 L n r' y"
    and "x \<noteq> 0" "y \<noteq> 0" "r \<le> r'"
  shows "x = y"
proof -
  obtain Q where Q: "quorum n Q" "\<forall>q \<in> Q - Byz. (q, 2, n, r, x) \<in> set L"
    using assms(2) unfolding support_def by blast
  obtain Q' where Q': "quorum n Q'" "\<forall>q \<in> Q' - Byz. (q, 2, n, r', y) \<in> set L"
    using assms(3) unfolding support_def by blast
  obtain q where q: "q \<in> Q" "q \<in> Q'" "q \<notin> Byz"
    using quorums_meet [OF Q(1) Q'(1)] by blast
  show ?thesis
  proof (cases "r = r'")
    case True
    then show ?thesis
      using good_log_unique [OF assms(1), of q 2 n r x y] q Q Q' by auto
  next
    case False
    obtain L' where L': "good_log quorum Byz L'" "support quorum Byz 1 L' n r' y" "set L' \<subseteq> set L"
      using good_log_precommit [OF assms(1), of q n r' y] q Q' assms(5) by auto
    then obtain S where S: "quorum n S" "\<forall>q \<in> S - Byz. (q, 1, n, r', y) \<in> set L"
      unfolding support_def by blast
    then obtain s where "s \<in> Q" "s \<notin> Byz" "(s, 1, n, r', y) \<in> set L"
      using quorums_meet [OF Q(1) S(1)] by blast
    then show ?thesis
      using no_conflicting_prevote [of "[]" L n Q x r s r' y] assms(1,4,6) Q False by simp
  qed
qed

lemma decisions_agree:
  assumes "voting_reach quorum Byz vs L" "p \<notin> Byz" "q \<notin> Byz"
    and "(n, x) \<in> set (v_decided (vs p))" "(n, y) \<in> set (v_decided (vs q))"
  shows "x = y"
proof -
  have inv: "voting_inv quorum Byz vs L"
    using assms(1) by (rule voting_reach_inv)
  then obtain r r' where "support quorum Byz 2 L n r x" "x \<noteq> 0" "support quorum Byz 2 L n r' y" "y \<noteq> 0"
    using voting_inv_decided [OF inv] assms(2-5) by blast
  then show ?thesis
    using agreement_log [of L n r x r' y] agreement_log [of L n r' y r x] inv
    by (cases "r \<le> r'") (auto simp: voting_inv_def)
qed

end


section \<open>Quorums of a validator set\<close>

text \<open>
  \<open>V n\<close> is the validator set of height \<open>n\<close>; a quorum is a set of \<open>MinMajority\<close> of its
  validators, of which at most \<open>F\<close> are faulty.
\<close>

definition is_quorum :: "(int \<Rightarrow> defaultSet) \<Rightarrow> address set \<Rightarrow> int \<Rightarrow> address set \<Rightarrow> bool" where
  "is_quorum V Byz n S \<longleftrightarrow>
     valset_ok (V n) \<and> int (card (Byz \<inter> set (validators (V n)))) \<le> valF (V n) \<and>
     S \<subseteq> set (validators (V n)) \<and> MinMajority (V n) \<le> int (card S)"

interpretation vt: voting "is_quorum V Byz" Byz for V Byz
proof
  fix n A B assume A: "is_quorum V Byz n A" and B: "is_quorum V Byz n B"
  let ?Z = "Byz \<inter> set (validators (V n))"
  obtain q where "q \<in> A" "q \<in> B" "q \<notin> ?Z"
    using vq.majorities_share_correct [of "V n" A B ?Z] A B by (auto simp: is_quorum_def)
  then show "\<exists>q \<in> A \<inter> B. q \<notin> Byz"
    using A by (auto simp: is_quorum_def)
qed

end
