(* ===== verification/Core_Refinement.thy ===== *)
theory Core_Refinement
  imports Core Voting
begin

text \<open>
  The state machine of a node (\<open>Core\<close>) refines the voting discipline (\<open>Voting\<close>): whatever
  handler runs, the ballots it broadcasts, the locks it takes and the blocks it commits are those
  of a sequence of \<open>voter_step\<close>s, and what it counts as a two-thirds majority is backed by
  ballots in the log of the correct nodes.  The statement for a handler is \<open>keeps\<close>.
\<close>

section \<open>Ballots and decisions of a node\<close>

fun ballot_of :: "effect \<Rightarrow> ballot list" where
  "ballot_of (Broadcast n r code (Payload_Message (Message k (Body_Vote h m r' seal) a sig))) =
     (if k = msgPrevote \<or> k = msgPrecommit then [(k, m, r', h)] else [])"
| "ballot_of _ = []"

definition ballots :: "effect list \<Rightarrow> ballot list" where
  "ballots xs = concat (map ballot_of xs)"

lemma ballots_simps [simp]:
  "ballots [] = []" "ballots (x # xs) = ballot_of x @ ballots xs" "ballots (xs @ ys) = ballots xs @ ballots ys"
  by (simp_all add: ballots_def)

text \<open>A committed block is a proposed one with the committed seals written into its header.\<close>

definition sealed_from :: "(byte list \<Rightarrow> hash) \<Rightarrow> hash \<Rightarrow> block \<Rightarrow> bool" where
  "sealed_from kec x b \<longleftrightarrow>
     (\<exists>b0 seals hdr. Block_Hash kec b0 = x \<and> MixDigest (block_header b0) = TendermintDigest \<and>
        WriteCommittedSeals (Block_Header b0) seals = Inr hdr \<and> b = WithSeal b0 hdr)"

definition commits_decided :: "(byte list \<Rightarrow> hash) \<Rightarrow> effect list \<Rightarrow> voter \<Rightarrow> bool" where
  "commits_decided kec xs v \<longleftrightarrow>
     (\<forall>b. Commit b \<in> set xs \<longrightarrow>
        (\<exists>x. (Block_Number b, x) \<in> set (v_decided v) \<and> sealed_from kec x b))"

section \<open>The world of a node\<close>

text \<open>
  What all correct nodes share: the validator sets by height, the hash function and signature
  recovery, and which validators are faulty.
\<close>

record world =
  w_valset :: "int \<Rightarrow> defaultSet"
  w_faulty :: "address set"
  w_kec :: "byte list \<Rightarrow> hash"
  w_recover :: "signed_data \<Rightarrow> byte list \<Rightarrow> address option"

definition world_ok :: "world \<Rightarrow> bool" where
  "world_ok w \<longleftrightarrow>
     (\<forall>n. valset_ok (w_valset w n) \<and>
          int (card (w_faulty w \<inter> set (validators (w_valset w n)))) \<le> valF (w_valset w n))"

text \<open>
  The environment of a node at some event: the shared functions, a header check that insists on
  the digest of the engine, and a priority queue that holds what is put into it.
\<close>

definition env_in :: "world \<Rightarrow> env \<Rightarrow> bool" where
  "env_in w e \<longleftrightarrow>
     e_kec e = w_kec w \<and> e_recover e = w_recover w \<and> e_Validators e = w_valset w \<and>
     (\<forall>h. e_VerifyProposalHeader e h \<in> {None, Some ErrEmptyCommittedSeals} \<longrightarrow>
          MixDigest h = TendermintDigest) \<and>
     (\<forall>x q. set (e_put e x q) = insert x (set q))"

abbreviation wsupport :: "world \<Rightarrow> nat \<Rightarrow> address log \<Rightarrow> int \<Rightarrow> int \<Rightarrow> hash \<Rightarrow> bool" where
  "wsupport w \<equiv> support (is_quorum (w_valset w) (w_faulty w)) (w_faulty w)"

definition vstep :: "world \<Rightarrow> address log \<Rightarrow> voter \<Rightarrow> voter \<Rightarrow> bool" where
  "vstep w L v v' \<longleftrightarrow> (\<exists>cs. voter_step (wsupport w 1 L) (wsupport w 2 L) v cs v')"

section \<open>Authentic messages\<close>

fun msg_subs :: "message \<Rightarrow> message set" and body_subs :: "body \<Rightarrow> message set"
  and payload_subs :: "payload \<Rightarrow> message set" where
  "msg_subs (Message k b a sig) = insert (Message k b a sig) (body_subs b)"
| "body_subs (Body_CatchUpReply n ps) = (\<Union>p \<in> set ps. payload_subs p)"
| "body_subs (Body_Proposal b r pol) = {}"
| "body_subs (Body_Vote h n r seal) = {}"
| "body_subs (Body_CatchUpRequest n r st) = {}"
| "body_subs (Body_Other bs) = {}"
| "payload_subs (Payload_Message m) = msg_subs m"
| "payload_subs Payload_Empty = {}"
| "payload_subs (Payload_Other bs) = {}"

text \<open>
  Signatures cannot be forged: a vote that carries the signature of a correct node was
  broadcast by it.
\<close>

definition authentic :: "world \<Rightarrow> address log \<Rightarrow> message \<Rightarrow> bool" where
  "authentic w L m \<longleftrightarrow>
     (\<forall>m' \<in> msg_subs m. \<forall>vote.
        GetAddressFromSignature (w_recover w) m' = Some (Address m') \<and>
        Address m' \<notin> w_faulty w \<and> Code m' \<in> {msgPrevote, msgPrecommit} \<and>
        DecodeVote (Msg m') = Some vote \<longrightarrow>
        (Address m', Code m', vBlockNumber vote, vRound vote, vBlockHash vote) \<in> set L)"

section \<open>The invariant\<close>

definition votes_wf :: "world \<Rightarrow> address log \<Rightarrow> int \<Rightarrow> nat \<Rightarrow> (int \<rightharpoonup> messageSet) \<Rightarrow> bool" where
  "votes_wf w L n k M \<longleftrightarrow>
     (\<forall>r ms. M r = Some ms \<longrightarrow>
        ms_ok ms \<and> ms_view ms = \<lparr>BlockNumber = n, Round = r\<rparr> \<and> msgCode ms = k \<and>
        validators (ms_valSet ms) = validators (w_valset w n) \<and>
        (\<forall>a vote. voteByAddress ms a = Some vote \<and> a \<notin> w_faulty w \<longrightarrow>
           (a, k, n, r, vBlockHash vote) \<in> set L))"

definition blk_ok :: "int \<Rightarrow> block \<Rightarrow> bool" where
  "blk_ok n b \<longleftrightarrow> Block_Number b = n \<and> MixDigest (block_header b) = TendermintDigest"

definition state_wf :: "world \<Rightarrow> address log \<Rightarrow> roundState \<Rightarrow> bool" where
  "state_wf w L s \<longleftrightarrow>
     0 \<le> sRound s \<and>
     votes_wf w L (sBlockNumber s) msgPrevote (PrevotesReceived s) \<and>
     votes_wf w L (sBlockNumber s) msgPrecommit (PrecommitsReceived s) \<and>
     (lockedRound s = -1 \<longleftrightarrow> lockedBlock s = None) \<and>
     (\<forall>b. lockedBlock s = Some b \<longrightarrow>
        blk_ok (sBlockNumber s) b \<and> Block_Hash (w_kec w) b \<noteq> 0) \<and>
     (\<forall>p. proposalReceived s = Some p \<longrightarrow> blk_ok (sBlockNumber s) (pBlock p))"

definition core_wf :: "world \<Rightarrow> address log \<Rightarrow> core \<Rightarrow> bool" where
  "core_wf w L c \<longleftrightarrow>
     validators (valSet c) = validators (w_valset w (sBlockNumber (currentState c))) \<and>
     state_wf w L (currentState c) \<and>
     (\<forall>it \<in> set (futureMessages c). authentic w L (item_message it)) \<and>
     (\<forall>r m. futureProposals c r = Some m \<longrightarrow> authentic w L m)"

definition abs_lock :: "(byte list \<Rightarrow> hash) \<Rightarrow> roundState \<Rightarrow> (int \<times> hash) option" where
  "abs_lock kec s = map_option (\<lambda>b. (lockedRound s, Block_Hash kec b)) (lockedBlock s)"

definition majorities :: "int \<Rightarrow> (int \<rightharpoonup> messageSet) \<Rightarrow> (int \<times> int \<times> hash) set" where
  "majorities n M = {(n, r, x) | r x. \<exists>ms. M r = Some ms \<and> maj23 ms = Some x}"

definition rel :: "(byte list \<Rightarrow> hash) \<Rightarrow> core \<Rightarrow> voter \<Rightarrow> bool" where
  "rel kec c v \<longleftrightarrow>
     (let s = currentState c
      in v_height v = sBlockNumber s \<and> v_round v = sRound s \<and> v_step v = rs_step s \<and>
         v_lock v = abs_lock kec s \<and> v_cast v = ballots (outs c) \<and>
         majorities (sBlockNumber s) (PrevotesReceived s) \<subseteq> v_polka v \<and>
         majorities (sBlockNumber s) (PrecommitsReceived s) \<subseteq> v_majority v \<and>
         commits_decided kec (outs c) v)"

text \<open>
  Starting from the voter \<open>v\<close> when the event arrived, the node is in a well-formed state that some
  steps of the discipline lead to; after a panic only what it sent matters.
\<close>

definition good :: "world \<Rightarrow> address log \<Rightarrow> voter \<Rightarrow> core \<Rightarrow> bool" where
  "good w L v c \<longleftrightarrow> core_wf w L c \<and> (\<exists>v'. (vstep w L)\<^sup>*\<^sup>* v v' \<and> rel (w_kec w) c v')"

definition crashed :: "world \<Rightarrow> address log \<Rightarrow> voter \<Rightarrow> core \<Rightarrow> bool" where
  "crashed w L v c \<longleftrightarrow>
     (\<exists>v'. (vstep w L)\<^sup>*\<^sup>* v v' \<and> v_cast v' = ballots (outs c) \<and> commits_decided (w_kec w) (outs c) v')"

definition keeps :: "world \<Rightarrow> address log \<Rightarrow> voter \<Rightarrow> 'a handler \<Rightarrow> bool" where
  "keeps w L v m \<longleftrightarrow> (\<forall>c. good w L v c \<longrightarrow> wp m (\<lambda>_. good w L v) (crashed w L v) c)"

lemma good_crashed: "good w L v c \<Longrightarrow> crashed w L v c"
  by (auto simp: good_def crashed_def rel_def Let_def)

named_theorems keeps_intros \<open>operations that keep the refinement\<close>

lemma keeps_ret [keeps_intros]: "keeps w L v (ret x)"
  by (simp add: keeps_def wp_simps)

lemma keeps_panic [keeps_intros]: "keeps w L v (panic msg)"
  by (simp add: keeps_def wp_simps good_crashed)

lemma keeps_lift [keeps_intros]: "keeps w L v (lift m)"
  by (simp add: keeps_def wp_simps good_crashed split: outcome.split)

lemma keeps_bnd:
  assumes "keeps w L v m" "\<And>x. keeps w L v (f x)"
  shows "keeps w L v (bnd m f)"
  using assms unfolding keeps_def wp_simps by (blast intro: wp_mono)

lemma keeps_get: "(\<And>c. good w L v c \<Longrightarrow> wp (f c) (\<lambda>_. good w L v) (crashed w L v) c) \<Longrightarrow> keeps w L v (get f)"
  by (simp add: keeps_def wp_simps)

lemma keeps_guard:
  assumes "\<And>c. good w L v c \<Longrightarrow> \<not> g c \<Longrightarrow> wp (m c) (\<lambda>_. good w L v) (crashed w L v) c"
  shows "keeps w L v (get (\<lambda>c. if g c then ret x else m c))"
  using assms by (auto simp: keeps_def wp_simps)

lemma keeps_get_any: "(\<And>c. keeps w L v (f c)) \<Longrightarrow> keeps w L v (get f)"
  by (simp add: keeps_def wp_simps)

lemma keeps_seqs: "(\<And>m. m \<in> set ms \<Longrightarrow> keeps w L v m) \<Longrightarrow> keeps w L v (seqs ms)"
  by (induction ms) (auto simp: seqs.simps intro!: keeps_ret keeps_bnd)

lemma keeps_modify: "(\<And>c. good w L v c \<Longrightarrow> good w L v (f c)) \<Longrightarrow> keeps w L v (modify f)"
  by (simp add: keeps_def wp_simps)

lemma keepsD: "keeps w L v m \<Longrightarrow> good w L v c \<Longrightarrow> wp m (\<lambda>_. good w L v) (crashed w L v) c"
  by (simp add: keeps_def)

text \<open>A change of state that some steps of the discipline account for.\<close>

lemma good_step:
  assumes "good w L v c" "core_wf w L c'"
    and "\<And>v1. rel (w_kec w) c v1 \<Longrightarrow> \<exists>v2. (vstep w L)\<^sup>*\<^sup>* v1 v2 \<and> rel (w_kec w) c' v2"
  shows "good w L v c'"
  using assms unfolding good_def by (meson rtranclp_trans)

lemma good_frame:
  assumes "good w L v c" "core_wf w L c'" "\<And>v1. rel (w_kec w) c v1 \<Longrightarrow> rel (w_kec w) c' v1"
  shows "good w L v c'"
  using assms unfolding good_def by blast

lemma vstepI: "voter_step (wsupport w 1 L) (wsupport w 2 L) v cs v' \<Longrightarrow> (vstep w L)\<^sup>*\<^sup>* v v'"
  unfolding vstep_def by (rule r_into_rtranclp) blast

section \<open>Sending\<close>

definition ballot_hash :: "env \<Rightarrow> block option \<Rightarrow> hash" where
  "ballot_hash e b = (case b of None \<Rightarrow> 0 | Some b \<Rightarrow> bhash e b)"

text \<open>What an operation appends to the effects when it only sends.\<close>

definition sends :: "core \<Rightarrow> unit handler \<Rightarrow> ballot list set \<Rightarrow> bool" where
  "sends c m B \<longleftrightarrow>
     (\<exists>ss xs. m c = Ok () (c\<lparr>sentMsgStorage := ss, outs := outs c @ xs\<rparr>) \<and>
        ballots xs \<in> B \<and> (\<forall>b. Commit b \<notin> set xs))"

lemma sends_ret: "[] \<in> B \<Longrightarrow> sends c (ret ()) B"
  unfolding sends_def by (rule exI [of _ "sentMsgStorage c"], rule exI [of _ "[]"]) (simp add: ret_def)

lemma sends_get [simp]: "sends c (get f) B \<longleftrightarrow> sends c (f c) B"
  by (simp add: sends_def get_def)

lemma sends_emit: "ballot_of x \<in> B \<Longrightarrow> (\<And>b. x \<noteq> Commit b) \<Longrightarrow> sends c (emit x) B"
  unfolding sends_def
  by (rule exI [of _ "sentMsgStorage c"], rule exI [of _ "[x]"]) (auto simp: emit_def modify_def)

lemma sends_broadcast:
  assumes "ballot_of (Broadcast (sBlockNumber (currentState c)) r (Code m) (Payload_Message m)) \<in> B"
  shows "sends c (store_and_broadcast st r m) B"
proof -
  obtain ss where "storeSentMsg st r (Payload_Message m) (sentMsgStorage c) = Done ss"
    by (cases "storeSentMsg st r (Payload_Message m) (sentMsgStorage c)")
      (auto simp: storeSentMsg_def split: if_splits)
  then show ?thesis
    unfolding sends_def
    by (intro exI [of _ ss] exI [of _ "[Broadcast (sBlockNumber (currentState c)) r (Code m) (Payload_Message m)]"])
      (use assms in \<open>simp add: store_and_broadcast_def seqs.simps get_def bnd_def lift_def emit_def modify_def ret_def\<close>)
qed

lemma SendVote_sends:
  assumes "k = msgPrevote \<or> k = msgPrecommit"
  shows "sends c (SendVote e k b r) {[], [(k, sBlockNumber (currentState c), r, ballot_hash e b)]}"
  using assms
  by (auto simp: SendVote_def Let_def sends_get EncodeVote_def FinalizeMsg_def ballot_hash_def
        intro!: sends_ret sends_broadcast split: option.split)

lemma SendPropose_sends: "sends c (SendPropose e p) {[]}"
  by (auto simp: SendPropose_def FinalizeMsg_def EncodeProposal_def
        intro!: sends_ret sends_broadcast split: option.split)


lemma wp_sends:
  assumes "sends c m B"
    and "\<And>ss xs. ballots xs \<in> B \<Longrightarrow> (\<And>b. Commit b \<notin> set xs) \<Longrightarrow>
           Q () (c\<lparr>sentMsgStorage := ss, outs := outs c @ xs\<rparr>)"
  shows "wp m Q R c"
  using assms unfolding sends_def wp_def by fastforce

lemma core_wf_outs [simp]: "core_wf w L (c\<lparr>sentMsgStorage := ss, outs := xs\<rparr>) = core_wf w L c"
  by (simp add: core_wf_def)

lemma good_outs:
  assumes "good w L v c" "ballots xs = []" "\<And>b. Commit b \<notin> set xs"
  shows "good w L v (c\<lparr>sentMsgStorage := ss, outs := outs c @ xs\<rparr>)"
proof (rule good_frame [OF assms(1)])
  show "core_wf w L (c\<lparr>sentMsgStorage := ss, outs := outs c @ xs\<rparr>)"
    using assms(1) by (simp add: good_def)
qed (use assms(2,3) in \<open>auto simp: rel_def Let_def commits_decided_def\<close>)

lemma keeps_sends: "(\<And>c. sends c m {[]}) \<Longrightarrow> keeps w L v m"
  unfolding keeps_def by (auto intro!: wp_sends good_outs)

lemma keeps_emit: "ballot_of x = [] \<Longrightarrow> (\<And>b. x \<noteq> Commit b) \<Longrightarrow> keeps w L v (emit x)"
  by (rule keeps_sends) (simp add: sends_emit)

lemma keeps_ScheduleTimeout [keeps_intros]: "keeps w L v (ScheduleTimeout d n r st i)"
  unfolding ScheduleTimeout_def by (rule keeps_emit) auto

lemma keeps_SendPropose [keeps_intros]: "keeps w L v (SendPropose e p)"
  by (rule keeps_sends) (rule SendPropose_sends)

lemma keeps_propose_block [keeps_intros]: "keeps w L v (propose_block e r)"
  unfolding propose_block_def
  by (auto intro!: keeps_get_any keeps_bnd keeps_intros split: option.split)

lemma keeps_SendCatchupReply [keeps_intros]: "keeps w L v (SendCatchupReply e a ps)"
  unfolding SendCatchupReply_def FinalizeMsg_def EncodeCatchUpReply_def
  by (auto intro!: keeps_get_any keeps_intros keeps_emit split: option.split)

lemma ballot_of_Multicast [simp]: "ballot_of (Multicast ts p) = []"
  by simp

lemma keeps_reBroadcastMsg [keeps_intros]: "keeps w L v (reBroadcastMsg e m)"
  unfolding reBroadcastMsg_def by (auto intro!: keeps_get_any keeps_intros keeps_emit)

section \<open>Voting\<close>

lemma relD:
  assumes "rel kec c v"
  shows "v_height v = sBlockNumber (currentState c)" "v_round v = sRound (currentState c)"
    "v_step v = rs_step (currentState c)" "v_lock v = abs_lock kec (currentState c)"
    "v_cast v = ballots (outs c)"
    "PrevotesReceived (currentState c) r = Some ms \<Longrightarrow> maj23 ms = Some x \<Longrightarrow>
       (sBlockNumber (currentState c), r, x) \<in> v_polka v"
    "PrecommitsReceived (currentState c) r = Some ms \<Longrightarrow> maj23 ms = Some x \<Longrightarrow>
       (sBlockNumber (currentState c), r, x) \<in> v_majority v"
  using assms unfolding rel_def majorities_def Let_def by blast+

lemma UpdateRoundStep_simps [simp]:
  "sBlockNumber (UpdateRoundStep r st s) = sBlockNumber s"
  "sRound (UpdateRoundStep r st s) = r" "rs_step (UpdateRoundStep r st s) = st"
  "PrevotesReceived (UpdateRoundStep r st s) = PrevotesReceived s"
  "PrecommitsReceived (UpdateRoundStep r st s) = PrecommitsReceived s"
  "abs_lock kec (UpdateRoundStep r st s) = abs_lock kec s"
  by (simp_all add: UpdateRoundStep_def abs_lock_def)

lemma state_wf_UpdateRoundStep: "state_wf w L s \<Longrightarrow> 0 \<le> r \<Longrightarrow> state_wf w L (UpdateRoundStep r st s)"
  by (simp add: state_wf_def UpdateRoundStep_def)

lemma core_wf_state:
  assumes "core_wf w L c" "sBlockNumber s = sBlockNumber (currentState c)" "state_wf w L s"
  shows "core_wf w L (c\<lparr>sentMsgStorage := ss, outs := xs, currentState := s\<rparr>)"
  using assms by (simp add: core_wf_def)

text \<open>The core after a vote was sent (or signing failed) and the step was changed.\<close>

abbreviation voted :: "core \<Rightarrow> msgStorage \<Rightarrow> effect list \<Rightarrow> roundState \<Rightarrow> int \<Rightarrow> nat \<Rightarrow> core" where
  "voted c ss xs s r st \<equiv>
     c\<lparr>sentMsgStorage := ss, outs := outs c @ xs, currentState := UpdateRoundStep r st s\<rparr>"

lemma good_voted:
  assumes "good w L v c" "state_wf w L s" "\<And>b. Commit b \<notin> set xs" "0 \<le> r"
    and same: "sBlockNumber s = sBlockNumber (currentState c)"
      "PrevotesReceived s = PrevotesReceived (currentState c)"
      "PrecommitsReceived s = PrecommitsReceived (currentState c)"
    and step: "\<And>v1. rel (w_kec w) c v1 \<Longrightarrow>
      voter_step (wsupport w 1 L) (wsupport w 2 L) v1 (ballots xs)
        (v1\<lparr>v_lock := abs_lock (w_kec w) s, v_round := r, v_step := st, v_cast := v_cast v1 @ ballots xs\<rparr>)"
  shows "good w L v (voted c ss xs s r st)"
proof (rule good_step [OF assms(1)])
  show "core_wf w L (voted c ss xs s r st)"
    using assms(1,2,4) same by (intro core_wf_state state_wf_UpdateRoundStep) (auto simp: good_def)
next
  fix v1 assume v1: "rel (w_kec w) c v1"
  let ?v = "v1\<lparr>v_lock := abs_lock (w_kec w) s, v_round := r, v_step := st, v_cast := v_cast v1 @ ballots xs\<rparr>"
  have "rel (w_kec w) (voted c ss xs s r st) ?v"
    using v1 assms(3) same
    by (auto simp: rel_def Let_def commits_decided_def)
  then show "\<exists>v2. (vstep w L)\<^sup>*\<^sup>* v1 v2 \<and> rel (w_kec w) (voted c ss xs s r st) v2"
    using vstepI [OF step [OF v1]] by blast
qed

definition prevote_choice :: "env \<Rightarrow> roundState \<Rightarrow> hash" where
  "prevote_choice e s =
     ballot_hash e (if lockedRound s \<noteq> -1 then lockedBlock s else map_option pBlock (proposalReceived s))"

lemma defaultDoPrevote_sends:
  "sends c (defaultDoPrevote e r)
     {[], [(1, sBlockNumber (currentState c), r, prevote_choice e (currentState c))]}"
  using SendVote_sends [of msgPrevote c e _ r]
  by (auto simp: defaultDoPrevote_def Let_def prevote_choice_def split: option.split)

lemma prevote_choice_locked:
  assumes "state_wf w L s" "env_in w e" "abs_lock (w_kec w) s = Some (lr, h)"
  shows "h = prevote_choice e s"
  using assms by (auto simp: abs_lock_def state_wf_def env_in_def prevote_choice_def ballot_hash_def)

lemma wp_vote_step:
  assumes "good w L v c" "\<And>c. sends c m0 {[]}"
    and "\<And>ss xs. sends (c\<lparr>sentMsgStorage := ss, outs := outs c @ xs\<rparr>) m B"
    and "\<And>ss xs. ballots xs \<in> B \<Longrightarrow> (\<And>b. Commit b \<notin> set xs) \<Longrightarrow>
           good w L v (voted c ss xs (currentState c) r st)"
  shows "wp (seqs [m0, m, update (UpdateRoundStep r st)]) (\<lambda>_. good w L v) (crashed w L v) c"
  unfolding wp_simps update_def
  apply (rule wp_sends [OF assms(2)], rule wp_sends [OF assms(3)])
  subgoal for ss xs ss' ys using assms(4) [of "xs @ ys" ss'] by simp
  done

lemma sends_ScheduleTimeout: "sends c (ScheduleTimeout d n r st i) {[]}"
  unfolding ScheduleTimeout_def by (rule sends_emit) auto

lemma enterPrevote_good:
  assumes "env_in w e" "good w L v c"
    and guard: "sRound (currentState c) \<le> r" "r = sRound (currentState c) \<longrightarrow> rs_step (currentState c) < 4"
  shows "wp (seqs [ScheduleTimeout d n' r' 4 0, defaultDoPrevote e r, update (UpdateRoundStep r 4)])
      (\<lambda>_. good w L v) (crashed w L v) c"
proof -
  let ?s = "currentState c"
  have wf: "state_wf w L ?s"
    using assms(2) by (auto simp: good_def core_wf_def)
  then have "0 \<le> r"
    using guard(1) by (auto simp: state_wf_def)
  let ?x = "prevote_choice e ?s"
  have sent: "sends (c\<lparr>sentMsgStorage := ss, outs := outs c @ xs\<rparr>) (defaultDoPrevote e r)
      {[], [(1, sBlockNumber ?s, r, ?x)]}" for ss xs
    using defaultDoPrevote_sends [of "c\<lparr>sentMsgStorage := ss, outs := outs c @ xs\<rparr>"] by simp
  show ?thesis
  proof (rule wp_vote_step [OF assms(2) sends_ScheduleTimeout sent])
    fix ss xs assume xs: "ballots xs \<in> {[], [(1, sBlockNumber ?s, r, ?x)]}" "\<And>b. Commit b \<notin> set xs"
    show "good w L v (voted c ss xs ?s r 4)"
    proof (rule good_voted [OF assms(2) wf xs(2) \<open>0 \<le> r\<close> refl refl refl])
      fix v1 assume "rel (w_kec w) c v1"
      note v1 = relD [OF this]
      have "voter_step (wsupport w 1 L) (wsupport w 2 L) v1 (ballots xs)
          (v1\<lparr>v_round := r, v_step := 4, v_cast := v_cast v1 @ ballots xs\<rparr>)"
        using guard xs(1) v1 prevote_choice_locked [OF wf assms(1)]
        by (intro voter_step.prevote [of v1 r ?x]) auto
      then show "voter_step (wsupport w 1 L) (wsupport w 2 L) v1 (ballots xs)
          (v1\<lparr>v_lock := abs_lock (w_kec w) ?s, v_round := r, v_step := 4, v_cast := v_cast v1 @ ballots xs\<rparr>)"
        using v1(4) by (cases v1) simp
    qed
  qed
qed

lemma keeps_enterPrevote [keeps_intros]:
  assumes "env_in w e"
  shows "keeps w L v (enterPrevote e n r)"
  unfolding enterPrevote_def Let_def
  by (auto simp: wp_ret intro!: keeps_get enterPrevote_good [OF assms])


lemma wp_lock_vote:
  assumes "sBlockNumber (f (currentState c)) = sBlockNumber (currentState c)"
    and "\<And>ss xs. ballots xs \<in> {[], [(2, sBlockNumber (currentState c), r, ballot_hash e b)]} \<Longrightarrow>
           (\<And>b. Commit b \<notin> set xs) \<Longrightarrow> good w L v (voted c ss xs (f (currentState c)) r 6)"
  shows "wp (seqs [update f, SendVote e msgPrecommit b r])
    (\<lambda>_. wp (update (UpdateRoundStep r 6)) (\<lambda>_. good w L v) R) R c"
proof -
  have "sends (c\<lparr>currentState := f (currentState c)\<rparr>) (SendVote e msgPrecommit b r)
      {[], [(2, sBlockNumber (currentState c), r, ballot_hash e b)]}"
    using SendVote_sends [of msgPrecommit "c\<lparr>currentState := f (currentState c)\<rparr>" e b r] assms(1) by simp
  then show ?thesis
    unfolding wp_simps update_def
    apply (rule wp_sends)
    subgoal for ss xs using assms(2) [of xs ss] by simp
    done
qed

lemma wp_lock_vote_same:
  assumes "\<And>ss xs. ballots xs \<in> {[], [(2, sBlockNumber (currentState c), r, ballot_hash e b)]} \<Longrightarrow>
           (\<And>b. Commit b \<notin> set xs) \<Longrightarrow> good w L v (voted c ss xs (currentState c) r 6)"
  shows "wp (SendVote e msgPrecommit b r)
    (\<lambda>_. wp (update (UpdateRoundStep r 6)) (\<lambda>_. good w L v) R) R c"
  unfolding update_def wp_simps
  apply (rule wp_sends [OF SendVote_sends])
   apply simp
  subgoal for ss xs using assms [of xs ss] by simp
  done

lemma good_precommit:
  assumes "good w L v c" "sRound (currentState c) \<le> r"
    and guard: "r = sRound (currentState c) \<longrightarrow> rs_step (currentState c) < 6"
    and xs: "ballots xs \<in> {[], [(2, sBlockNumber (currentState c), r, x)]}" "\<And>b. Commit b \<notin> set xs"
    and s: "state_wf w L s" "sBlockNumber s = sBlockNumber (currentState c)"
      "PrevotesReceived s = PrevotesReceived (currentState c)"
      "PrecommitsReceived s = PrecommitsReceived (currentState c)"
    and choice: "x = 0 \<and> abs_lock (w_kec w) s = abs_lock (w_kec w) (currentState c) \<or>
      (\<exists>ms y. PrevotesReceived (currentState c) r = Some ms \<and> maj23 ms = Some y \<and>
         (x = 0 \<and> abs_lock (w_kec w) s = None \<and>
            (\<forall>b. lockedBlock (currentState c) = Some b \<longrightarrow> Block_Hash (w_kec w) b \<noteq> y) \<or>
          x = y \<and> y \<noteq> 0 \<and> abs_lock (w_kec w) s = Some (r, y)))"
  shows "good w L v (voted c ss xs s r 6)"
proof (rule good_voted [OF assms(1) s(1) xs(2) _ s(2-4)])
  show "0 \<le> r"
    using assms(1,2) by (auto simp: good_def core_wf_def state_wf_def)
next
  fix v1 assume rel: "rel (w_kec w) c v1"
  note v1 = relD [OF rel]
  let ?v = "\<lambda>l. v1\<lparr>v_lock := l, v_round := r, v_step := 6, v_cast := v_cast v1 @ ballots xs\<rparr>"
  have pre: "v_round v1 \<le> r" "r = v_round v1 \<longrightarrow> v_step v1 < 6"
    using assms(2) guard v1 by auto
  show "voter_step (wsupport w 1 L) (wsupport w 2 L) v1 (ballots xs) (?v (abs_lock (w_kec w) s))"
    using choice
  proof (elim disjE exE conjE)
    assume "x = 0" and lock: "abs_lock (w_kec w) s = abs_lock (w_kec w) (currentState c)"
    then have "voter_step (wsupport w 1 L) (wsupport w 2 L) v1 (ballots xs)
        (v1\<lparr>v_round := r, v_step := 6, v_cast := v_cast v1 @ ballots xs\<rparr>)"
      using xs(1) v1(1) by (intro voter_step.precommit_nil [OF pre]) simp
    then show ?thesis
      using v1(4) lock by (cases v1) simp
  next
    fix ms y
    assume y: "PrevotesReceived (currentState c) r = Some ms" "maj23 ms = Some y"
      and "x = 0" "abs_lock (w_kec w) s = None"
        "\<forall>b. lockedBlock (currentState c) = Some b \<longrightarrow> Block_Hash (w_kec w) b \<noteq> y"
    then show ?thesis
      using voter_step.precommit_unlock [OF pre, of y "ballots xs"] xs(1) v1(1,4) v1(6) [OF y]
      by (auto simp: abs_lock_def)
  next
    fix ms y
    assume y: "PrevotesReceived (currentState c) r = Some ms" "maj23 ms = Some y"
      and "x = y" "y \<noteq> 0" "abs_lock (w_kec w) s = Some (r, y)"
    then show ?thesis
      using voter_step.precommit_lock [OF pre, of y "ballots xs"] xs(1) v1(1) v1(6) [OF y] by simp
  qed
qed


lemma state_wf_locks:
  assumes "state_wf w L s"
  shows "state_wf w L (Unlock s)"
    and "0 \<le> r \<Longrightarrow> lockedBlock s = Some b \<Longrightarrow> state_wf w L (SetLockedRoundAndBlock r (Some b) s)"
    and "0 \<le> r \<Longrightarrow> proposalReceived s = Some p \<Longrightarrow> Block_Hash (w_kec w) (pBlock p) \<noteq> 0 \<Longrightarrow>
           state_wf w L (SetLockedRoundAndBlock r (Some (pBlock p)) s)"
  using assms by (auto simp: state_wf_def Unlock_def SetLockedRoundAndBlock_def)


lemma doPrecommit_good:
  assumes e: "env_in w e" and good: "good w L v c"
    and guard: "sRound (currentState c) \<le> r" "r = sRound (currentState c) \<longrightarrow> rs_step (currentState c) < 6"
  shows "wp (doPrecommit e r) (\<lambda>_. wp (update (UpdateRoundStep r 6)) (\<lambda>_. good w L v) (crashed w L v))
           (crashed w L v) c"
proof -
  let ?s = "currentState c"
  have wf: "state_wf w L ?s"
    using good by (auto simp: good_def core_wf_def)
  then have "0 \<le> r"
    using guard(1) by (auto simp: state_wf_def)
  have hash: "bhash e b = Block_Hash (w_kec w) b" for b
    using e by (simp add: env_in_def)
  note pre = good_precommit [OF good guard]
  show ?thesis
  proof (cases "TwoThirdMajority (GetPrevotesByRound r ?s)")
    case None
    then show ?thesis
      by (auto simp: doPrecommit_def wp_get ballot_hash_def
            intro!: wp_lock_vote_same pre [where x = 0] wf)
  next
    case (Some y)
    then obtain ms where y: "PrevotesReceived ?s r = Some ms" "maj23 ms = Some y"
      by (auto simp: TwoThirdMajority_def GetPrevotesByRound_def split: option.splits)
    have run: "wp (doPrecommit e r) Q R c =
        (if fst (POLInfo ?s) < r then R c
         else if y = 0 then
           (if lockedBlock ?s = None then wp (SendVote e msgPrecommit None r) Q R c
            else wp (seqs [update Unlock, SendVote e msgPrecommit None r]) Q R c)
         else if map_option (bhash e) (lockedBlock ?s) = Some y then
           wp (seqs [update (SetLockedRoundAndBlock r (lockedBlock ?s)),
                     SendVote e msgPrecommit (lockedBlock ?s) r]) Q R c
         else if map_option (\<lambda>p. bhash e (pBlock p)) (proposalReceived ?s) = Some y then
           wp (seqs [update (SetLockedRoundAndBlock r (map_option pBlock (proposalReceived ?s))),
                     SendVote e msgPrecommit (map_option pBlock (proposalReceived ?s)) r]) Q R c
         else wp (seqs [update Unlock, SendVote e msgPrecommit None r]) Q R c)" for Q R
      using Some
      by (auto simp: doPrecommit_def Let_def wp_get wp_panic wp_seqs wp_seqs_Nil wp_ret)
    have unlock: "wp (seqs [update Unlock, SendVote e msgPrecommit None r])
        (\<lambda>_. wp (update (UpdateRoundStep r 6)) (\<lambda>_. good w L v) (crashed w L v)) (crashed w L v) c"
      if "\<And>b. lockedBlock ?s = Some b \<Longrightarrow> bhash e b \<noteq> y"
      using that y
      by (intro wp_lock_vote pre [where x = 0] state_wf_locks wf)
        (auto simp: Unlock_def abs_lock_def ballot_hash_def hash)
    have lock: "wp (seqs [update (SetLockedRoundAndBlock r (Some b)), SendVote e msgPrecommit (Some b) r])
        (\<lambda>_. wp (update (UpdateRoundStep r 6)) (\<lambda>_. good w L v) (crashed w L v)) (crashed w L v) c"
      if "state_wf w L (SetLockedRoundAndBlock r (Some b) ?s)" "bhash e b = y" "y \<noteq> 0" for b
      using that y
      by (intro wp_lock_vote pre [where x = y])
        (auto simp: SetLockedRoundAndBlock_def abs_lock_def ballot_hash_def hash)
    show ?thesis
      unfolding run
      using wf unlock lock state_wf_locks(2,3) [OF wf \<open>0 \<le> r\<close>] good_crashed [OF good]
      by (auto simp: hash ballot_hash_def state_wf_def
            intro!: wp_lock_vote_same pre [where x = 0])
  qed
qed


section \<open>Operations that leave the consensus state alone\<close>

definition quiet :: "world \<Rightarrow> address log \<Rightarrow> voter \<Rightarrow> 'a handler \<Rightarrow> bool" where
  "quiet w L v m \<longleftrightarrow>
     (\<forall>c. good w L v c \<longrightarrow>
        wp m (\<lambda>_ c'. good w L v c' \<and> currentState c' = currentState c) (crashed w L v) c)"

named_theorems quiet_intros \<open>operations that only send\<close>

lemma quiet_keeps: "quiet w L v m \<Longrightarrow> keeps w L v m"
  unfolding quiet_def keeps_def by (blast intro: wp_mono)

lemma quiet_ret [quiet_intros]: "quiet w L v (ret x)"
  by (simp add: quiet_def wp_simps)

lemma quiet_lift [quiet_intros]: "quiet w L v (lift m)"
  by (simp add: quiet_def wp_simps good_crashed split: outcome.split)

lemma quiet_sends: "(\<And>c. sends c m {[]}) \<Longrightarrow> quiet w L v m"
  unfolding quiet_def by (auto intro!: wp_sends good_outs)

lemma quiet_bnd:
  assumes "quiet w L v m" "\<And>x. quiet w L v (f x)"
  shows "quiet w L v (bnd m f)"
  unfolding quiet_def wp_bnd
proof (intro allI impI)
  fix c assume "good w L v c"
  then have "wp m (\<lambda>_ c'. good w L v c' \<and> currentState c' = currentState c) (crashed w L v) c"
    using assms(1) by (simp add: quiet_def)
  then show "wp m (\<lambda>x. wp (f x) (\<lambda>_ c'. good w L v c' \<and> currentState c' = currentState c)
      (crashed w L v)) (crashed w L v) c"
  proof (rule wp_mono)
    fix x c' assume "good w L v c' \<and> currentState c' = currentState c"
    then show "wp (f x) (\<lambda>_ c'. good w L v c' \<and> currentState c' = currentState c) (crashed w L v) c'"
      using assms(2) [of x] unfolding quiet_def by metis
  qed
qed

lemma quiet_get: "(\<And>c. quiet w L v (f c)) \<Longrightarrow> quiet w L v (get f)"
  by (simp add: quiet_def wp_simps)

lemma quiet_ScheduleTimeout [quiet_intros]: "quiet w L v (ScheduleTimeout d n r st i)"
  by (rule quiet_sends) (rule sends_ScheduleTimeout)

lemma quiet_propose_block [quiet_intros]: "quiet w L v (propose_block e r)"
  unfolding propose_block_def
  by (auto intro!: quiet_get quiet_bnd quiet_intros quiet_sends [OF SendPropose_sends] split: option.split)

lemma wp_quiet:
  assumes "quiet w L v m" "good w L v c"
    and "\<And>x c'. good w L v c' \<Longrightarrow> currentState c' = currentState c \<Longrightarrow> Q x c'"
  shows "wp m Q (crashed w L v) c"
  using assms unfolding quiet_def by (blast intro: wp_mono)

section \<open>Changes of the consensus state\<close>

lemma good_wf: "good w L v c \<Longrightarrow> state_wf w L (currentState c)"
  by (auto simp: good_def core_wf_def)

lemma core_wf_current:
  assumes "core_wf w L c" "sBlockNumber s = sBlockNumber (currentState c)" "state_wf w L s"
  shows "core_wf w L (c\<lparr>currentState := s\<rparr>)"
  using assms by (simp add: core_wf_def)

lemma good_advance:
  assumes "good w L v c" "sRound (currentState c) \<le> r"
    and "r = sRound (currentState c) \<longrightarrow>
      (4 \<le> rs_step (currentState c) \<longrightarrow> 4 \<le> st) \<and> (6 \<le> rs_step (currentState c) \<longrightarrow> 6 \<le> st)"
  shows "good w L v (c\<lparr>currentState := UpdateRoundStep r st (currentState c)\<rparr>)"
proof (rule good_step [OF assms(1)])
  show "core_wf w L (c\<lparr>currentState := UpdateRoundStep r st (currentState c)\<rparr>)"
    using assms(1,2) good_wf [OF assms(1)]
    by (intro core_wf_current state_wf_UpdateRoundStep) (auto simp: good_def state_wf_def)
next
  fix v1 assume "rel (w_kec w) c v1"
  moreover from this have "voter_step (wsupport w 1 L) (wsupport w 2 L) v1 [] (v1\<lparr>v_round := r, v_step := st\<rparr>)"
    using assms(2,3) by (intro voter_step.advance) (auto dest: relD(2,3))
  ultimately show "\<exists>v2. (vstep w L)\<^sup>*\<^sup>* v1 v2 \<and>
      rel (w_kec w) (c\<lparr>currentState := UpdateRoundStep r st (currentState c)\<rparr>) v2"
    by (intro exI [of _ "v1\<lparr>v_round := r, v_step := st\<rparr>"])
      (auto simp: rel_def Let_def commits_decided_def intro: vstepI)
qed

lemma good_state:
  assumes "good w L v c" "state_wf w L s" "view s = view (currentState c)"
    "rs_step s = rs_step (currentState c)" "lockedRound s = lockedRound (currentState c)"
    "lockedBlock s = lockedBlock (currentState c)"
    "PrevotesReceived s = PrevotesReceived (currentState c)"
    "PrecommitsReceived s = PrecommitsReceived (currentState c)"
  shows "good w L v (c\<lparr>currentState := s\<rparr>)"
proof (rule good_frame [OF assms(1)])
  show "core_wf w L (c\<lparr>currentState := s\<rparr>)"
    using assms(1-3) by (auto simp: good_def core_wf_def)
qed (use assms(3-) in \<open>auto simp: rel_def Let_def abs_lock_def\<close>)

lemma keeps_update:
  assumes "\<And>s. state_wf w L s \<Longrightarrow> state_wf w L (f s)"
    "\<And>s. view (f s) = view s \<and> rs_step (f s) = rs_step s \<and> lockedRound (f s) = lockedRound s \<and>
       lockedBlock (f s) = lockedBlock s \<and> PrevotesReceived (f s) = PrevotesReceived s \<and>
       PrecommitsReceived (f s) = PrecommitsReceived s"
  shows "keeps w L v (update f)"
  unfolding update_def by (rule keeps_modify) (simp add: good_state assms good_wf)

lemma keeps_SetProposalReceived_None [keeps_intros]: "keeps w L v (update (SetProposalReceived None))"
  by (rule keeps_update) (auto simp: SetProposalReceived_def state_wf_def)

lemma keeps_setPrecommitWaited [keeps_intros]: "keeps w L v (update (setPrecommitWaited b))"
  by (rule keeps_update) (auto simp: setPrecommitWaited_def state_wf_def)

lemma keeps_SetBlock [keeps_intros]: "keeps w L v (update (SetBlock b))"
  by (rule keeps_update) (auto simp: SetBlock_def state_wf_def)

lemma keeps_SetValid [keeps_intros]: "keeps w L v (update (SetValidRoundAndBlock r b))"
  by (rule keeps_update) (auto simp: SetValidRoundAndBlock_def state_wf_def)

lemma enterPrecommit_good:
  assumes "env_in w e" "good w L v c" "sRound (currentState c) \<le> r"
    "r = sRound (currentState c) \<longrightarrow> rs_step (currentState c) < 6"
  shows "wp (seqs [ScheduleTimeout d n' r' 6 0, doPrecommit e r, update (UpdateRoundStep r 6)])
      (\<lambda>_. good w L v) (crashed w L v) c"
  unfolding wp_seqs wp_seqs_Nil
  by (rule wp_quiet [OF quiet_ScheduleTimeout assms(2)], rule doPrecommit_good [OF assms(1)])
    (use assms(3,4) in auto)

lemma keeps_enterPrecommit [keeps_intros]:
  assumes "env_in w e"
  shows "keeps w L v (enterPrecommit e n r)"
  unfolding enterPrecommit_def Let_def
  by (auto simp: wp_ret intro!: keeps_get enterPrecommit_good [OF assms])


lemma wp_update_step:
  assumes "good w L v c" "sRound (currentState c) \<le> r"
    and "r = sRound (currentState c) \<longrightarrow>
      (4 \<le> rs_step (currentState c) \<longrightarrow> 4 \<le> st) \<and> (6 \<le> rs_step (currentState c) \<longrightarrow> 6 \<le> st)"
    and "\<And>c'. good w L v c' \<Longrightarrow> Q () c'"
  shows "wp (update (UpdateRoundStep r st)) Q R c"
  unfolding update_def wp_modify using good_advance [OF assms(1-3)] assms(4) by blast

lemma keeps_enterPrevoteWait [keeps_intros]: "keeps w L v (enterPrevoteWait e n r)"
  unfolding enterPrevoteWait_def Let_def
  by (rule keeps_get)
    (auto simp: wp_ret wp_seqs wp_seqs_Nil
       intro!: wp_quiet [OF quiet_ScheduleTimeout] wp_update_step)

lemma keeps_enterPrecommitWait [keeps_intros]: "keeps w L v (enterPrecommitWait e n r)"
  unfolding enterPrecommitWait_def Let_def
  by (rule keeps_get)
    (auto simp: wp_ret wp_panic wp_seqs wp_seqs_Nil good_crashed split: option.split
       intro!: wp_quiet [OF quiet_ScheduleTimeout] wp_update_step keepsD [OF keeps_setPrecommitWaited])

lemma enterPropose_good:
  assumes "env_in w e" "good w L v c" "sRound (currentState c) \<le> r"
    "r = sRound (currentState c) \<longrightarrow> rs_step (currentState c) < 3" "quiet w L v m"
  shows "wp (seqs [ScheduleTimeout d n' r' 3 0, m, update (UpdateRoundStep r 3),
      get (\<lambda>c. if IsProposalComplete (currentState c) then enterPrevote e n sr else ret ())])
      (\<lambda>_. good w L v) (crashed w L v) c"
  unfolding wp_seqs wp_seqs_Nil
  by (rule wp_quiet [OF quiet_ScheduleTimeout assms(2)], rule wp_quiet [OF assms(5)], assumption,
      rule wp_update_step, assumption)
    (use assms(1,3,4) in \<open>auto simp: wp_get wp_ret intro: keepsD [OF keeps_enterPrevote]\<close>)

lemma keeps_enterPropose [keeps_intros]:
  assumes "env_in w e"
  shows "keeps w L v (enterPropose e n r)"
  unfolding enterPropose_def Let_def
  by (rule keeps_get)
    (auto simp: wp_ret intro!: enterPropose_good [OF assms] quiet_intros)

text \<open>Choosing a new proposer leaves the validators as they are.\<close>

lemma CalcProposer_validators: "CalcProposer vs p d = Done vs' \<Longrightarrow> validators vs' = validators vs"
  by (auto simp: CalcProposer_def)

lemma good_valSet:
  assumes "good w L v c" "validators vs = validators (valSet c)"
  shows "good w L v (c\<lparr>valSet := vs\<rparr>)"
  using assms by (auto simp: good_def core_wf_def rel_def)


lemma wp_next_proposer:
  assumes "good w L v c"
    and "\<And>c'. good w L v c' \<Longrightarrow> currentState c' = currentState c \<Longrightarrow> Q () c'"
  shows "wp (bnd (lift (GetProposerAddress (valSet c))) (\<lambda>p.
     bnd (lift (CalcProposer (valSet c) p d)) set_valSet)) Q (crashed w L v) c"
  using assms good_crashed [OF assms(1)] good_valSet [OF assms(1)] CalcProposer_validators
  by (auto simp: wp_bnd wp_lift set_valSet_def wp_modify split: outcome.split)

definition safe_handler :: "world \<Rightarrow> address log \<Rightarrow> voter \<Rightarrow> (message \<Rightarrow> error option handler) \<Rightarrow> bool" where
  "safe_handler w L v h \<longleftrightarrow> (\<forall>m. authentic w L m \<longrightarrow> keeps w L v (h m))"

lemma keeps_replay_proposal:
  assumes "safe_handler w L v h"
  shows "keeps w L v (get (\<lambda>c. case futureProposals c r of
           Some m \<Rightarrow> bnd (h m) (\<lambda>_. ret ()) | None \<Rightarrow> ret ()))"
proof (rule keeps_get)
  fix c assume good: "good w L v c"
  then have "keeps w L v (bnd (h m) (\<lambda>_. ret ()))" if "futureProposals c r = Some m" for m
    using that assms by (auto simp: good_def core_wf_def safe_handler_def intro!: keeps_bnd keeps_ret)
  then show "wp (case futureProposals c r of Some m \<Rightarrow> bnd (h m) (\<lambda>_. ret ()) | None \<Rightarrow> ret ())
      (\<lambda>_. good w L v) (crashed w L v) c"
    using good by (auto simp: wp_ret keeps_def split: option.split)
qed

lemma enterNewRound_good:
  assumes e: "env_in w e" and h: "safe_handler w L v h" and good: "good w L v c"
    and guard: "sRound (currentState c) \<le> r" "r = sRound (currentState c) \<longrightarrow> rs_step (currentState c) < 4"
  shows "wp (seqs
      [(if sRound (currentState c) < r then
          bnd (lift (GetProposerAddress (valSet c))) (\<lambda>p.
          bnd (lift (CalcProposer (valSet c) p d)) set_valSet)
        else ret ()),
       (if r > 0 then update (SetProposalReceived None) else ret ()),
       update (UpdateRoundStep r RoundStepNewRound),
       update (setPrecommitWaited False),
       enterPropose e n r,
       get (\<lambda>c. case futureProposals c r of Some m \<Rightarrow> bnd (h m) (\<lambda>_. ret ()) | None \<Rightarrow> ret ())])
     (\<lambda>_. good w L v) (crashed w L v) c" (is "wp (seqs [?calc, ?clear, _, _, _, _]) _ _ _")
proof -
  let ?rest = "seqs [update (setPrecommitWaited False), enterPropose e n r,
       get (\<lambda>c. case futureProposals c r of Some m \<Rightarrow> bnd (h m) (\<lambda>_. ret ()) | None \<Rightarrow> ret ())]"
  have rest: "keeps w L v ?rest"
    by (intro keeps_seqs) (auto intro: keeps_intros keeps_enterPropose [OF e] keeps_replay_proposal [OF h])
  have step: "wp (update (UpdateRoundStep r RoundStepNewRound)) (\<lambda>_. wp ?rest (\<lambda>_. good w L v) (crashed w L v))
      (crashed w L v) c'"
    if "good w L v c'" "view (currentState c') = view (currentState c)"
      "rs_step (currentState c') = rs_step (currentState c)" for c'
    using that guard keepsD [OF rest] by (intro wp_update_step) auto
  have clear: "wp ?clear (\<lambda>_. wp (seqs [update (UpdateRoundStep r RoundStepNewRound), update (setPrecommitWaited False),
       enterPropose e n r, get (\<lambda>c. case futureProposals c r of Some m \<Rightarrow> bnd (h m) (\<lambda>_. ret ()) | None \<Rightarrow> ret ())])
      (\<lambda>_. good w L v) (crashed w L v)) (crashed w L v) c'"
    if "good w L v c'" "currentState c' = currentState c" for c'
    unfolding wp_seqs(2) [of "update (UpdateRoundStep r RoundStepNewRound)"]
    using that step [of c'] step [of "c'\<lparr>currentState := SetProposalReceived None (currentState c')\<rparr>"]
      keepsD [OF keeps_SetProposalReceived_None that(1)]
    by (auto simp: wp_ret update_def wp_modify SetProposalReceived_def)
  show ?thesis
    unfolding wp_seqs(2) [of ?calc] wp_seqs(2) [of ?clear]
    using good clear by (auto simp: wp_ret intro!: wp_next_proposer)
qed

lemma keeps_enterNewRound [keeps_intros]:
  assumes "env_in w e" "safe_handler w L v h"
  shows "keeps w L v (enterNewRound h e n r)"
  unfolding enterNewRound_def Let_def
  by (rule keeps_guard, rule enterNewRound_good [OF assms]) auto


section \<open>Committing\<close>

lemma put_extra_simps [simp]:
  "Number (put_extra h te) = Number h" "MixDigest (put_extra h te) = MixDigest h"
  by (simp_all add: put_extra_def)

lemma WriteCommittedSeals_frame:
  "WriteCommittedSeals h seals = Inr h' \<Longrightarrow> Number h' = Number h \<and> MixDigest h' = MixDigest h"
  by (auto simp: WriteCommittedSeals_def split: if_splits sum.splits)

lemma Block_Number_sealed:
  "WriteCommittedSeals (Block_Header b) seals = Inr hdr \<Longrightarrow> Block_Number (WithSeal b hdr) = Block_Number b"
  by (auto dest!: WriteCommittedSeals_frame
        simp: Block_Number_def WithSeal_def Block_Header_def CopyHeader_def split: option.splits)

lemma FinalizeBlock_sealed:
  assumes "FinalizeBlock e p c = Done (Inr b)"
  obtains seals hdr where "WriteCommittedSeals (Block_Header (pBlock p)) seals = Inr hdr"
    "b = WithSeal (pBlock p) hdr"
  using assms by (auto simp: FinalizeBlock_def Let_def split: option.splits if_splits sum.splits)

lemma good_commit:
  assumes good: "good w L v c" and b: "FinalizeBlock e p c = Done (Inr b)"
    and p: "blk_ok (sBlockNumber (currentState c)) (pBlock p)" "Block_Hash (w_kec w) (pBlock p) = x"
    and x: "PrecommitsReceived (currentState c) r = Some ms" "maj23 ms = Some x" "x \<noteq> 0"
  shows "good w L v (c\<lparr>outs := outs c @ [Commit b]\<rparr>)"
proof (rule good_step [OF good])
  show "core_wf w L (c\<lparr>outs := outs c @ [Commit b]\<rparr>)"
    using good by (simp add: good_def core_wf_def)
next
  fix v1 assume rel: "rel (w_kec w) c v1"
  let ?n = "sBlockNumber (currentState c)"
  let ?v = "v1\<lparr>v_decided := v_decided v1 @ [(v_height v1, x)]\<rparr>"
  have "voter_step (wsupport w 1 L) (wsupport w 2 L) v1 [] ?v"
    using relD(7) [OF rel x(1,2)] relD(1) [OF rel] x(3) by (intro voter_step.decide) simp_all
  moreover have "sealed_from (w_kec w) x b \<and> Block_Number b = ?n"
    using FinalizeBlock_sealed [OF b] p Block_Number_sealed
    by (metis blk_ok_def sealed_from_def)
  then have "rel (w_kec w) (c\<lparr>outs := outs c @ [Commit b]\<rparr>) ?v"
    using rel by (auto simp: rel_def Let_def commits_decided_def)
  ultimately show "\<exists>v2. (vstep w L)\<^sup>*\<^sup>* v1 v2 \<and> rel (w_kec w) (c\<lparr>outs := outs c @ [Commit b]\<rparr>) v2"
    using vstepI by blast
qed

lemma keeps_finalizeCommit [keeps_intros]:
  assumes e: "env_in w e"
  shows "keeps w L v (finalizeCommit e n)"
  unfolding finalizeCommit_def Let_def
proof (rule keeps_get)
  fix c assume good: "good w L v c"
  have hash: "bhash e b = Block_Hash (w_kec w) b" for b
    using e by (simp add: env_in_def)
  have "good w L v (c\<lparr>outs := outs c @ [Commit b]\<rparr>)"
    if "TwoThirdMajority (GetPrecommitsByRound (commitRound (currentState c)) (currentState c)) = Some x"
      "x \<noteq> 0" "proposalReceived (currentState c) = Some p" "bhash e (pBlock p) = x"
      "FinalizeBlock e p c = Done (Inr b)" for x p b
    using that good_wf [OF good] good_commit [OF good that(5)] hash
    by (auto simp: TwoThirdMajority_def GetPrecommitsByRound_def state_wf_def split: option.splits)
  then show "wp (if sBlockNumber (currentState c) \<noteq> n
         then panic ''finalize a commit at different state block number''
         else if rs_step (currentState c) \<noteq> RoundStepCommit then ret ()
         else case TwoThirdMajority (GetPrecommitsByRound (commitRound (currentState c)) (currentState c)) of
                None \<Rightarrow> ret ()
              | Some blockHash \<Rightarrow>
                  if blockHash = 0 then ret ()
                  else case proposalReceived (currentState c) of
                         None \<Rightarrow> ret ()
                       | Some proposal \<Rightarrow>
                           if bhash e (pBlock proposal) \<noteq> blockHash then ret ()
                           else bnd (lift (FinalizeBlock e proposal c)) (\<lambda>r.
                                  case r of
                                    Inl err \<Rightarrow> panic ''block committing failed''
                                  | Inr b \<Rightarrow> emit (Commit b)))
     (\<lambda>_. good w L v) (crashed w L v) c"
    using good good_crashed [OF good]
    by (auto simp: wp_simps emit_def split: option.split outcome.split sum.split)
qed

lemma keeps_commit_proposal: "keeps w L v (update (commit_proposal e r x))"
  by (rule keeps_update)
    (auto simp: commit_proposal_def SetProposalReceived_def state_wf_def Let_def split: option.split)

lemma keeps_enterCommit [keeps_intros]:
  assumes "env_in w e"
  shows "keeps w L v (enterCommit e n r)"
proof -
  have "keeps w L v (update (\<lambda>s. UpdateRoundStep (sRound s) RoundStepCommit s))"
    unfolding update_def by (rule keeps_modify) (rule good_advance, auto)
  moreover have "keeps w L v (update (\<lambda>s. s\<lparr>commitRound := r, commitTime := t\<rparr>))" for t
    by (rule keeps_update) (auto simp: state_wf_def)
  ultimately show ?thesis
    unfolding enterCommit_def Let_def
    by (auto intro!: keeps_get_any keeps_intros keeps_seqs keeps_commit_proposal assms split: option.split)
qed


end
