(* ===== verification/Core_Safety.thy ===== *)
theory Core_Safety
  imports Core_Refinement
begin

text \<open>
  Every handler of the node keeps the refinement of \<open>Core_Refinement\<close>: counting votes, the message
  handlers, timeouts, catch-up, and the change of height.
\<close>

lemma keepsI: "(\<And>c. good w L v c \<Longrightarrow> wp m (\<lambda>_. good w L v) (crashed w L v) c) \<Longrightarrow> keeps w L v m"
  by (simp add: keeps_def)

lemma wp_ret_eq: "wp (ret x) Q R = Q x"
  by (simp add: fun_eq_iff wp_ret)

lemma wp_seqs_Cons: "wp (seqs (m # ms)) Q R = wp m (\<lambda>_. wp (seqs ms) Q R) R"
  by (simp add: fun_eq_iff wp_seqs)

section \<open>Counting votes\<close>

lemma MinMajority_cong: "validators vs = validators vs' \<Longrightarrow> MinMajority vs = MinMajority vs'"
  by (simp add: MinMajority_def valF_def Size_def)

lemma valset_ok_cong: "validators vs = validators vs' \<Longrightarrow> valset_ok vs = valset_ok vs'"
  by (simp add: valset_ok_def)

lemma votes_wfD:
  assumes "votes_wf w L n k M" "M r = Some ms"
  shows "ms_ok ms" "ms_view ms = \<lparr>BlockNumber = n, Round = r\<rparr>" "msgCode ms = k"
    "validators (ms_valSet ms) = validators (w_valset w n)"
    "voteByAddress ms a = Some vote \<Longrightarrow> a \<notin> w_faulty w \<Longrightarrow> (a, k, n, r, vBlockHash vote) \<in> set L"
  using assms unfolding votes_wf_def by blast+

text \<open>A two-thirds majority a node has counted is one that a quorum has cast.\<close>

lemma votes_support:
  assumes "world_ok w" "votes_wf w L n k M" "M r = Some ms" "maj23 ms = Some x"
  shows "wsupport w k L n r x"
proof -
  note ms = votes_wfD [OF assms(2,3)]
  have "is_quorum (w_valset w) (w_faulty w) n (voters ms x)"
    using assms(1) ms_okD(3,8) [OF ms(1)] assms(4) ms(4) voters_subset [of ms x]
      MinMajority_cong [OF ms(4)]
    by (auto simp: is_quorum_def world_ok_def)
  then show ?thesis
    unfolding support_def using ms(5) by (auto simp: voters_def)
qed

lemma majorities_upd: "majorities n (M(r \<mapsto> ms)) \<subseteq> majorities n M \<union> {(n, r, x) | x. maj23 ms = Some x}"
  by (auto simp: majorities_def split: if_splits)

lemma good_prevotes:
  assumes "world_ok w" and good: "good w L v c"
    and wf: "votes_wf w L (sBlockNumber (currentState c)) msgPrevote ((PrevotesReceived (currentState c))(r \<mapsto> ms))"
  shows "good w L v (c\<lparr>currentState := (currentState c)\<lparr>PrevotesReceived := (PrevotesReceived (currentState c))(r \<mapsto> ms)\<rparr>\<rparr>)"
    (is "good w L v ?c")
proof (rule good_step [OF good])
  show "core_wf w L ?c"
    using good wf by (auto simp: good_def core_wf_def state_wf_def)
next
  fix v1 assume rel: "rel (w_kec w) c v1"
  let ?n = "sBlockNumber (currentState c)"
  let ?v = "case maj23 ms of None \<Rightarrow> v1 | Some x \<Rightarrow> v1\<lparr>v_polka := insert (v_height v1, r, x) (v_polka v1)\<rparr>"
  have "(vstep w L)\<^sup>*\<^sup>* v1 (v1\<lparr>v_polka := insert (v_height v1, r, x) (v_polka v1)\<rparr>)" if "maj23 ms = Some x" for x
    using votes_support [OF assms(1) wf, of r ms x] relD(1) [OF rel] that
    by (intro vstepI [OF voter_step.learn_polka]) simp
  then have "(vstep w L)\<^sup>*\<^sup>* v1 ?v"
    by (auto split: option.split)
  moreover have "rel (w_kec w) ?c ?v"
    using rel majorities_upd [of ?n "PrevotesReceived (currentState c)" r ms]
    by (auto simp: rel_def Let_def abs_lock_def commits_decided_def split: option.split)
  ultimately show "\<exists>v2. (vstep w L)\<^sup>*\<^sup>* v1 v2 \<and> rel (w_kec w) ?c v2" by blast
qed

lemma good_precommits:
  assumes "world_ok w" and good: "good w L v c"
    and wf: "votes_wf w L (sBlockNumber (currentState c)) msgPrecommit ((PrecommitsReceived (currentState c))(r \<mapsto> ms))"
  shows "good w L v (c\<lparr>currentState := (currentState c)\<lparr>PrecommitsReceived := (PrecommitsReceived (currentState c))(r \<mapsto> ms)\<rparr>\<rparr>)"
    (is "good w L v ?c")
proof (rule good_step [OF good])
  show "core_wf w L ?c"
    using good wf by (auto simp: good_def core_wf_def state_wf_def)
next
  fix v1 assume rel: "rel (w_kec w) c v1"
  let ?n = "sBlockNumber (currentState c)"
  let ?v = "case maj23 ms of None \<Rightarrow> v1 | Some x \<Rightarrow> v1\<lparr>v_majority := insert (v_height v1, r, x) (v_majority v1)\<rparr>"
  have "(vstep w L)\<^sup>*\<^sup>* v1 (v1\<lparr>v_majority := insert (v_height v1, r, x) (v_majority v1)\<rparr>)" if "maj23 ms = Some x" for x
    using votes_support [OF assms(1) wf, of r ms x] relD(1) [OF rel] that
    by (intro vstepI [OF voter_step.learn_majority]) simp
  then have "(vstep w L)\<^sup>*\<^sup>* v1 ?v"
    by (auto split: option.split)
  moreover have "rel (w_kec w) ?c ?v"
    using rel majorities_upd [of ?n "PrecommitsReceived (currentState c)" r ms]
    by (auto simp: rel_def Let_def abs_lock_def commits_decided_def split: option.split)
  ultimately show "\<exists>v2. (vstep w L)\<^sup>*\<^sup>* v1 v2 \<and> rel (w_kec w) ?c v2" by blast
qed

text \<open>The vote sets of a round after \<^verbatim>\<open>AddVote\<close>, whatever it answers.\<close>

lemma votes_wf_AddVote:
  assumes wf: "votes_wf w L n k M" and "world_ok w" "validators vs = validators (w_valset w n)"
    and msg: "DecodeVote (Msg msg) = Some vote"
      "Code msg = k \<Longrightarrow> Address msg \<notin> w_faulty w \<Longrightarrow>
         (Address msg, k, vBlockNumber vote, vRound vote, vBlockHash vote) \<in> set L"
    and n: "vBlockNumber vote = n"
    and run: "AddVote msg vote (case M (vRound vote) of Some ms \<Rightarrow> ms
                | None \<Rightarrow> newMessageSet vs k \<lparr>BlockNumber = vBlockNumber vote, Round = vRound vote\<rparr>)
              = Done (res, ms')" (is "AddVote msg vote ?ms = _")
  shows "votes_wf w L n k (M(vRound vote \<mapsto> ms'))"
proof -
  have new: "ms_ok (newMessageSet vs k \<lparr>BlockNumber = n, Round = vRound vote\<rparr>)"
    using assms(2,3) valset_ok_cong [OF assms(3)] by (auto simp: world_ok_def intro: newMessageSet_ok)
  have ms: "ms_ok ?ms \<and> ms_view ?ms = \<lparr>BlockNumber = n, Round = vRound vote\<rparr> \<and> msgCode ?ms = k \<and>
      validators (ms_valSet ?ms) = validators (w_valset w n) \<and>
      (\<forall>a vote'. voteByAddress ?ms a = Some vote' \<longrightarrow> a \<notin> w_faulty w \<longrightarrow>
         (a, k, n, vRound vote, vBlockHash vote') \<in> set L)"
  proof (cases "M (vRound vote)")
    case None
    then show ?thesis using new assms(3) n by (simp add: newMessageSet_def)
  next
    case (Some ms)
    then show ?thesis using votes_wfD [OF wf Some] by simp
  qed
  have "ms_ok ms' \<and> ms_view ms' = \<lparr>BlockNumber = n, Round = vRound vote\<rparr> \<and> msgCode ms' = k \<and>
      validators (ms_valSet ms') = validators (w_valset w n) \<and>
      (\<forall>a vote'. voteByAddress ms' a = Some vote' \<and> a \<notin> w_faulty w \<longrightarrow>
         (a, k, n, vRound vote, vBlockHash vote') \<in> set L)"
    using conjunct1 [OF ms] msg(1)
  proof (cases rule: AddVote_cases)
    case (rejected res')
    then show ?thesis using run ms by auto
  next
    case added
    then show ?thesis
      using run ms msg(2) n by (auto simp: vote_fits_def)
  qed
  then show ?thesis
    using wf unfolding votes_wf_def by auto
qed

text \<open>A signed vote of a correct validator that arrives is in the log.\<close>

lemma msg_subs_self [simp]: "m \<in> msg_subs m"
  by (cases m) simp

lemma authentic_vote:
  assumes "authentic w L msg" "GetAddressFromSignature (w_recover w) msg = Some (Address msg)"
    "DecodeVote (Msg msg) = Some vote" "Code msg = k" "k = msgPrevote \<or> k = msgPrecommit"
    "Address msg \<notin> w_faulty w"
  shows "(Address msg, k, vBlockNumber vote, vRound vote, vBlockHash vote) \<in> set L"
  using assms unfolding authentic_def by (metis insertCI msg_subs_self)

lemma good_addPrevote:
  assumes "world_ok w" and good: "good w L v c"
    and msg: "authentic w L msg" "GetAddressFromSignature (w_recover w) msg = Some (Address msg)"
      "DecodeVote (Msg msg) = Some vote"
    and n: "vBlockNumber vote = sBlockNumber (currentState c)"
    and run: "addPrevote msg vote (valSet c) (currentState c) = Done (added, s)"
  shows "good w L v (c\<lparr>currentState := s\<rparr>)"
proof -
  obtain ms where ms: "AddVote msg vote (case PrevotesReceived (currentState c) (vRound vote) of Some ms \<Rightarrow> ms
        | None \<Rightarrow> newMessageSet (valSet c) msgPrevote \<lparr>BlockNumber = vBlockNumber vote, Round = vRound vote\<rparr>)
      = Done (added, ms)"
    and s: "s = (currentState c)\<lparr>PrevotesReceived := (PrevotesReceived (currentState c))(vRound vote \<mapsto> ms)\<rparr>"
    using run by (auto simp: addPrevote_def Let_def)
  have "validators (valSet c) = validators (w_valset w (sBlockNumber (currentState c)))"
    and wf: "votes_wf w L (sBlockNumber (currentState c)) msgPrevote (PrevotesReceived (currentState c))"
    using good by (auto simp: good_def core_wf_def state_wf_def)
  then show ?thesis
    unfolding s
    using votes_wf_AddVote [OF wf assms(1) _ msg(3) authentic_vote [OF msg] n ms]
    by (intro good_prevotes [OF assms(1) good]) simp
qed

lemma good_addPrecommit:
  assumes "world_ok w" and good: "good w L v c"
    and msg: "authentic w L msg" "GetAddressFromSignature (w_recover w) msg = Some (Address msg)"
      "DecodeVote (Msg msg) = Some vote"
    and n: "vBlockNumber vote = sBlockNumber (currentState c)"
    and run: "addPrecommit msg vote (valSet c) (currentState c) = Done (added, s)"
  shows "good w L v (c\<lparr>currentState := s\<rparr>)"
proof -
  obtain ms where ms: "AddVote msg vote (case PrecommitsReceived (currentState c) (vRound vote) of Some ms \<Rightarrow> ms
        | None \<Rightarrow> newMessageSet (valSet c) msgPrecommit \<lparr>BlockNumber = vBlockNumber vote, Round = vRound vote\<rparr>)
      = Done (added, ms)"
    and s: "s = (currentState c)\<lparr>PrecommitsReceived := (PrecommitsReceived (currentState c))(vRound vote \<mapsto> ms)\<rparr>"
    using run by (auto simp: addPrecommit_def Let_def)
  have "validators (valSet c) = validators (w_valset w (sBlockNumber (currentState c)))"
    and wf: "votes_wf w L (sBlockNumber (currentState c)) msgPrecommit (PrecommitsReceived (currentState c))"
    using good by (auto simp: good_def core_wf_def state_wf_def)
  then show ?thesis
    unfolding s
    using votes_wf_AddVote [OF wf assms(1) _ msg(3) authentic_vote [OF msg] n ms]
    by (intro good_precommits [OF assms(1) good]) simp
qed

text \<open>A lock is given up when a later round has a polka for something else.\<close>

lemma good_unlock:
  assumes good: "good w L v c"
    and x: "PrevotesReceived (currentState c) r = Some ms" "maj23 ms = Some x"
    and b: "lockedBlock (currentState c) = Some b" "Block_Hash (w_kec w) b \<noteq> x"
      "lockedRound (currentState c) < r" "r \<le> sRound (currentState c)"
  shows "good w L v (c\<lparr>currentState := Unlock (currentState c)\<rparr>)"
proof (rule good_step [OF good])
  show "core_wf w L (c\<lparr>currentState := Unlock (currentState c)\<rparr>)"
    using good good_wf [OF good]
    by (intro core_wf_current state_wf_locks) (auto simp: good_def Unlock_def)
next
  fix v1 assume rel: "rel (w_kec w) c v1"
  have "voter_step (wsupport w 1 L) (wsupport w 2 L) v1 [] (v1\<lparr>v_lock := None\<rparr>)"
    using relD(1,2,4) [OF rel] relD(6) [OF rel x] b
    by (intro voter_step.unlock [of v1 "lockedRound (currentState c)" "Block_Hash (w_kec w) b" r x])
      (auto simp: abs_lock_def)
  moreover have "rel (w_kec w) (c\<lparr>currentState := Unlock (currentState c)\<rparr>) (v1\<lparr>v_lock := None\<rparr>)"
    using rel by (auto simp: rel_def Let_def Unlock_def abs_lock_def commits_decided_def)
  ultimately show "\<exists>v2. (vstep w L)\<^sup>*\<^sup>* v1 v2 \<and> rel (w_kec w) (c\<lparr>currentState := Unlock (currentState c)\<rparr>) v2"
    using vstepI by blast
qed

lemma prevote_majority_good:
  assumes e: "env_in w e" and good: "good w L v c"
    and x: "PrevotesReceived (currentState c) (vRound vote) = Some ms" "maj23 ms = Some x"
  shows "wp (prevote_majority e vote x) (\<lambda>_. good w L v) (crashed w L v) c"
proof -
  have hash: "bhash e b = Block_Hash (w_kec w) b" for b
    using e by (simp add: env_in_def)
  have second: "keeps w L v (get (\<lambda>c.
         let state = currentState c
         in if x \<noteq> 0 \<and> validRound state < vRound vote \<and> vRound vote = sRound state
            then (if map_option (\<lambda>p. bhash e (pBlock p)) (proposalReceived state) = Some x
                  then update (SetValidRoundAndBlock (vRound vote)
                                 (map_option pBlock (proposalReceived state)))
                  else update (SetProposalReceived None))
            else ret ()))"
    by (auto simp: Let_def intro!: keeps_get_any keeps_intros)
  have first: "wp (get (\<lambda>c.
         let state = currentState c
         in if lockedRound state \<noteq> -1 \<and> lockedRound state < vRound vote \<and> vRound vote \<le> sRound state
            then (case lockedBlock state of
                    None \<Rightarrow> panic ''nil pointer dereference''
                  | Some b \<Rightarrow> if bhash e b \<noteq> x then update Unlock else ret ())
            else ret ())) (\<lambda>_. good w L v) (crashed w L v) c"
    using good good_crashed [OF good] good_unlock [OF good x]
    by (auto simp: Let_def wp_get wp_panic wp_ret update_def wp_modify hash split: option.split)
  show ?thesis
    unfolding prevote_majority_def wp_seqs wp_seqs_Nil
    by (rule wp_mono [OF first]) (auto intro: keepsD [OF second])
qed

section \<open>Message handlers\<close>

lemma keeps_prevote_progress:
  assumes "env_in w e" "safe_handler w L v h"
  shows "keeps w L v (prevote_progress h e vote prevotes)"
  unfolding prevote_progress_def Let_def
  by (auto intro!: keeps_get_any keeps_intros assms)

lemma keeps_precommit_progress:
  assumes "env_in w e" "safe_handler w L v h"
  shows "keeps w L v (precommit_progress h e vote precommits)"
  unfolding precommit_progress_def Let_def
  by (auto intro!: keeps_get_any keeps_seqs keeps_intros assms split: option.split)

lemma good_future:
  assumes "good w L v c" "\<And>it. it \<in> set q \<Longrightarrow> authentic w L (item_message it)"
  shows "good w L v (c\<lparr>futureMessages := q\<rparr>)"
  using assms by (auto simp: good_def core_wf_def rel_def)

lemma keeps_put_future:
  assumes "env_in w e" "authentic w L msg"
  shows "keeps w L v (put_future e msg n)"
  unfolding put_future_def
proof (rule keeps_modify)
  fix c assume good: "good w L v c"
  have "set (e_put e x q) = insert x (set q)" for x q
    using assms(1) by (simp add: env_in_def)
  then show "good w L v (c\<lparr>futureMessages :=
      e_put e \<lparr>item_message = msg, item_height = Uint64 n\<rparr> (futureMessages c)\<rparr>)"
    using good assms(2) by (intro good_future) (auto simp: good_def core_wf_def)
qed

lemma keeps_store_future_proposal:
  assumes "authentic w L msg"
  shows "keeps w L v (store_future_proposal e msg p)"
proof -
  have "keeps w L v (modify (\<lambda>c. c\<lparr>futureProposals := (futureProposals c)(r \<mapsto> msg)\<rparr>))" for r
    by (rule keeps_modify) (use assms in \<open>auto simp: good_def core_wf_def rel_def\<close>)
  then show ?thesis
    unfolding store_future_proposal_def
    by (intro keeps_get_any keeps_bnd keeps_lift) (auto intro: keeps_ret)
qed

lemma handlePrevote_good:
  assumes "env_in w e" "world_ok w" "safe_handler w L v h" and good: "good w L v c"
    and msg: "authentic w L msg" "GetAddressFromSignature (w_recover w) msg = Some (Address msg)"
      "DecodeVote (Msg msg) = Some vote"
    and n: "vBlockNumber vote = sBlockNumber (currentState c)"
    and run: "addPrevote msg vote (valSet c) (currentState c) = Done (added, s)"
    and ms: "GetPrevotesByRound (vRound vote) s = Some ms"
    and m: "m = (case TwoThirdMajority (Some ms) of Some x \<Rightarrow> prevote_majority e vote x | None \<Rightarrow> ret ())"
  shows "wp (seqs [m, reBroadcastMsg e msg, prevote_progress h e vote ms]) (\<lambda>_. good w L v) (crashed w L v)
      (c\<lparr>currentState := s\<rparr>)"
proof -
  note good' = good_addPrevote [OF assms(2) good msg n run]
  have "wp m (\<lambda>_. good w L v) (crashed w L v) (c\<lparr>currentState := s\<rparr>)"
    using good' ms prevote_majority_good [OF assms(1) good'] unfolding m
    by (auto simp: wp_ret TwoThirdMajority_def GetPrevotesByRound_def split: option.split)
  moreover have "keeps w L v (seqs [reBroadcastMsg e msg, prevote_progress h e vote ms])"
    by (rule keeps_seqs) (auto intro: keeps_intros keeps_prevote_progress assms)
  ultimately show ?thesis
    unfolding wp_seqs(2) [of m] by (auto intro: wp_mono keepsD)
qed

lemma keeps_handlePrevote:
  assumes "env_in w e" "world_ok w" "safe_handler w L v h"
    and msg: "authentic w L msg" "GetAddressFromSignature (w_recover w) msg = Some (Address msg)"
  shows "keeps w L v (handlePrevote h e msg)"
proof (rule keepsI)
  fix c assume good: "good w L v c"
  show "wp (handlePrevote h e msg) (\<lambda>_. good w L v) (crashed w L v) c"
    unfolding handlePrevote_def Let_def wp_get
    using good good_crashed [OF good] good_addPrevote [OF assms(2) good msg]
      keepsD [OF keeps_put_future [OF assms(1) msg(1)] good]
    by (auto simp: wp_ret_eq wp_bnd wp_lift wp_panic update_def wp_modify good_crashed
          split: option.split sum.split bool.split outcome.split
          intro!: handlePrevote_good [OF assms(1-3) good msg])
qed

lemma wp_keeps_bnd:
  assumes "keeps w L v m" "keeps w L v m'" "good w L v c"
  shows "wp m (\<lambda>_. wp m' (\<lambda>_. good w L v) (crashed w L v)) (crashed w L v) c"
  by (rule wp_mono [OF keepsD [OF assms(1,3)]]) (auto intro: keepsD [OF assms(2)])

lemma keeps_handlePrecommit:
  assumes "env_in w e" "world_ok w" "safe_handler w L v h"
    and msg: "authentic w L msg" "GetAddressFromSignature (w_recover w) msg = Some (Address msg)"
  shows "keeps w L v (handlePrecommit h e msg)"
proof (rule keepsI)
  fix c assume good: "good w L v c"
  show "wp (handlePrecommit h e msg) (\<lambda>_. good w L v) (crashed w L v) c"
    unfolding handlePrecommit_def Let_def wp_get
    using good good_crashed [OF good] good_addPrecommit [OF assms(2) good msg]
      keepsD [OF keeps_put_future [OF assms(1) msg(1)] good]
    by (auto simp: wp_ret_eq wp_bnd wp_lift wp_panic update_def wp_modify good_crashed
          split: option.split sum.split bool.split outcome.split
          intro!: wp_keeps_bnd keeps_bnd keeps_intros keeps_precommit_progress [OF assms(1,3)])
qed

lemma Block_Header_MixDigest [simp]: "MixDigest (Block_Header b) = MixDigest (block_header b)"
  by (simp add: Block_Header_def CopyHeader_def)

lemma VerifyProposal_blk_ok:
  assumes "env_in w e" "VerifyProposal e p msg c = Done None" "Block_Number (pBlock p) = n"
  shows "blk_ok n (pBlock p)"
proof -
  have "e_VerifyProposalHeader e (Block_Header (pBlock p)) \<in> {None, Some ErrEmptyCommittedSeals}"
    using assms(2) by (auto simp: VerifyProposal_def split: if_splits option.splits)
  then have "MixDigest (Block_Header (pBlock p)) = TendermintDigest"
    using assms(1) unfolding env_in_def by blast
  then show ?thesis
    using assms(3) by (simp add: blk_ok_def)
qed

lemma accept_proposal_good:
  assumes "env_in w e" and good: "good w L v c"
    and ok: "blk_ok (sBlockNumber (currentState c)) (pBlock p)"
  shows "wp (accept_proposal e msg p) (\<lambda>_. good w L v) (crashed w L v) c"
proof -
  have quiet: "quiet w L v (reBroadcastMsg e msg)"
    unfolding reBroadcastMsg_def
    by (auto intro!: quiet_get quiet_intros quiet_sends sends_emit)
  have "good w L v (c'\<lparr>currentState := SetProposalReceived (Some p) (currentState c')\<rparr>)"
    if "good w L v c'" "currentState c' = currentState c" for c'
    using that ok good_wf [OF that(1)]
    by (intro good_state) (auto simp: SetProposalReceived_def state_wf_def)
  moreover have "keeps w L v (get (\<lambda>c.
         let state = currentState c
         in if rs_step state \<le> RoundStepPropose \<and> IsProposalComplete state
            then enterPrevote e (sBlockNumber state) (sRound state)
            else if rs_step state = RoundStepCommit
            then finalizeCommit e (Block_Number (pBlock p))
            else ret ()))"
    by (auto simp: Let_def intro!: keeps_get_any keeps_intros assms(1))
  ultimately show ?thesis
    unfolding accept_proposal_def wp_seqs wp_seqs_Nil
    by (intro wp_quiet [OF quiet good]) (simp add: update_def wp_modify keepsD)
qed

lemma keeps_handlePropose:
  assumes "env_in w e" "authentic w L msg"
  shows "keeps w L v (handlePropose e msg)"
proof (rule keepsI)
  fix c assume good: "good w L v c"
  show "wp (handlePropose e msg) (\<lambda>_. good w L v) (crashed w L v) c"
    unfolding handlePropose_def Let_def wp_get
    using good good_crashed [OF good] keepsD [OF keeps_put_future [OF assms] good]
      keepsD [OF keeps_store_future_proposal [OF assms(2)] good]
      accept_proposal_good [OF assms(1) good] VerifyProposal_blk_ok [OF assms(1)]
    by (auto simp: wp_ret_eq wp_bnd wp_lift split: option.split outcome.split)
qed

lemma keeps_handleCatchupRequest: "keeps w L v (handleCatchupRequest e msg)"
  unfolding handleCatchupRequest_def Let_def
  by (rule keeps_get_any)
    (auto intro!: keeps_bnd keeps_seqs keeps_intros split: body.split)

lemma authentic_sub: "authentic w L m \<Longrightarrow> m' \<in> msg_subs m \<Longrightarrow> msg_subs m' \<subseteq> msg_subs m \<Longrightarrow> authentic w L m'"
  unfolding authentic_def by blast

lemma keeps_catchup_replies:
  assumes "\<And>m. Payload_Message m \<in> set ps \<Longrightarrow> keeps w L v (h m)"
  shows "keeps w L v (catchup_replies h from ps)"
  using assms
proof (induction ps)
  case Nil
  then show ?case by (simp add: keeps_ret)
next
  case (Cons p ps)
  then have "keeps w L v (bnd (h m) (\<lambda>err. case err of Some e \<Rightarrow> ret (Some e) | None \<Rightarrow> catchup_replies h from ps))"
    if "p = Payload_Message m" for m
    using that by (intro keeps_bnd) (auto intro: keeps_ret split: option.split)
  then show ?case
    by (cases p) (auto simp: DecodeMessage_def intro: keeps_ret)
qed

lemma keeps_handleCatchUpReply:
  assumes "safe_handler w L v h" "authentic w L msg"
  shows "keeps w L v (handleCatchUpReply h e msg)"
proof -
  have "keeps w L v (h m)" if "Msg msg = Body_CatchUpReply n ps" "Payload_Message m \<in> set ps" for n ps m
  proof -
    have "msg_subs m \<subseteq> msg_subs msg"
      using that by (cases msg) force
    then have "authentic w L m"
      using authentic_sub [OF assms(2)] msg_subs_self by blast
    then show ?thesis
      using assms(1) by (simp add: safe_handler_def)
  qed
  then show ?thesis
    unfolding handleCatchUpReply_def
    by (auto intro!: keeps_get_any keeps_ret keeps_catchup_replies split: body.split)
qed

theorem keeps_handleMsgLocked:
  assumes "env_in w e" "world_ok w"
  shows "safe_handler w L v (handleMsgLocked fuel e)"
proof (induction fuel)
  case 0
  then show ?case by (simp add: safe_handler_def keeps_def wp_def)
next
  case (Suc fuel)
  have "e_recover e = w_recover w"
    using assms(1) by (simp add: env_in_def)
  then have "keeps w L v (handleMsgLocked (Suc fuel) e msg)" if "authentic w L msg" for msg
    using that assms Suc
    by (auto simp: Let_def intro!: keeps_ret keeps_handlePropose keeps_handlePrevote keeps_handlePrecommit
          keeps_handleCatchupRequest keeps_handleCatchUpReply split: option.split)
  then show ?case by (simp add: safe_handler_def del: handleMsgLocked.simps)
qed

section \<open>Timeouts, catch-up and new blocks\<close>

lemma keeps_sendCatchUpRequest [keeps_intros]: "keeps w L v (sendCatchUpRequest e n r st)"
  unfolding sendCatchUpRequest_def Let_def
  by (auto intro!: keeps_get_any keeps_seqs keeps_intros keeps_emit split: option.split sum.split)

lemma keeps_enterCatchup [keeps_intros]: "keeps w L v (enterCatchup e n r st retry)"
  unfolding enterCatchup_def Let_def
  by (rule keeps_get_any) (auto intro!: keeps_seqs keeps_intros)

lemma keeps_handleTimeout:
  assumes "env_in w e" "safe_handler w L v h"
  shows "keeps w L v (handleTimeout h e t)"
  unfolding handleTimeout_def Let_def
  by (rule keeps_get_any) (auto intro!: keeps_seqs keeps_intros assms)

lemma keeps_handleNewBlock: "keeps w L v (handleNewBlock e b)"
  unfolding handleNewBlock_def
  by (rule keeps_get_any) (auto intro!: keeps_seqs keeps_intros keeps_emit)

section \<open>The next height\<close>

lemma clearPreviousRoundData_simps [simp]:
  "view (clearPreviousRoundData s) = (view s)\<lparr>Round := 0\<rparr>"
  "rs_step (clearPreviousRoundData s) = RoundStepNewHeight"
  "lockedRound (clearPreviousRoundData s) = -1" "lockedBlock (clearPreviousRoundData s) = None"
  "proposalReceived (clearPreviousRoundData s) = None"
  "PrevotesReceived (clearPreviousRoundData s) = Map.empty"
  "PrecommitsReceived (clearPreviousRoundData s) = Map.empty"
  by (auto simp: clearPreviousRoundData_def Let_def UpdateRoundStep_def SetLockedRoundAndBlock_def
        SetValidRoundAndBlock_def SetProposalReceived_def SetBlock_def split: option.split)

lemma good_new_height:
  assumes good: "good w L v c" and "sBlockNumber (currentState c) < BlockNumber vw"
    and c': "currentState c' = clearPreviousRoundData s" "view s = vw"
      "valSet c' = w_valset w (BlockNumber vw)" "outs c' = outs c" "futureMessages c' = futureMessages c"
      "\<And>r m. futureProposals c' r = Some m \<Longrightarrow> futureProposals c r = Some m"
  shows "good w L v c'"
proof (rule good_step [OF good])
  have "authentic w L m" if "futureProposals c' r = Some m" for r m
    using good c'(6) [OF that] by (auto simp: good_def core_wf_def)
  then show "core_wf w L c'"
    using good c'(1-5) by (auto simp: good_def core_wf_def state_wf_def votes_wf_def)
next
  fix v1 assume rel: "rel (w_kec w) c v1"
  let ?v = "v1\<lparr>v_height := BlockNumber vw, v_round := 0, v_step := 1, v_lock := None\<rparr>"
  have "voter_step (wsupport w 1 L) (wsupport w 2 L) v1 [] ?v"
    using relD(1) [OF rel] assms(2) by (intro voter_step.new_height) simp
  moreover have "rel (w_kec w) c' ?v"
    using rel c' by (auto simp: rel_def Let_def abs_lock_def majorities_def commits_decided_def)
  ultimately show "\<exists>v2. (vstep w L)\<^sup>*\<^sup>* v1 v2 \<and> rel (w_kec w) c' v2"
    using vstepI by blast
qed

lemma updateStateForNewblock_good:
  assumes e: "env_in w e" and good: "good w L v c"
  shows "wp (updateStateForNewblock e)
    (\<lambda>_ c'. good w L v c' \<and> sBlockNumber (currentState c') \<in> {sBlockNumber (currentState c), sBlockNumber (currentState c) + 1})
    R c"
proof -
  have "e_Validators e = w_valset w"
    using e by (simp add: env_in_def)
  then show ?thesis
    unfolding updateStateForNewblock_def Let_def wp_get
    using good by (auto simp: wp_ret wp_modify SetView_def intro!: good_new_height [OF good])
qed

lemma startNewRound_good:
  assumes e: "env_in w e" and good: "good w L v c" and "sBlockNumber (currentState c) \<le> e_CurrentHead e + 1"
  shows "wp (startNewRound e) (\<lambda>_. good w L v) (crashed w L v) c"
proof -
  have e: "e_Validators e = w_valset w"
    using e by (simp add: env_in_def)
  let ?m = "get (\<lambda>c.
         let state = currentState c
         in case step_duration e state of
              None \<Rightarrow> ret ()
            | Some duration \<Rightarrow>
                if fst (GetByAddress (valSet c) (e_Address e)) = -1 then ret ()
                else ScheduleTimeout duration (sBlockNumber state) (sRound state) (rs_step state) 0)"
  have m: "keeps w L v ?m"
    by (auto simp: Let_def intro!: keeps_get_any keeps_intros split: option.split)
  have "good w L v (c\<lparr>currentState := clearPreviousRoundData
           (SetView \<lparr>BlockNumber = e_CurrentHead e + 1, Round = 0\<rparr> (currentState c)),
         sentMsgStorage := truncateMsgStored (sentMsgStorage c), valSet := w_valset w (e_CurrentHead e + 1)\<rparr>)"
    if "sBlockNumber (currentState c) \<noteq> e_CurrentHead e + 1"
    using that assms(3) by (intro good_new_height [OF good _ _ refl]) (auto simp: SetView_def)
  then show ?thesis
    unfolding startNewRound_def wp_seqs wp_seqs_Nil
    using good e
    by (intro wp_mono [where Q = "\<lambda>_. good w L v" and R = "crashed w L v", OF _ keepsD [OF m]])
      (auto simp: wp_get Let_def wp_ret wp_modify SetView_def)
qed

declare processFutureMessages.simps [simp del] handleMsgLocked.simps [simp del]

lemma keeps_processFutureMessages:
  assumes "safe_handler w L v h"
  shows "keeps w L v (processFutureMessages fuel h e)"
proof (induction fuel)
  case 0
  then show ?case by (simp add: keeps_def wp_def processFutureMessages.simps)
next
  case (Suc fuel)
  show ?case
  proof (rule keepsI)
    fix c assume good: "good w L v c"
    have auth: "authentic w L (item_message it)" if "it \<in> set (futureMessages c)" for it
      using good that by (auto simp: good_def core_wf_def)
    have drop: "good w L v (c\<lparr>futureMessages := rest\<rparr>)" "keeps w L v (h (item_message it))"
      if "futureMessages c = it # rest" for it rest
      using that good_future [OF good] auth assms by (auto simp: safe_handler_def)
    show "wp (processFutureMessages (Suc fuel) h e) (\<lambda>_. good w L v) (crashed w L v) c"
      unfolding processFutureMessages.simps wp_get Let_def
      using good drop keepsD [OF Suc]
      by (auto simp: wp_ret wp_bnd wp_modify intro!: wp_keeps_bnd [OF _ Suc] split: list.split option.split)
  qed
qed

lemma keeps_handleFinalCommitted:
  assumes e: "env_in w e" and h: "safe_handler w L v h" and "n \<le> e_CurrentHead e"
  shows "keeps w L v (handleFinalCommitted h e n)"
proof (rule keepsI)
  fix c assume good: "good w L v c"
  let ?future = "get (\<lambda>c. bnd (processFutureMessages (Suc (length (futureMessages c))) h e) (\<lambda>_. ret ()))"
  have future: "keeps w L v ?future"
    by (intro keeps_get_any keeps_bnd keeps_ret keeps_processFutureMessages h)
  have start: "wp (startNewRound e) (\<lambda>_. wp ?future (\<lambda>_. good w L v) (crashed w L v)) (crashed w L v) c'"
    if "good w L v c'" "sBlockNumber (currentState c') \<le> n + 1" for c'
    using that assms(3) by (intro wp_mono [OF startNewRound_good [OF e that(1)]] keepsD [OF future]) auto
  have "wp (updateStateForNewblock e)
      (\<lambda>_. wp (startNewRound e) (\<lambda>_. wp ?future (\<lambda>_. good w L v) (crashed w L v)) (crashed w L v))
      (crashed w L v) (c\<lparr>sentMsgStorage := ss\<rparr>)"
    if "sBlockNumber (currentState c) \<le> n" for ss
    using that good_outs [OF good, of "[]" ss]
    by (intro wp_mono [OF updateStateForNewblock_good [OF e]]) (auto intro!: start)
  then have "wp (if n < sBlockNumber (currentState c) then ret ()
      else seqs [modify (\<lambda>c. c\<lparr>sentMsgStorage := truncateMsgStored (sentMsgStorage c)\<rparr>),
                 updateStateForNewblock e, startNewRound e, ?future]) (\<lambda>_. good w L v) (crashed w L v) c"
    using good by (simp add: wp_ret wp_seqs_Cons wp_seqs_Nil wp_modify)
  then show "wp (handleFinalCommitted h e n) (\<lambda>_. good w L v) (crashed w L v) c"
    by (simp add: handleFinalCommitted_def wp_get)
qed

section \<open>Events\<close>

text \<open>What may reach a node: authentic messages, and the commit of a block the chain already has.\<close>

definition event_ok :: "world \<Rightarrow> address log \<Rightarrow> env \<Rightarrow> event \<Rightarrow> bool" where
  "event_ok w L e ev \<longleftrightarrow>
     (\<forall>m. ev = MessageEvent (Payload_Message m) \<longrightarrow> authentic w L m) \<and>
     (\<forall>n. ev = FinalCommittedEvent n \<longrightarrow> n \<le> e_CurrentHead e)"

lemma keeps_handleEvent:
  assumes "env_in w e" "world_ok w" "event_ok w L e ev"
  shows "keeps w L v (handleEvent e ev)"
proof -
  have h: "safe_handler w L v (handleMsgLocked fuel e)" for fuel
    by (rule keeps_handleMsgLocked [OF assms(1,2)])
  show ?thesis
  proof (cases ev)
    case (MessageEvent p)
    then show ?thesis
      using assms(3) h unfolding event_ok_def safe_handler_def
      by (cases p) (auto simp: handleEvent_def DecodeMessage_def
            intro!: keeps_bnd keeps_ret)
  qed (use assms(3) h in \<open>auto simp: handleEvent_def event_ok_def
         intro: keeps_handleNewBlock keeps_handleTimeout [OF assms(1)] keeps_handleFinalCommitted [OF assms(1)]\<close>)
qed

end
