(* ===== verification/Rlp_Codec.thy ===== *)
theory Rlp_Codec
  imports Rlp
begin

text \<open>
  Correctness of the serialisation: the encoder with its deferred list headers produces the
  reference encoding, and the streaming decoder accepts exactly the reference encodings.  The
  locale \<open>codec\<close> is the contract of a decoder with respect to an encoding; lists and
  structures of such decoders keep it.
\<close>

section \<open>Big endian numbers\<close>

lemma unat_byte_less: "unat (b :: byte) < 256"
proof -
  have "unat b < 2 ^ LENGTH(8)" by (rule unsigned_less)
  then show ?thesis by simp
qed

lemma be_val_simps [simp]:
  "be_val [] = 0" "be_val (bs @ [b]) = be_val bs * 256 + unat b"
  by (simp_all add: be_val_def)

lemma be_val_single [simp]: "be_val [b] = unat b"
  by (simp add: be_val_def)

lemma be_val_less: "be_val bs < 256 ^ length bs"
proof (induction bs rule: rev_induct)
  case (snoc b bs)
  then show ?case using unat_byte_less [of b] by simp
qed simp

lemma be_val_Cons: "be_val (b # bs) = unat b * 256 ^ length bs + be_val bs"
proof (induction bs rule: rev_induct)
  case (snoc x bs)
  then show ?case
    using be_val_simps(2) [of "b # bs" x] by (simp add: algebra_simps)
qed simp

lemma putint_step:
  assumes "256 \<le> n" "n < 2 ^ 64"
  shows "putint n = putint (n div 256) @ [of_nat n]"
proof -
  have shift: "n div 256 div 2 ^ k = n div 2 ^ (k + 8)" for k
    by (simp add: div_mult2_eq [symmetric] power_add mult.commute)
  have less: "(n div 256 < 2 ^ k) = (n < 2 ^ (k + 8))" for k
    by (simp add: power_add less_mult_imp_div_less div_less_iff_less_mult)
  show ?thesis
    unfolding putint_def shift less using assms by simp
qed

lemma putint_small: "n < 256 \<Longrightarrow> putint n = [of_nat n]"
  by (simp add: putint_def)

lemma of_nat_mod_256 [simp]: "(of_nat (n mod 256) :: byte) = of_nat n"
  by (simp add: word_unat_eq_iff unat_of_nat)

lemma of_nat_snoc: "(of_nat (n * 256 + unat b) :: byte) = b"
  using unat_byte_less [of b]
  by (simp only: word_unat_eq_iff unat_of_nat) simp

text \<open>The numbers of up to eight bytes are those \<^verbatim>\<open>putint\<close> writes without a leading zero.\<close>

lemma putint_props:
  assumes "n < 2 ^ 64"
  shows "be_val (putint n) = n" "length (putint n) = intsize n" "putint n \<noteq> []"
    "0 < n \<Longrightarrow> hd (putint n) \<noteq> 0"
  using assms
proof (induction n rule: less_induct)
  case (less n)
  {
    case 1
    then show ?case
      using less(1) [of "n div 256"] by (cases "n < 256") (auto simp: putint_small putint_step unat_of_nat)
  next
    case 2
    then show ?case
      using less(2) [of "n div 256"]
      by (cases "n < 256") (auto simp: putint_small putint_step intsize.simps [of n])
  next
    case 3
    then show ?case by (cases "n < 256") (auto simp: putint_small putint_step)
  next
    case 4
    have "(of_nat n :: byte) \<noteq> 0" if "n < 256"
      using that 4 by (auto simp: word_unat_eq_iff unat_of_nat)
    then show ?case
      using 4 less(3,4) [of "n div 256"]
      by (cases "n < 256") (auto simp: putint_small putint_step)
  }
qed

lemma intsize_le: "n < 256 ^ k \<Longrightarrow> 0 < k \<Longrightarrow> intsize n \<le> k"
proof (induction k arbitrary: n)
  case (Suc k)
  show ?case
  proof (cases "n < 256")
    case False
    then have "n div 256 < 256 ^ k" "0 < k"
      using Suc.prems by (auto simp: div_less_iff_less_mult mult.commute intro: gr0I)
    then show ?thesis
      using Suc.IH [of "n div 256"] False by (subst intsize.simps) simp
  qed (simp add: intsize.simps)
qed simp

lemma putint_length: "n < 2 ^ 64 \<Longrightarrow> 1 \<le> length (putint n) \<and> length (putint n) \<le> 8"
  using putint_props(2,3) [of n] intsize_le [of n 8] by (cases "putint n") auto

text \<open>Conversely, bytes without a leading zero are the ones \<^verbatim>\<open>putint\<close> writes for their value.\<close>

lemma putint_be_val:
  assumes "bs \<noteq> []" "length bs \<le> 8" "length bs = 1 \<or> hd bs \<noteq> 0"
  shows "putint (be_val bs) = bs"
  using assms
proof (induction bs rule: rev_induct)
  case (snoc b bs)
  show ?case
  proof (cases "bs = []")
    case True
    then show ?thesis
      using unat_byte_less [of b] by (simp add: putint_small)
  next
    case False
    then have hd: "hd bs \<noteq> 0" "bs \<noteq> []"
      using snoc.prems(3) by (auto simp: hd_append)
    have pos: "0 < be_val bs"
      using hd by (cases bs) (auto simp: be_val_Cons unat_gt_0)
    have "be_val (bs @ [b]) < 2 ^ 64"
      using be_val_less [of "bs @ [b]"] snoc.prems(2) power_increasing [of "length (bs @ [b])" 8 "256 :: nat"]
      by simp
    then show ?thesis
      using pos snoc hd False unat_byte_less [of b]
      by (subst putint_step) (auto simp: Suc_le_eq of_nat_snoc simp del: of_nat_add of_nat_mult)
  qed
qed simp

section \<open>The encoder produces the reference encoding\<close>

abbreviation payload :: "item list \<Rightarrow> byte list" where
  "payload xs \<equiv> concat (map rlp xs)"

text \<open>What a value leaves in the buffer: its string data, its list headers and their sizes.\<close>

fun sdata :: "item \<Rightarrow> byte list" where
  "sdata (Str b) = rlp (Str b)"
| "sdata (Lst xs) = concat (map sdata xs)"

fun hsize :: "item \<Rightarrow> nat" where
  "hsize (Str b) = 0"
| "hsize (Lst xs) =
    headsize (length (concat (map sdata xs)) + sum_list (map hsize xs)) + sum_list (map hsize xs)"

abbreviation psize :: "item list \<Rightarrow> nat" where
  "psize xs \<equiv> length (concat (map sdata xs)) + sum_list (map hsize xs)"

fun heads :: "nat \<Rightarrow> item \<Rightarrow> listhead list" and heads_list :: "nat \<Rightarrow> item list \<Rightarrow> listhead list" where
  "heads off (Str b) = []"
| "heads off (Lst xs) = \<lparr>offset = off, lh_size = psize xs\<rparr> # heads_list off xs"
| "heads_list off [] = []"
| "heads_list off (x # xs) = heads off x @ heads_list (off + length (sdata x)) xs"

text \<open>What the buffer is written out as: the headers carry the sizes the buffer has counted.\<close>

fun wire :: "item \<Rightarrow> byte list" where
  "wire (Str b) = rlp (Str b)"
| "wire (Lst xs) = puthead 0xC0 0xF7 (psize xs) @ concat (map wire xs)"

lemma encodeString_rlp: "encodeString b w = w\<lparr>str := str w @ rlp (Str b)\<rparr>"
  by (auto simp: encodeString_def encodeStringHeader_def encbuf_write_def puthead_def Let_def
        length_Suc_conv)

lemma write_buffer:
  "writeInterface x w =
     w\<lparr>str := str w @ sdata x, lheads := lheads w @ heads (length (str w)) x, lhsize := lhsize w + hsize x\<rparr>"
  "writeElems xs w =
     w\<lparr>str := str w @ concat (map sdata xs), lheads := lheads w @ heads_list (length (str w)) xs,
       lhsize := lhsize w + sum_list (map hsize xs)\<rparr>"
proof (induction x w and xs w rule: writeInterface_writeElems.induct)
  case (1 b w)
  then show ?case by (simp add: encodeString_rlp)
next
  case (2 xs w)
  show ?case
    using 2 [OF _ refl, of "length (lheads w)"]
    by (simp add: encbuf_list_def encbuf_listEnd_def encbuf_size_def headsize_def Let_def list_update_append)
next
  case (3 w)
  then show ?case by simp
next
  case (4 x xs w)
  then show ?case by (simp add: add.assoc)
qed

text \<open>
  Writing out: up to a position before the next header only string data is copied, and at the
  headers of a value its reference encoding appears.
\<close>

lemma toBytes_loop_out: "toBytes_loop s hs p out = out @ toBytes_loop s hs p []"
proof (induction hs arbitrary: p out)
  case (Cons h hs)
  show ?case
    unfolding toBytes_loop.simps Let_def by (subst (1 2) Cons.IH) simp
qed simp

lemma toBytes_loop_skip:
  assumes "p + length u \<le> length s" "take (length u) (drop p s) = u"
    and "hs \<noteq> [] \<Longrightarrow> p + length u \<le> offset (hd hs)"
  shows "toBytes_loop s hs p [] = u @ toBytes_loop s hs (p + length u) []"
proof (cases hs)
  case Nil
  then show ?thesis
    using assms(2) append_take_drop_id [of "length u" "drop p s"] by (simp add: add.commute)
next
  case (Cons h hs')
  define n where "n = offset h - (p + length u)"
  have "offset h - p = length u + n"
    using assms(3) Cons by (simp add: n_def)
  then have piece: "take (offset h - p) (drop p s) = u @ take n (drop (p + length u) s)"
    using assms(2) by (simp only: take_add drop_drop add.commute [of "length u" p])
  have "toBytes_loop s (h # hs') p [] =
      toBytes_loop s hs' (p + length (u @ take n (drop (p + length u) s)))
        ((u @ take n (drop (p + length u) s)) @ listhead_encode h)"
    by (simp only: toBytes_loop.simps Let_def piece append_Nil)
  also have "\<dots> = u @ toBytes_loop s (h # hs') (p + length u) []"
    unfolding toBytes_loop.simps Let_def n_def [symmetric]
    by (subst (1 2) toBytes_loop_out) (simp only: length_append add.assoc append_assoc append_Nil)
  finally show ?thesis unfolding Cons .
qed

lemma heads_offset:
  "\<forall>h \<in> set (heads off x). off \<le> offset h" "\<forall>h \<in> set (heads_list off xs). off \<le> offset h"
  by (induction off x and off xs rule: heads_heads_list.induct) force+

lemma heads_hd:
  assumes "hs \<noteq> [] \<Longrightarrow> off + length (concat (map sdata xs)) \<le> offset (hd hs)" "heads_list off xs @ hs \<noteq> []"
  shows "off \<le> offset (hd (heads_list off xs @ hs))"
  using assms heads_offset(2) [of off xs] by (cases "heads_list off xs") auto

lemma toBytes_loop_rlp:
  "\<lbrakk>take (length (sdata x)) (drop p s) = sdata x; p + length (sdata x) \<le> length s;
    hs \<noteq> [] \<Longrightarrow> p + length (sdata x) \<le> offset (hd hs)\<rbrakk> \<Longrightarrow>
   toBytes_loop s (heads p x @ hs) p [] = wire x @ toBytes_loop s hs (p + length (sdata x)) []"
  "\<lbrakk>take (length (concat (map sdata xs))) (drop p s) = concat (map sdata xs);
    p + length (concat (map sdata xs)) \<le> length s;
    hs \<noteq> [] \<Longrightarrow> p + length (concat (map sdata xs)) \<le> offset (hd hs)\<rbrakk> \<Longrightarrow>
   toBytes_loop s (heads_list p xs @ hs) p [] =
     concat (map wire xs) @ toBytes_loop s hs (p + length (concat (map sdata xs))) []"
proof (induction p x and p xs arbitrary: hs and hs rule: heads_heads_list.induct)
  case (1 off b)
  then show ?case by (simp add: toBytes_loop_skip del: rlp.simps)
next
  case (2 off xs)
  then show ?case
    by (simp add: Let_def listhead_encode_def toBytes_loop_out [of s _ _ "puthead _ _ _"])
next
  case (3 off)
  then show ?case by simp
next
  case (4 off x xs)
  let ?d = "sdata x" and ?ds = "concat (map sdata xs)"
  have split: "take (length ?d) (drop off s) = ?d \<and> take (length ?ds) (drop (off + length ?d) s) = ?ds"
    using 4(3,4) by (simp add: take_add add.commute append_eq_append_conv)
  have next_hd: "heads_list (off + length ?d) xs @ hs \<noteq> [] \<Longrightarrow>
      off + length ?d \<le> offset (hd (heads_list (off + length ?d) xs @ hs))"
    using 4(5) by (intro heads_hd) (auto simp: add.assoc)
  have "toBytes_loop s (heads off x @ heads_list (off + length ?d) xs @ hs) off [] =
      wire x @ toBytes_loop s (heads_list (off + length ?d) xs @ hs) (off + length ?d) []"
    using split 4(4) next_hd by (intro 4(1)) auto
  also have "toBytes_loop s (heads_list (off + length ?d) xs @ hs) (off + length ?d) [] =
      concat (map wire xs) @ toBytes_loop s hs (off + length ?d + length ?ds) []"
    using split 4(4,5) by (intro 4(2)) (auto simp: add.assoc)
  finally show ?case by (simp add: add.assoc)
qed

lemma EncodeToBytes_wire: "EncodeToBytes x = wire x"
  using toBytes_loop_rlp(1) [of x 0 "sdata x" "[]"] write_buffer(1) [of x encbuf_reset]
  by (simp add: EncodeToBytes_def toBytes_def encbuf_reset_def)

text \<open>As long as the sizes fit into 64 bits the counted sizes are those of the encoding.\<close>

lemma length_puthead: "n < 2 ^ 64 \<Longrightarrow> length (puthead a b n) = headsize n"
  by (simp add: puthead_def headsize_def Let_def putint_props(2))

lemma length_puthead_large: "2 ^ 64 \<le> n \<Longrightarrow> length (puthead a b n) = 9"
  by (simp add: puthead_def Let_def putint_def)

lemma size_small:
  "length (rlp x) < 2 ^ 64 \<Longrightarrow> length (rlp x) = length (sdata x) + hsize x \<and> wire x = rlp x"
proof (induction x)
  case (Lst xs)
  then have small: "length (payload xs) < 2 ^ 64"
    by (simp add: Let_def)
  have "length (payload ys) = psize ys \<and> concat (map wire ys) = payload ys"
    if "set ys \<subseteq> set xs" "length (payload ys) < 2 ^ 64" for ys
    using that by (induction ys) (use Lst.IH in auto)
  from this [OF subset_refl small] show ?case
    using small length_puthead [of "psize xs" "0xC0" "0xF7"] by (simp add: Let_def)
qed simp

lemma size_small': "length (sdata x) + hsize x < 2 ^ 64 \<Longrightarrow> length (rlp x) = length (sdata x) + hsize x"
proof (induction x)
  case (Lst xs)
  then have small: "psize xs < 2 ^ 64"
    by simp
  have "length (payload ys) = psize ys" if "set ys \<subseteq> set xs" "psize ys < 2 ^ 64" for ys
    using that by (induction ys) (use Lst.IH in auto)
  from this [OF subset_refl small] show ?case
    using small length_puthead [of "psize xs" "0xC0" "0xF7"] by (simp add: Let_def)
qed simp

lemma length_wire: "length (wire x) = length (rlp x)"
proof (induction x)
  case (Lst xs)
  have size: "length (payload ys) < 2 ^ 64 \<or> psize ys < 2 ^ 64 \<Longrightarrow> length (payload ys) = psize ys" for ys
  proof (induction ys)
    case (Cons y ys)
    then show ?case
      using size_small [of y] size_small' [of y] by auto
  qed simp
  have "length (puthead 0xC0 0xF7 (psize xs)) = length (puthead 0xC0 0xF7 (length (payload xs)))"
    using size [of xs]
    by (cases "length (payload xs) < 2 ^ 64 \<or> psize xs < 2 ^ 64") (simp_all add: length_puthead_large not_less)
  moreover have "length (concat (map wire ys)) = length (payload ys)" if "set ys \<subseteq> set xs" for ys
    using that by (induction ys) (use Lst.IH in auto)
  ultimately show ?case
    by (simp add: Let_def)
qed simp

lemma EncodeToBytes_rlp: "length (rlp x) < 2 ^ 64 \<Longrightarrow> EncodeToBytes x = rlp x"
  using size_small [of x] by (simp add: EncodeToBytes_wire)

lemma length_EncodeToBytes: "length (EncodeToBytes x) = length (rlp x)"
  by (simp add: EncodeToBytes_wire length_wire)

text \<open>
  C14. The encoder writes the string data first, keeps the list headers aside and merges them in at
  the end.  The result is the reference encoding with every header in front of its payload, and
  the size the buffer announces is the number of bytes it then produces.
\<close>

theorem EncodeToBytes_correct:
  assumes "length (rlp x) < 2 ^ 64"
  shows "EncodeToBytes x = rlp x \<and>
    encbuf_size (writeInterface x encbuf_reset) = length (EncodeToBytes x)"
  using EncodeToBytes_rlp [OF assms] write_buffer(1) [of x encbuf_reset] size_small [OF assms]
  by (simp add: encbuf_size_def encbuf_reset_def)

theorem EncodeToBytes_correct_witness:
  "length (rlp (Lst [Str [0x83, 2], Lst []])) < 2 ^ 64 \<and>
   EncodeToBytes (Lst [Str [0x83, 2], Lst []]) = [0xC4, 0x82, 0x83, 2, 0xC0]"
  using EncodeToBytes_correct [of "Lst [Str [0x83, 2], Lst []]"] by (simp add: puthead_def)

section \<open>Reading from a stream\<close>

text \<open>What a successful read of \<open>n\<close> bytes does, and when there is room for it.\<close>

definition bump :: "nat \<Rightarrow> (nat \<times> nat) list \<Rightarrow> (nat \<times> nat) list" where
  "bump n st = (case st of [] \<Rightarrow> [] | (p, q) # st \<Rightarrow> (p + n, q) # st)"

definition eat :: "nat \<Rightarrow> stream \<Rightarrow> stream" where
  "eat n s = s\<lparr>kind := None, rd := drop n (rd s),
     remaining := (if limited s then remaining s - n else remaining s), stack := bump n (stack s)\<rparr>"

definition room :: "nat \<Rightarrow> stream \<Rightarrow> bool" where
  "room n s \<longleftrightarrow> (case stack s of [] \<Rightarrow> True | (p, q) # _ \<Rightarrow> n \<le> q - p)"

definition fits :: "nat \<Rightarrow> stream \<Rightarrow> bool" where
  "fits n s \<longleftrightarrow> n \<le> length (rd s) \<and> (limited s \<longrightarrow> n \<le> remaining s) \<and> room n s"

definition ready :: "stream \<Rightarrow> bool" where
  "ready s \<longleftrightarrow> kind s = None \<and> length (rd s) < 2 ^ 64 \<and> (\<forall>(p, q) \<in> set (stack s). p \<le> q)"

definition at_end :: "stream \<Rightarrow> bool" where
  "at_end s \<longleftrightarrow> (\<exists>p st. stack s = (p, p) # st)"

text \<open>The relation between the streams before and after a value of \<open>n\<close> bytes.\<close>

definition took :: "nat \<Rightarrow> stream \<Rightarrow> stream \<Rightarrow> bool" where
  "took n s s' \<longleftrightarrow>
     kind s' = None \<and> rd s' = drop n (rd s) \<and> limited s' = limited s \<and>
     remaining s' = (if limited s then remaining s - n else remaining s) \<and> stack s' = bump n (stack s)"

lemma bump_bump: "bump n (bump m st) = bump (m + n) st"
  by (auto simp: bump_def split: list.splits)

lemma took_trans: "took m s s' \<Longrightarrow> took n s' s'' \<Longrightarrow> took (m + n) s s''"
  by (auto simp: took_def bump_bump add.commute)

lemma took_ready: "ready s \<Longrightarrow> room n s \<Longrightarrow> took n s s' \<Longrightarrow> ready s'"
  by (auto simp: ready_def room_def took_def bump_def split: list.splits)

lemma took_fits: "fits (m + n) s \<Longrightarrow> took m s s' \<Longrightarrow> fits n s'"
  by (auto simp: fits_def room_def took_def bump_def split: list.splits)

lemma fits_mono: "fits n s \<Longrightarrow> m \<le> n \<Longrightarrow> fits m s"
  by (auto simp: fits_def room_def split: list.splits)

lemma fits_not_at_end: "fits n s \<Longrightarrow> 0 < n \<Longrightarrow> \<not> at_end s"
  by (auto simp: fits_def room_def at_end_def)

definition io_error :: "rlp_error \<Rightarrow> bool" where
  "io_error e \<longleftrightarrow> e \<in> {ErrElemTooLarge, ErrValueTooLarge, ErrUnexpectedEOF, ErrCanonSize, ErrCanonInt,
     io_EOF, ErrExpectedString, ErrExpectedList, errNotAtEOL, errNotInList, errUintOverflow}"

lemma io_errorD: "io_error e \<Longrightarrow> e \<noteq> EOL \<and> e \<noteq> Fuel_Exhausted"
  by (auto simp: io_error_def)

lemma willRead_spec:
  "(room n s \<and> (limited s \<longrightarrow> n \<le> remaining s) \<and>
      willRead n s = (Inr (), s\<lparr>kind := None, stack := bump n (stack s),
        remaining := (if limited s then remaining s - n else remaining s)\<rparr>)) \<or>
   (\<not> (room n s \<and> (limited s \<longrightarrow> n \<le> remaining s)) \<and>
      (\<exists>e s'. willRead n s = (Inl e, s') \<and> e \<in> {ErrElemTooLarge, ErrValueTooLarge}))"
  by (auto simp: willRead_def room_def bump_def Let_def split: list.splits)

lemma readFull_ok: "fits n s \<Longrightarrow> readFull n s = (Inr (take n (rd s)), eat n s)"
  using willRead_spec [of n s] by (auto simp: readFull_def sbind_def fits_def eat_def)

lemma readFull_fail: "\<not> fits n s \<Longrightarrow> \<exists>e s'. readFull n s = (Inl e, s') \<and> io_error e"
  using willRead_spec [of n s] by (auto simp: readFull_def sbind_def fits_def io_error_def)

lemma readFull_error: "readFull n s = (Inl e, s') \<Longrightarrow> io_error e"
  using readFull_ok [of n s] readFull_fail [of n s] by (cases "fits n s") auto

lemma readByte_ok: "fits 1 s \<Longrightarrow> readByte s = (Inr (hd (rd s)), eat 1 s)"
  using willRead_spec [of 1 s]
  by (cases "rd s") (auto simp: readByte_def sbind_def fits_def eat_def)

lemma readByte_fail: "\<not> fits 1 s \<Longrightarrow> \<exists>e s'. readByte s = (Inl e, s') \<and> io_error e"
  using willRead_spec [of 1 s]
  by (cases "rd s") (auto simp: readByte_def sbind_def fits_def io_error_def)

lemma readUint_ok:
  assumes "fits n s" "0 < n"
  shows "readUint n s =
    (if 1 < n \<and> hd (rd s) = 0 then (Inl ErrCanonSize, eat n s) else (Inr (be_val (take n (rd s))), eat n s))"
proof -
  have "rd s \<noteq> []"
    using assms by (auto simp: fits_def)
  then show ?thesis
    using assms by (cases "n = 1")
      (auto simp: readUint_def sbind_def sret_def readByte_ok readFull_ok hd_conv_nth take_Suc)
qed

lemma readUint_fail: "\<not> fits n s \<Longrightarrow> 0 < n \<Longrightarrow> \<exists>e s'. readUint n s = (Inl e, s') \<and> io_error e"
  using readFull_fail [of n s] readByte_fail [of s]
  by (cases "n = 1") (auto simp: readUint_def sbind_def)

section \<open>Headers\<close>

text \<open>The header bytes of a value of a kind and size; \<open>b\<close> is the value of a single byte.\<close>

fun is_head :: "Kind \<Rightarrow> nat \<Rightarrow> byte \<Rightarrow> byte list \<Rightarrow> bool" where
  "is_head Byte sz b h \<longleftrightarrow> sz = 0 \<and> h = [b] \<and> b < 0x80"
| "is_head String sz b h \<longleftrightarrow> sz < 2 ^ 64 \<and> b = 0 \<and> h = puthead 0x80 0xB7 sz"
| "is_head List sz b h \<longleftrightarrow> sz < 2 ^ 64 \<and> b = 0 \<and> h = puthead 0xC0 0xF7 sz"

lemma is_head_nonempty: "is_head k sz b h \<Longrightarrow> h \<noteq> []"
  by (cases k) (auto simp: puthead_def Let_def split: if_splits)

lemma tag_unat: "t + n < 256 \<Longrightarrow> unat (of_nat t + of_nat n :: byte) = t + n"
  unfolding of_nat_add [symmetric] by (simp add: unat_of_nat del: of_nat_add)

lemma tag_less: "(b :: byte) < of_nat t \<longleftrightarrow> unat b < t" if "t < 256"
  using that by (simp add: word_less_nat_alt unat_of_nat)

lemma tag_diff: "unat (b - of_nat t :: byte) = unat b - t" if "t \<le> unat b"
proof -
  have "b - of_nat t = of_nat (unat b - t)"
    using that by (simp add: of_nat_diff)
  then show ?thesis
    using unat_byte_less [of b] by (simp add: unat_of_nat)
qed

lemma of_nat_byte: "of_nat t + of_nat (unat b - t) = (b :: byte)" if "t \<le> unat b"
  using that by (simp add: of_nat_diff)

text \<open>What \<^verbatim>\<open>readKind\<close> does after the first byte, over the number the byte is.\<close>

lemma Stream_readKind_byte:
  assumes "fits 1 s" "hd (rd s) = b" "s1 = (eat 1 s)\<lparr>byteval := 0\<rparr>"
  shows "Stream_readKind s =
    (if unat b < 128 then ((Byte, 0, None), s1\<lparr>byteval := b\<rparr>)
     else if unat b < 184 then ((String, unat b - 128, None), s1)
     else if unat b < 192 then longKind String (unat b - 183) s1
     else if unat b < 248 then ((List, unat b - 192, None), s1)
     else longKind List (unat b - 247) s1)"
  using readByte_ok [OF assms(1)] assms(2,3)
    tag_less [of 128 b] tag_less [of 184 b] tag_less [of 192 b] tag_less [of 248 b]
    tag_diff [of 128 b] tag_diff [of 183 b] tag_diff [of 192 b] tag_diff [of 247 b]
  by (auto simp: Stream_readKind_def Let_def)

lemma eat_eat: "eat n ((eat m s)\<lparr>byteval := b\<rparr>) = (eat (m + n) s)\<lparr>byteval := b\<rparr>"
  by (simp add: eat_def bump_bump add.commute)

lemma took_eat: "took n s (eat n s)" "took n s ((eat n s)\<lparr>byteval := b\<rparr>)"
  by (simp_all add: took_def eat_def)

lemma longKind_ok:
  assumes fits: "fits (1 + n) s" and n: "0 < n" "n \<le> 8" and rd: "rd s = t # bs @ r" "length bs = n"
  shows "longKind k n ((eat 1 s)\<lparr>byteval := 0\<rparr>) =
    (if 1 < n \<and> hd bs = 0 then ((k, 0, Some ErrCanonSize), (eat (1 + n) s)\<lparr>byteval := 0\<rparr>)
     else ((k, be_val bs, if be_val bs < 56 then Some ErrCanonSize else None), (eat (1 + n) s)\<lparr>byteval := 0\<rparr>))"
proof -
  have "fits n ((eat 1 s)\<lparr>byteval := 0\<rparr>)"
    using took_fits [OF fits took_eat(2)] .
  moreover have "rd ((eat 1 s)\<lparr>byteval := 0\<rparr>) = bs @ r" "bs \<noteq> []"
    using rd n by (auto simp: eat_def)
  ultimately show ?thesis
    using rd n by (simp add: longKind_def readUint_ok eat_eat hd_append)
qed

lemma head_long: "56 \<le> sz \<Longrightarrow> puthead a c sz = (c + of_nat (length (putint sz))) # putint sz"
  by (simp add: puthead_def Let_def)

lemma head_short: "sz < 56 \<Longrightarrow> puthead a c sz = [a + of_nat sz]"
  by (simp add: puthead_def)

lemma Stream_readKind_complete:
  assumes h: "is_head k sz b h" and rd: "rd s = h @ r" and fits: "fits (length h) s"
  shows "Stream_readKind s = ((k, sz, None), (eat (length h) s)\<lparr>byteval := b\<rparr>)"
proof -
  have one: "fits 1 s"
    using fits is_head_nonempty [OF h] by (cases h) (auto elim: fits_mono)
  note run = Stream_readKind_byte [OF one refl refl]
  have long: "longKind k' (length (putint sz)) ((eat 1 s)\<lparr>byteval := 0\<rparr>) =
      ((k', sz, None), (eat (length h) s)\<lparr>byteval := 0\<rparr>)"
    if "sz < 2 ^ 64" "56 \<le> sz" "h = t # putint sz" for k' t
    using longKind_ok [of "length (putint sz)" s t "putint sz" r k'] fits rd that
      putint_length [OF that(1)] putint_props [OF that(1)] by simp
  have size: "length (putint sz) \<le> 8" "0 < length (putint sz)" if "sz < 2 ^ 64"
    using putint_length [OF that] by auto
  show ?thesis
  proof (cases k)
    case Byte
    then show ?thesis
      using h rd run by (auto simp: word_less_nat_alt)
  next
    case String
    show ?thesis
    proof (cases "sz < 56")
      case True
      then show ?thesis
        using String h rd run tag_unat [of 128 sz] by (simp add: head_short)
    next
      case False
      then show ?thesis
        using String h rd run tag_unat [of 183 "length (putint sz)"] size long
        by (auto simp: head_long)
    qed
  next
    case List
    show ?thesis
    proof (cases "sz < 56")
      case True
      then show ?thesis
        using List h rd run tag_unat [of 192 sz] by (simp add: head_short)
    next
      case False
      then show ?thesis
        using List h rd run tag_unat [of 247 "length (putint sz)"] size long
        by (auto simp: head_long)
    qed
  qed
qed

lemma longKind_sound:
  assumes "longKind k n ((eat 1 s)\<lparr>byteval := 0\<rparr>) = ((k', sz, None), s1)"
    and one: "fits 1 s" "rd s = t # bs" and n: "0 < n" "n \<le> 8"
  shows "k' = k \<and> 56 \<le> sz \<and> sz < 2 ^ 64 \<and> fits (1 + n) s \<and> rd s = t # putint sz @ drop n bs \<and>
    length (putint sz) = n \<and> s1 = (eat (1 + n) s)\<lparr>byteval := 0\<rparr>"
proof -
  let ?s = "(eat 1 s)\<lparr>byteval := 0\<rparr>"
  have fits: "fits n ?s"
    using assms(1) readUint_fail [of n ?s] n by (fastforce simp: longKind_def split: prod.splits sum.splits)
  then have all: "fits (1 + n) s"
    using one by (auto simp: fits_def room_def eat_def bump_def split: list.splits if_splits)
  have len: "length (take n bs) = n" "rd s = t # take n bs @ drop n bs"
    using all one by (auto simp: fits_def)
  note run = longKind_ok [OF all n len(2,1), of k]
  from assms(1) have sz: "k' = k" "\<not> (1 < n \<and> hd (take n bs) = 0)" "sz = be_val (take n bs)" "56 \<le> sz"
      "s1 = (eat (1 + n) s)\<lparr>byteval := 0\<rparr>"
    unfolding run by (auto split: if_splits)
  have "sz < 2 ^ 64"
    using be_val_less [of "take n bs"] len(1) n(2) power_increasing [of n 8 "256 :: nat"] sz(3) by simp
  moreover have "putint sz = take n bs"
    unfolding sz(3) using len(1) n sz(2) by (intro putint_be_val) auto
  ultimately show ?thesis
    using sz all len by simp
qed

lemma Stream_readKind_fits: "Stream_readKind s = ((k, sz, None), s1) \<Longrightarrow> fits 1 s"
  using readByte_fail [of s] by (cases "fits 1 s") (auto simp: Stream_readKind_def)

text \<open>The bytes a stream has consumed when it recognises a header are that header.\<close>

definition read_head :: "stream \<Rightarrow> Kind \<Rightarrow> nat \<Rightarrow> stream \<Rightarrow> bool" where
  "read_head s k sz s1 \<longleftrightarrow>
     (\<exists>b h r. is_head k sz b h \<and> rd s = h @ r \<and> fits (length h) s \<and> s1 = (eat (length h) s)\<lparr>byteval := b\<rparr>)"

lemma read_head_short:
  assumes "fits 1 s" "rd s = t # bs" "m \<le> unat t" "unat t < m + 56" "a = of_nat m"
    "\<And>h. is_head k (unat t - m) 0 h \<longleftrightarrow> unat t - m < 2 ^ 64 \<and> h = puthead a c (unat t - m)"
  shows "read_head s k (unat t - m) ((eat 1 s)\<lparr>byteval := 0\<rparr>)"
proof -
  have "puthead a c (unat t - m) = [t]"
    using assms(3-5) of_nat_byte [of m t] by (simp add: head_short)
  then show ?thesis
    unfolding read_head_def
    using assms(1,2,6) unat_byte_less [of t]
    by (intro exI [of _ 0] exI [of _ "[t]"] exI [of _ bs]) simp
qed

lemma read_head_long:
  assumes "longKind K (unat t - m) ((eat 1 s)\<lparr>byteval := 0\<rparr>) = ((k, sz, None), s1)"
    and "fits 1 s" "rd s = t # bs" "m < unat t" "unat t \<le> m + 8" "c = of_nat m"
    and "\<And>h. is_head K sz 0 h \<longleftrightarrow> sz < 2 ^ 64 \<and> h = puthead a c sz"
  shows "read_head s k sz s1"
proof -
  have n: "0 < unat t - m" "unat t - m \<le> 8"
    using assms(4,5) by simp_all
  note sound = longKind_sound [OF assms(1-3) n]
  have "puthead a c sz = t # putint sz"
    using sound assms(4,6) of_nat_byte [of m t] by (simp add: head_long)
  then show ?thesis
    unfolding read_head_def using sound assms(7) [of "t # putint sz"]
    by (intro exI [of _ 0] exI [of _ "t # putint sz"] exI [of _ "drop (unat t - m) bs"]) simp
qed

lemma Stream_readKind_sound:
  assumes "Stream_readKind s = ((k, sz, None), s1)"
  shows "read_head s k sz s1"
proof -
  note one = Stream_readKind_fits [OF assms]
  then obtain t bs where rd: "rd s = t # bs"
    by (cases "rd s") (auto simp: fits_def)
  then have b: "hd (rd s) = t"
    by simp
  note run = assms [unfolded Stream_readKind_byte [OF one b refl]]
  have byte: "read_head s Byte 0 ((eat 1 s)\<lparr>byteval := t\<rparr>)" if "unat t < 128"
    unfolding read_head_def using that rd one tag_less [of 128 t]
    by (intro exI [of _ t] exI [of _ "[t]"] exI [of _ bs]) simp
  note short = read_head_short [OF one rd] and long = read_head_long [OF _ one rd]
  consider "unat t < 128" | "128 \<le> unat t \<and> unat t < 184" | "184 \<le> unat t \<and> unat t < 192"
    | "192 \<le> unat t \<and> unat t < 248" | "248 \<le> unat t"
    by linarith
  then show ?thesis
  proof cases
    case 1
    then show ?thesis using run byte by auto
  next
    case 2
    then show ?thesis using run short [of 128 "0x80" String "0xB7"] by auto
  next
    case 3
    then have "longKind String (unat t - 183) ((eat 1 s)\<lparr>byteval := 0\<rparr>) = ((k, sz, None), s1)"
      using run by simp
    then show ?thesis
      by (rule long [of _ _ _ _ _ "0xB7" "0x80"]) (use 3 in auto)
  next
    case 4
    then show ?thesis using run short [of 192 "0xC0" List "0xF7"] by auto
  next
    case 5
    then have "longKind List (unat t - 247) ((eat 1 s)\<lparr>byteval := 0\<rparr>) = ((k, sz, None), s1)"
      using run by simp
    then show ?thesis
      by (rule long [of _ _ _ _ _ "0xF7" "0xC0"]) (use 5 unat_byte_less [of t] in auto)
  qed
qed

lemma longKind_error: "longKind k n s = ((k', sz, Some e), s1) \<Longrightarrow> 0 < n \<Longrightarrow> io_error e"
  using readUint_ok [of n s] readUint_fail [of n s]
  by (cases "fits n s") (auto simp: longKind_def io_error_def split: if_splits)

lemma Stream_readKind_error: "Stream_readKind s = ((k, sz, Some e), s1) \<Longrightarrow> io_error e"
proof (cases "fits 1 s")
  case True
  assume "Stream_readKind s = ((k, sz, Some e), s1)"
  then show ?thesis
    unfolding Stream_readKind_byte [OF True refl refl]
    by (auto split: if_splits intro: longKind_error)
next
  case False
  assume run: "Stream_readKind s = ((k, sz, Some e), s1)"
  obtain e' s' where "readByte s = (Inl e', s')" "io_error e'"
    using readByte_fail [OF False] by blast
  then show ?thesis
    using run by (auto simp: Stream_readKind_def io_error_def split: if_splits)
qed

section \<open>The next value\<close>

definition headed :: "Kind \<Rightarrow> nat \<Rightarrow> byte \<Rightarrow> nat \<Rightarrow> stream \<Rightarrow> stream" where
  "headed k sz b n s = (eat n s)\<lparr>byteval := b, kind := Some k, ahead := sz, kinderr := None\<rparr>"

lemma Stream_Kind_at_end: "kind s = None \<Longrightarrow> at_end s \<Longrightarrow> Stream_Kind s = (Inl EOL, s\<lparr>kinderr := None\<rparr>)"
  by (auto simp: Stream_Kind_def at_end_def Let_def)

lemma Stream_Kind_step:
  assumes "ready s" "\<not> at_end s"
  shows "Stream_Kind s =
    (case Stream_readKind (s\<lparr>kinderr := None\<rparr>) of ((k, sz, err), s) \<Rightarrow>
       let s = s\<lparr>kind := Some k, ahead := sz, kinderr := err\<rparr>
       in case err of
            Some e \<Rightarrow> (Inl e, s)
          | None \<Rightarrow>
              (case stack s of
                 [] \<Rightarrow> if limited s \<and> sz > remaining s
                       then (Inl ErrValueTooLarge, s\<lparr>kinderr := Some ErrValueTooLarge\<rparr>) else (Inr (k, sz), s)
               | (pos, lsz) # _ \<Rightarrow> if sz > lsz - pos
                       then (Inl ErrElemTooLarge, s\<lparr>kinderr := Some ErrElemTooLarge\<rparr>) else (Inr (k, sz), s)))"
proof -
  have "\<not> (stack s \<noteq> [] \<and> fst (hd (stack s)) = snd (hd (stack s)))"
    using assms(2) by (cases "stack s") (auto simp: at_end_def)
  then show ?thesis
    using assms(1)
    by (auto simp: Stream_Kind_def Let_def ready_def split: prod.splits list.splits option.splits)
qed

lemma Stream_Kind_complete:
  assumes "ready s" and h: "is_head k sz b h" "rd s = h @ r" and fits: "fits (length h + sz) s"
  shows "Stream_Kind s = (Inr (k, sz), headed k sz b (length h) s)"
proof -
  let ?s = "s\<lparr>kinderr := None\<rparr>"
  have "fits (length h) ?s"
    using fits_mono [OF fits, of "length h"] by (simp add: fits_def room_def)
  then have "Stream_readKind ?s = ((k, sz, None), (eat (length h) ?s)\<lparr>byteval := b\<rparr>)"
    using Stream_readKind_complete [OF h(1), of ?s r] h(2) by simp
  moreover have "\<not> at_end s"
    using fits fits_not_at_end is_head_nonempty [OF h(1)] by force
  ultimately show ?thesis
    using assms(1) fits
    by (auto simp: Stream_Kind_step Let_def headed_def eat_def bump_def fits_def room_def split: list.splits)
qed

lemma Stream_Kind_sound:
  assumes "ready s" "Stream_Kind s = (Inr (k, sz), s1)"
  obtains b h r where "is_head k sz b h" "rd s = h @ r" "fits (length h) s" "room (length h + sz) s"
    "s1 = headed k sz b (length h) s"
proof -
  let ?s = "s\<lparr>kinderr := None\<rparr>"
  have "\<not> at_end s"
    using assms Stream_Kind_at_end [of s] by (auto simp: ready_def)
  note run = assms(2) [unfolded Stream_Kind_step [OF assms(1) this]]
  then obtain s2 where s2: "Stream_readKind ?s = ((k, sz, None), s2)"
      "s1 = s2\<lparr>kind := Some k, ahead := sz, kinderr := None\<rparr>" "room sz s2"
    by (auto simp: Let_def room_def split: prod.splits option.splits list.splits if_splits)
  obtain b h r where h: "is_head k sz b h" "rd ?s = h @ r" "fits (length h) ?s" "s2 = (eat (length h) ?s)\<lparr>byteval := b\<rparr>"
    using Stream_readKind_sound [OF s2(1)] unfolding read_head_def by blast
  show thesis
  proof
    show "is_head k sz b h" by (rule h(1))
    show "rd s = h @ r" using h(2) by simp
    show "fits (length h) s" using h(3) by (simp add: fits_def room_def)
    show "room (length h + sz) s"
      using h(3,4) s2(3) assms(1)
      by (auto simp: fits_def room_def eat_def bump_def ready_def split: list.splits)
    show "s1 = headed k sz b (length h) s"
      using h(4) s2(2) by (simp add: headed_def eat_def)
  qed
qed

lemma Stream_Kind_error:
  assumes "ready s" "Stream_Kind s = (Inl e, s1)"
  shows "(e = EOL \<and> at_end s) \<or> io_error e"
proof (cases "at_end s")
  case True
  then show ?thesis
    using assms Stream_Kind_at_end by (auto simp: ready_def)
next
  case False
  have "io_error ErrValueTooLarge" "io_error ErrElemTooLarge"
    by (simp_all add: io_error_def)
  then show ?thesis
    using assms(2) [unfolded Stream_Kind_step [OF assms(1) False]] Stream_readKind_error
    by (auto simp: Let_def split: prod.splits option.splits list.splits if_splits)
qed

text \<open>Asking again gives the same answer, so an operation that starts by asking may be entered late.\<close>

lemma Stream_Kind_again: "Stream_Kind (headed k sz b n s) = (Inr (k, sz), headed k sz b n s)"
  by (simp add: Stream_Kind_def headed_def)

lemma took_headed: "took n s ((headed k sz b n s)\<lparr>kind := None\<rparr>)" "took (n + m) s (eat m (headed k sz b n s))"
  by (simp_all add: took_def headed_def eat_def bump_bump add.commute)

lemma headed_fits: "fits (n + m) s \<Longrightarrow> fits m (headed k sz b n s)"
  by (auto simp: fits_def room_def headed_def eat_def bump_def split: list.splits)

section \<open>Byte strings\<close>

lemma byte_le: "(b :: byte) \<le> 0x7F \<longleftrightarrow> b < 0x80"
  by (simp add: word_less_nat_alt word_le_nat_alt) linarith

lemma Stream_Bytes_complete:
  assumes "ready s" "rd s = rlp (Str b) @ r" "fits (length (rlp (Str b))) s"
  shows "\<exists>s'. Stream_Bytes s = (Inr b, s') \<and> took (length (rlp (Str b))) s s'"
proof (cases "length b = 1 \<and> hd b \<le> 0x7F")
  case True
  then obtain x where b: "b = [x]" "x < 0x80" "rlp (Str b) = [x]"
    by (cases b) (auto simp: byte_le)
  have "Stream_Kind s = (Inr (Byte, 0), headed Byte 0 x 1 s)"
    using Stream_Kind_complete [OF assms(1), of Byte 0 x "[x]" r] assms(2,3) b by simp
  then show ?thesis
    using took_headed(1) [of 1 s Byte 0 x] b by (simp add: Stream_Bytes_def sbind_def headed_def)
next
  case False
  let ?h = "puthead 0x80 0xB7 (length b)"
  have enc: "rlp (Str b) = ?h @ b"
    using False by auto
  have "length b < 2 ^ 64"
    using assms(1,2) unfolding enc by (simp add: ready_def)
  then have kind: "Stream_Kind s = (Inr (String, length b), headed String (length b) 0 (length ?h) s)"
    using Stream_Kind_complete [OF assms(1), of String "length b" 0 ?h "b @ r"] assms(2,3) unfolding enc by simp
  let ?s = "headed String (length b) 0 (length ?h) s"
  have "fits (length b) ?s"
    using assms(3) unfolding enc by (intro headed_fits) simp
  moreover have "take (length b) (rd ?s) = b"
    using assms(2) unfolding enc by (simp add: headed_def eat_def)
  moreover have "\<not> (length b = 1 \<and> b ! 0 < 128)"
    using False byte_le [of "hd b"] by (cases b) auto
  ultimately show ?thesis
    using kind took_headed(2) [of "length ?h" "length b" s String "length b" 0] unfolding enc
    by (simp add: Stream_Bytes_def sbind_def readFull_ok)
qed

lemma Stream_Bytes_sound:
  assumes "ready s" "Stream_Bytes s = (Inr b, s')"
  shows "\<exists>r. rd s = rlp (Str b) @ r \<and> room (length (rlp (Str b))) s \<and> took (length (rlp (Str b))) s s'"
proof -
  obtain k sz s1 where kind: "Stream_Kind s = (Inr (k, sz), s1)"
    using assms(2) by (auto simp: Stream_Bytes_def sbind_def split: prod.splits sum.splits)
  from Stream_Kind_sound [OF assms(1) kind] obtain x h r where
    h: "is_head k sz x h" "rd s = h @ r" "fits (length h) s" "room (length h + sz) s" "s1 = headed k sz x (length h) s"
    by blast
  show ?thesis
  proof (cases k)
    case Byte
    then show ?thesis
      using assms(2) kind h took_headed(1) [of 1 s Byte 0 x]
      by (auto simp: Stream_Bytes_def sbind_def byte_le headed_def)
  next
    case String
    have "fits sz s1"
    proof (rule ccontr)
      assume "\<not> fits sz s1"
      then show False
        using assms(2) kind String readFull_fail [of sz s1] by (auto simp: Stream_Bytes_def sbind_def)
    qed
    then have b: "b = take sz (rd s1)" "s' = eat sz s1" "\<not> (sz = 1 \<and> b ! 0 < 128)" "length b = sz"
      using assms(2) kind String
      by (auto simp: Stream_Bytes_def sbind_def readFull_ok fits_def split: if_splits)
    have "rlp (Str b) = h @ b"
      using b(3,4) h(1) String byte_le [of "hd b"] by (cases b) auto
    moreover have "r = b @ drop sz r"
      using b(1) h(2,5) by (simp add: headed_def eat_def)
    ultimately show ?thesis
      using h b took_headed(2) [of "length h" sz s String sz x] String by auto
  next
    case List
    then show ?thesis
      using assms(2) kind by (simp add: Stream_Bytes_def sbind_def)
  qed
qed

lemma Stream_Bytes_error:
  assumes "ready s" "Stream_Bytes s = (Inl e, s')"
  shows "(e = EOL \<and> at_end s) \<or> io_error e"
proof -
  have "io_error ErrCanonSize" "io_error ErrExpectedString"
    by (simp_all add: io_error_def)
  then show ?thesis
    using assms Stream_Kind_error [OF assms(1)] readFull_error
    by (auto simp: Stream_Bytes_def sbind_def split: Kind.splits if_splits prod.splits sum.splits)
qed

section \<open>The contract of a decoder\<close>

text \<open>
  A decoder accepts the encodings of \<open>enc\<close> and nothing else, reports the end of the enclosing
  list, and does not run out of fuel on fewer than \<open>N\<close> bytes.
\<close>

locale codec =
  fixes d :: "'a decoder" and enc :: "'a \<Rightarrow> byte list" and N :: nat
  assumes complete: "\<lbrakk>ready s; length (rd s) < N; rd s = enc x @ r; fits (length (enc x)) s\<rbrakk> \<Longrightarrow>
      \<exists>s'. d s = (Inr x, s') \<and> took (length (enc x)) s s'"
    and sound: "\<lbrakk>ready s; length (rd s) < N; d s = (Inr x, s')\<rbrakk> \<Longrightarrow>
      \<exists>r. rd s = enc x @ r \<and> room (length (enc x)) s \<and> took (length (enc x)) s s'"
    and error: "\<lbrakk>ready s; length (rd s) < N; d s = (Inl e, s')\<rbrakk> \<Longrightarrow>
      e \<noteq> Fuel_Exhausted \<and> (e = EOL \<longrightarrow> at_end s)"
    and ends: "\<lbrakk>ready s; length (rd s) < N; at_end s\<rbrakk> \<Longrightarrow> d s = (Inl EOL, s\<lparr>kinderr := None\<rparr>)"
    and nonempty: "enc x \<noteq> []"
begin

lemma DecodeBytes_iff:
  assumes "length b < N" "length b < 2 ^ 64"
  shows "DecodeBytes d b = Inr x \<longleftrightarrow> b = enc x"
proof -
  let ?s = "Stream_Reset b (length b)"
  have s: "ready ?s" "length (rd ?s) < N" "rd ?s = b" "fits (length b) ?s"
    using assms by (auto simp: Stream_Reset_def ready_def fits_def room_def)
  show ?thesis
  proof
    assume "b = enc x"
    then show "DecodeBytes d b = Inr x"
      using complete [OF s(1,2), of x "[]"] s(3,4) by (auto simp: DecodeBytes_def took_def)
  next
    assume "DecodeBytes d b = Inr x"
    then obtain s' where "d ?s = (Inr x, s')" "rd s' = []"
      by (auto simp: DecodeBytes_def split: prod.splits sum.splits if_splits)
    then show "b = enc x"
      using sound [OF s(1,2)] s(3) by (fastforce simp: took_def)
  qed
qed

lemma DecodeBytes_fuel:
  assumes "length b < N" "length b < 2 ^ 64"
  shows "DecodeBytes d b \<noteq> Inl Fuel_Exhausted"
proof -
  let ?s = "Stream_Reset b (length b)"
  have "ready ?s" "length (rd ?s) < N"
    using assms by (auto simp: Stream_Reset_def ready_def)
  then show ?thesis
    using error [of ?s] by (auto simp: DecodeBytes_def split: prod.splits sum.splits)
qed

end

lemma wrapStreamError_iff [simp]:
  "wrapStreamError e = EOL \<longleftrightarrow> e = EOL" "wrapStreamError e = Fuel_Exhausted \<longleftrightarrow> e = Fuel_Exhausted"
  by (cases e; simp add: wrapStreamError_def)+

interpretation byte_codec: codec decodeByteSlice "\<lambda>b. rlp (Str b)" N for N
proof unfold_locales
  fix s :: stream and e s'
  assume s: "ready s" "decodeByteSlice s = (Inl e, s')"
  then obtain e' where "Stream_Bytes s = (Inl e', s')" "e = wrapStreamError e'"
    by (auto simp: decodeByteSlice_def smap_err_def split: prod.splits sum.splits)
  then show "e \<noteq> Fuel_Exhausted \<and> (e = EOL \<longrightarrow> at_end s)"
    using Stream_Bytes_error [OF s(1)] io_errorD by auto
next
  fix s :: stream
  assume "ready s" "at_end s"
  then show "decodeByteSlice s = (Inl EOL, s\<lparr>kinderr := None\<rparr>)"
    by (simp add: decodeByteSlice_def smap_err_def Stream_Bytes_def sbind_def Stream_Kind_at_end ready_def)
next
  fix s :: stream and x r
  assume "ready s" "rd s = rlp (Str x) @ r" "fits (length (rlp (Str x))) s"
  from Stream_Bytes_complete [OF this]
  show "\<exists>s'. decodeByteSlice s = (Inr x, s') \<and> took (length (rlp (Str x))) s s'"
    by (auto simp: decodeByteSlice_def smap_err_def simp del: rlp.simps)
next
  fix s :: stream and x s'
  assume s: "ready s" "decodeByteSlice s = (Inr x, s')"
  then have "Stream_Bytes s = (Inr x, s')"
    by (auto simp: decodeByteSlice_def smap_err_def split: prod.splits sum.splits)
  with s(1) show "\<exists>r. rd s = rlp (Str x) @ r \<and> room (length (rlp (Str x))) s \<and> took (length (rlp (Str x))) s s'"
    by (rule Stream_Bytes_sound)
next
  show "rlp (Str x) \<noteq> []" for x
    by (auto simp: puthead_def Let_def)
qed

section \<open>Lists\<close>

definition list_enc :: "('a \<Rightarrow> byte list) \<Rightarrow> 'a list \<Rightarrow> byte list" where
  "list_enc enc xs = (let p = concat (map enc xs) in puthead 0xC0 0xF7 (length p) @ p)"

lemma rlp_Lst: "rlp (Lst xs) = list_enc rlp xs"
  by (simp add: list_enc_def)

lemma took_0: "ready s \<Longrightarrow> took 0 s (s\<lparr>kinderr := e\<rparr>)"
  by (simp add: took_def ready_def bump_def split: list.split)

context codec
begin

lemma elems_complete:
  assumes "ready s" "length (rd s) < N" "rd s = concat (map enc xs) @ r" "fits (length (concat (map enc xs))) s"
    "stack s = (p, p + length (concat (map enc xs))) # st" "length xs < fuel"
  shows "\<exists>s'. decodeSliceElems fuel d s = (Inr xs, s') \<and> took (length (concat (map enc xs))) s s'"
  using assms
proof (induction xs arbitrary: s p fuel)
  case Nil
  then have "d s = (Inl EOL, s\<lparr>kinderr := None\<rparr>)"
    by (intro ends) (auto simp: at_end_def)
  then show ?case
    using Nil.prems(6) took_0 [OF Nil.prems(1)] by (cases fuel) auto
next
  case (Cons x xs)
  let ?n = "length (enc x)" and ?m = "length (concat (map enc xs))"
  obtain fuel' where fuel: "fuel = Suc fuel'" "length xs < fuel'"
    using Cons.prems(6) by (cases fuel) auto
  have n: "fits ?n s" "room ?n s" "rd s = enc x @ concat (map enc xs) @ r"
    using Cons.prems(3,4) fits_mono [of "?n + ?m" s ?n] by (auto simp: fits_def)
  then obtain s1 where s1: "d s = (Inr x, s1)" "took ?n s s1"
    using complete [OF Cons.prems(1,2) n(3,1)] by blast
  have "ready s1" "fits ?m s1" "rd s1 = concat (map enc xs) @ r" "stack s1 = (p + ?n, p + ?n + ?m) # st" "length (rd s1) < N"
    using took_ready [OF Cons.prems(1) n(2) s1(2)] took_fits [of ?n ?m s s1] s1(2) Cons.prems(2,4,5) n(3)
    by (auto simp: took_def bump_def)
  then obtain s2 where "decodeSliceElems fuel' d s1 = (Inr xs, s2)" "took ?m s1 s2"
    using Cons.IH [of s1 "p + ?n" fuel'] fuel(2) by auto
  then show ?case
    using s1 fuel(1) took_trans [of ?n s s1 ?m s2] by auto
qed

lemma elems_sound:
  assumes "ready s" "length (rd s) < N" "decodeSliceElems fuel d s = (Inr xs, s')"
  shows "\<exists>r. rd s = concat (map enc xs) @ r \<and> room (length (concat (map enc xs))) s \<and>
    took (length (concat (map enc xs))) s s' \<and> at_end s' \<and> length xs < fuel"
  using assms
proof (induction fuel arbitrary: s xs)
  case (Suc fuel)
  obtain res s1 where step: "d s = (res, s1)"
    by fastforce
  show ?case
  proof (cases res)
    case (Inl e)
    then have "e = EOL" "xs = []" "s' = s1"
      using Suc.prems(3) step by (auto split: if_splits)
    moreover from this Inl have "at_end s"
      using error [OF Suc.prems(1,2)] step by blast
    ultimately show ?thesis
      using ends [OF Suc.prems(1,2)] step took_0 [OF Suc.prems(1)]
      by (auto simp: at_end_def room_def split: list.split)
  next
    case (Inr x)
    let ?n = "length (enc x)"
    obtain r where x: "rd s = enc x @ r" "room ?n s" "took ?n s s1"
      using sound [OF Suc.prems(1,2)] step Inr by blast
    obtain ys where ys: "decodeSliceElems fuel d s1 = (Inr ys, s')" "xs = x # ys"
      using Suc.prems(3) step Inr by (auto split: prod.splits sum.splits)
    have s1: "ready s1" "length (rd s1) < N"
      using took_ready [OF Suc.prems(1) x(2,3)] x(3) Suc.prems(2) by (auto simp: took_def)
    from Suc.IH [OF s1 ys(1)] show ?thesis
      using x ys(2) took_trans [OF x(3), of _ s']
      by (auto simp: took_def room_def bump_def split: list.splits)
  qed
qed simp

lemma elems_error:
  assumes "ready s" "length (rd s) < N" "length (rd s) < fuel" "decodeSliceElems fuel d s = (Inl e, s')"
  shows "e \<noteq> Fuel_Exhausted \<and> e \<noteq> EOL"
  using assms
proof (induction fuel arbitrary: s)
  case (Suc fuel)
  obtain res s1 where step: "d s = (res, s1)"
    by fastforce
  show ?case
  proof (cases res)
    case (Inl e')
    then show ?thesis
      using Suc.prems(4) step error [OF Suc.prems(1,2)] by (auto split: if_splits)
  next
    case (Inr x)
    then obtain r where x: "rd s = enc x @ r" "room (length (enc x)) s" "took (length (enc x)) s s1"
      using sound [OF Suc.prems(1,2)] step by blast
    moreover have "length (rd s1) < length (rd s)"
      using x nonempty [of x] by (cases "enc x") (auto simp: took_def)
    ultimately show ?thesis
      using Suc.IH [OF took_ready [OF Suc.prems(1) x(2,3)]] Suc.prems(2-4) step Inr
      by (auto split: prod.splits sum.splits)
  qed
qed simp

end

declare decodeSliceElems.simps [simp del]

text \<open>The stream inside a list, and leaving it.\<close>

definition opened :: "nat \<Rightarrow> nat \<Rightarrow> stream \<Rightarrow> stream" where
  "opened sz n s =
     (let s = headed List sz 0 n s in s\<lparr>stack := (0, sz) # stack s, kind := None, ahead := 0\<rparr>)"

lemma Stream_List_ok:
  "Stream_Kind s = (Inr (List, sz), headed List sz 0 n s) \<Longrightarrow> Stream_List s = (Inr sz, opened sz n s)"
  by (simp add: Stream_List_def sbind_def opened_def Let_def)

lemma opened_simps [simp]:
  "rd (opened sz n s) = drop n (rd s)" "stack (opened sz n s) = (0, sz) # bump n (stack s)"
  by (simp_all add: opened_def headed_def eat_def Let_def)

lemma opened_ready: "ready s \<Longrightarrow> room n s \<Longrightarrow> ready (opened sz n s)"
  by (auto simp: ready_def room_def opened_def headed_def eat_def bump_def Let_def split: list.splits)

lemma puthead_nonempty: "puthead a c n \<noteq> []"
  by (simp add: puthead_def Let_def)

lemma opened_shorter:
  assumes "rd s = puthead a c k @ r" "length (rd s) < Suc N"
  shows "length (rd (opened sz (length (puthead a c k)) s)) < N"
  using assms puthead_nonempty [of a c k] by (cases "puthead a c k") auto

lemma opened_fits: "fits (n + sz) s \<Longrightarrow> fits sz (opened sz n s)"
  by (auto simp: fits_def room_def opened_def headed_def eat_def Let_def)

lemma ListEnd_ok:
  assumes "took sz (opened sz n s) s2"
  shows "\<exists>s3. Stream_ListEnd s2 = (Inr (), s3) \<and> took (n + sz) s s3"
proof -
  have s2: "stack s2 = (sz, sz) # bump n (stack s)"
    using assms by (simp add: took_def bump_def)
  show ?thesis
    using assms unfolding took_def Stream_ListEnd_def s2
    by (auto simp: opened_def headed_def eat_def Let_def bump_def add.commute split: list.splits)
qed

lemma Stream_List_sound:
  assumes "ready s" "Stream_List s = (Inr sz, s1)"
  obtains r where "sz < 2 ^ 64" "rd s = puthead 0xC0 0xF7 sz @ r" "room (length (puthead 0xC0 0xF7 sz) + sz) s"
    "fits (length (puthead 0xC0 0xF7 sz)) s" "s1 = opened sz (length (puthead 0xC0 0xF7 sz)) s"
proof -
  obtain k s2 where kind: "Stream_Kind s = (Inr (k, sz), s2)" "k = List"
    using assms(2) by (auto simp: Stream_List_def sbind_def split: prod.splits sum.splits if_splits)
  from Stream_Kind_sound [OF assms(1) kind(1)] obtain b h r where
    h: "is_head k sz b h" "rd s = h @ r" "fits (length h) s" "room (length h + sz) s" "s2 = headed k sz b (length h) s" .
  then have "s1 = opened sz (length h) s"
    using assms(2) kind Stream_List_ok [of s sz "length h"] by simp
  then show thesis
    using h kind(2) by (intro that [of r]) auto
qed

lemma Stream_List_error:
  assumes "ready s" "Stream_List s = (Inl e, s1)"
  shows "e = EOL \<and> at_end s \<or> io_error e"
proof -
  have "io_error ErrExpectedList"
    by (simp add: io_error_def)
  then show ?thesis
    using assms Stream_Kind_error [OF assms(1)]
    by (auto simp: Stream_List_def sbind_def split: prod.splits sum.splits if_splits)
qed

lemma Stream_ListEnd_error: "Stream_ListEnd s = (Inl e, s1) \<Longrightarrow> io_error e"
  by (auto simp: Stream_ListEnd_def io_error_def split: list.splits if_splits)

lemma room_mono: "room n s \<Longrightarrow> m \<le> n \<Longrightarrow> room m s"
  by (auto simp: room_def split: list.splits)

context codec
begin

lemma list_complete:
  assumes s: "ready s" "length (rd s) < Suc N" "rd s = list_enc enc xs @ r" "fits (length (list_enc enc xs)) s"
  shows "\<exists>s'. decodeListSlice d s = (Inr xs, s') \<and> took (length (list_enc enc xs)) s s'"
proof -
  define p where "p = concat (map enc xs)"
  let ?h = "puthead 0xC0 0xF7 (length p)"
  let ?n = "length ?h" and ?m = "length p"
  have enc: "list_enc enc xs = ?h @ p"
    by (simp add: list_enc_def Let_def p_def)
  have head: "is_head List ?m 0 ?h" "rd s = ?h @ p @ r" "fits (?n + ?m) s"
    using s(1,3,4) unfolding enc by (auto simp: ready_def)
  have list: "Stream_List s = (Inr ?m, opened ?m ?n s)"
    using Stream_Kind_complete [OF s(1) head(1-3)] by (rule Stream_List_ok)
  have "room ?n s"
    using fits_mono [OF head(3), of ?n] by (simp add: fits_def)
  then have o: "ready (opened ?m ?n s)" "length (rd (opened ?m ?n s)) < N" "rd (opened ?m ?n s) = p @ r"
      "fits ?m (opened ?m ?n s)"
    using opened_ready [OF s(1)] opened_fits [OF head(3)] opened_shorter [OF head(2) s(2)] head(2) by simp_all
  define u where "u = opened ?m ?n s"
  note o = o [folded u_def]
  have "\<exists>s2. (if ?m = 0 then sret [] u else decodeSliceElems (Suc (length (rd u))) d u) = (Inr xs, s2) \<and> took ?m u s2"
  proof (cases "?m = 0")
    case True
    then have "xs = []"
      using nonempty by (cases xs) (auto simp: p_def)
    then show ?thesis
      using True took_0 [OF o(1), of "kinderr u"] by (simp add: sret_def)
  next
    case False
    have "length ys \<le> length (concat (map enc ys))" for ys
    proof (induction ys)
      case (Cons y ys)
      then show ?case using nonempty [of y] by (cases "enc y") auto
    qed simp
    from this [of xs] have "length xs < Suc (length (rd u))"
      unfolding o(3) by (simp add: p_def)
    moreover have "stack u = (0, 0 + ?m) # bump ?n (stack s)"
      by (simp add: u_def)
    ultimately have "\<exists>s2. decodeSliceElems (Suc (length (rd u))) d u = (Inr xs, s2) \<and> took ?m u s2"
      using o(3,4) unfolding p_def by (intro elems_complete [OF o(1,2), of xs r 0]) auto
    then show ?thesis
      using False by (simp only: if_False)
  qed
  then obtain s2 where s2: "(if ?m = 0 then sret [] u else decodeSliceElems (Suc (length (rd u))) d u) = (Inr xs, s2)"
     "took ?m u s2"
    by blast
  then show ?thesis
    using list ListEnd_ok [OF s2(2) [unfolded u_def]] unfolding enc u_def
    by (auto simp: decodeListSlice_def sbind_def smap_err_def sret_def split: if_splits)
qed

lemma list_sound:
  assumes s: "ready s" "length (rd s) < Suc N" "decodeListSlice d s = (Inr xs, s')"
  shows "\<exists>r. rd s = list_enc enc xs @ r \<and> room (length (list_enc enc xs)) s \<and> took (length (list_enc enc xs)) s s'"
proof -
  obtain sz s1 where list: "Stream_List s = (Inr sz, s1)"
    using s(3) by (auto simp: decodeListSlice_def sbind_def smap_err_def split: prod.splits sum.splits)
  let ?h = "puthead 0xC0 0xF7 sz"
  let ?n = "length ?h"
  from Stream_List_sound [OF s(1) list] obtain r where
    h: "rd s = ?h @ r" "room (?n + sz) s" "s1 = opened sz ?n s" .
  have s1: "ready s1" "length (rd s1) < N" "rd s1 = r"
    using opened_ready [OF s(1), of ?n] room_mono [OF h(2), of ?n] opened_shorter [OF h(1) s(2)] h by auto
  obtain s2 where s2: "(if sz = 0 then xs = [] \<and> s2 = s1 else decodeSliceElems (Suc (length (rd s1))) d s1 = (Inr xs, s2))"
    "Stream_ListEnd s2 = (Inr (), s')"
    using s(3) list
    by (auto simp: decodeListSlice_def sbind_def smap_err_def sret_def split: prod.splits sum.splits if_splits)
  have "\<exists>r'. r = concat (map enc xs) @ r' \<and> length (concat (map enc xs)) = sz \<and> took sz s1 s2"
  proof (cases "sz = 0")
    case True
    then show ?thesis
      using s2(1) took_0 [OF s1(1), of "kinderr s1"] by simp
  next
    case False
    then have "decodeSliceElems (Suc (length (rd s1))) d s1 = (Inr xs, s2)"
      using s2(1) by simp
    from elems_sound [OF s1(1,2) this] obtain r' where
      r': "rd s1 = concat (map enc xs) @ r'" "took (length (concat (map enc xs))) s1 s2" "at_end s2"
      by blast
    moreover have "length (concat (map enc xs)) = sz"
      using r'(2,3) h(3) by (auto simp: at_end_def took_def bump_def)
    ultimately show ?thesis
      using s1(3) by auto
  qed
  then obtain r' where p: "r = concat (map enc xs) @ r'" "length (concat (map enc xs)) = sz" "took sz s1 s2"
    by blast
  then have "list_enc enc xs = ?h @ concat (map enc xs)"
    by (simp add: list_enc_def Let_def)
  then show ?thesis
    using ListEnd_ok [of sz ?n s s2] h p s2(2) by auto
qed

lemma list_error:
  assumes s: "ready s" "length (rd s) < Suc N" "decodeListSlice d s = (Inl e, s')"
  shows "e \<noteq> Fuel_Exhausted \<and> (e = EOL \<longrightarrow> at_end s)"
proof (cases "Stream_List s")
  case (Pair res s1)
  show ?thesis
  proof (cases res)
    case (Inl e')
    then show ?thesis
      using Stream_List_error [OF s(1)] Pair s(3) io_errorD [of e']
      by (auto simp: decodeListSlice_def sbind_def smap_err_def)
  next
    case (Inr sz)
    then have list: "Stream_List s = (Inr sz, s1)"
      using Pair by simp
    let ?n = "length (puthead 0xC0 0xF7 sz)"
    from Stream_List_sound [OF s(1) list] obtain r where
      h: "rd s = puthead 0xC0 0xF7 sz @ r" "room (?n + sz) s" "s1 = opened sz ?n s" .
    have "ready s1" "length (rd s1) < N"
      using opened_ready [OF s(1), of ?n] room_mono [OF h(2), of ?n] opened_shorter [OF h(1) s(2)] h by auto
    then show ?thesis
      using s(3) list elems_error [of s1 "Suc (length (rd s1))"] Stream_ListEnd_error io_errorD
      by (fastforce simp: decodeListSlice_def sbind_def smap_err_def sret_def split: prod.splits sum.splits if_splits)
  qed
qed

lemma list_codec: "codec (decodeListSlice d) (list_enc enc) (Suc N)"
proof unfold_locales
  fix s :: stream assume "ready s" "at_end s"
  then show "decodeListSlice d s = (Inl EOL, s\<lparr>kinderr := None\<rparr>)"
    by (simp add: decodeListSlice_def Stream_List_def sbind_def smap_err_def Stream_Kind_at_end ready_def
          wrapStreamError_def)
next
  show "list_enc enc xs \<noteq> []" for xs
    by (auto simp: list_enc_def puthead_def Let_def)
qed (fact list_complete list_sound list_error)+

end

section \<open>Items\<close>

lemma decodeInterface_unfold:
  assumes "ready s"
  shows "decodeInterface (Suc n) s =
    (case Stream_Kind s of
       (Inl e, s1) \<Rightarrow> (Inl e, s1)
     | (Inr (k, _), _) \<Rightarrow>
         if k = List then sbind (decodeListSlice (decodeInterface n)) (\<lambda>xs. sret (Lst xs)) s
         else sbind Stream_Bytes (\<lambda>b. sret (Str b)) s)"
proof (cases "Stream_Kind s")
  case (Pair res s1)
  have "Stream_Kind s1 = (Inr (k, sz), s1)" if "res = Inr (k, sz)" for k sz
    using Stream_Kind_sound [OF assms, of k sz s1] Pair that Stream_Kind_again by metis
  then show ?thesis
    using Pair
    by (cases res) (auto simp: sbind_def decodeListSlice_def smap_err_def Stream_List_def Stream_Bytes_def)
qed

lemma Stream_Kind_of_List: "Stream_List s = (Inr sz, s') \<Longrightarrow> \<exists>s1. Stream_Kind s = (Inr (List, sz), s1)"
  by (auto simp: Stream_List_def sbind_def split: prod.splits sum.splits if_splits)

lemma Stream_Kind_of_Bytes: "Stream_Bytes s = (Inr b, s') \<Longrightarrow> \<exists>k sz s1. Stream_Kind s = (Inr (k, sz), s1) \<and> k \<noteq> List"
  by (auto simp: Stream_Bytes_def sbind_def split: prod.splits sum.splits Kind.splits)

lemma decodeListSlice_kind: "decodeListSlice d s = (Inr xs, s') \<Longrightarrow> \<exists>sz s1. Stream_Kind s = (Inr (List, sz), s1)"
  using Stream_Kind_of_List
  by (fastforce simp: decodeListSlice_def sbind_def smap_err_def split: prod.splits sum.splits)

lemma rlp_nonempty: "rlp x \<noteq> []"
  by (cases x) (auto simp: Let_def puthead_nonempty)

lemma item_codec_step:
  assumes "codec (decodeInterface n) rlp n"
  shows "codec (decodeInterface (Suc n)) rlp (Suc n)"
proof -
  note list = codec.list_codec [OF assms]
  show ?thesis
  proof unfold_locales
    fix s x r
    assume s: "ready s" "length (rd s) < Suc n" "rd s = rlp x @ r" "fits (length (rlp x)) s"
    show "\<exists>s'. decodeInterface (Suc n) s = (Inr x, s') \<and> took (length (rlp x)) s s'"
    proof (cases x)
      case (Str b)
      then obtain s' where "Stream_Bytes s = (Inr b, s')" "took (length (rlp x)) s s'"
        using Stream_Bytes_complete [OF s(1)] s(3,4) by blast
      then show ?thesis
        using Stream_Kind_of_Bytes Str unfolding decodeInterface_unfold [OF s(1)]
        by (fastforce simp: sbind_def sret_def simp del: rlp.simps)
    next
      case (Lst xs)
      then obtain s' where "decodeListSlice (decodeInterface n) s = (Inr xs, s')" "took (length (rlp x)) s s'"
        using codec.complete [OF list s(1,2), of xs r] s(3,4) unfolding Lst rlp_Lst by blast
      then show ?thesis
        using decodeListSlice_kind Lst unfolding decodeInterface_unfold [OF s(1)]
        by (fastforce simp: sbind_def sret_def simp del: rlp.simps)
    qed
  next
    fix s x s'
    assume s: "ready s" "length (rd s) < Suc n" "decodeInterface (Suc n) s = (Inr x, s')"
    from s(3) consider b where "x = Str b" "Stream_Bytes s = (Inr b, s')"
      | xs where "x = Lst xs" "decodeListSlice (decodeInterface n) s = (Inr xs, s')"
      unfolding decodeInterface_unfold [OF s(1)]
      by (auto simp: sbind_def sret_def split: prod.splits sum.splits if_splits)
    then show "\<exists>r. rd s = rlp x @ r \<and> room (length (rlp x)) s \<and> took (length (rlp x)) s s'"
    proof cases
      case 1
      then show ?thesis using Stream_Bytes_sound [OF s(1)] by blast
    next
      case 2
      then show ?thesis using codec.sound [OF list s(1,2)] unfolding 2(1) rlp_Lst by blast
    qed
  next
    fix s e s'
    assume s: "ready s" "length (rd s) < Suc n" "decodeInterface (Suc n) s = (Inl e, s')"
    from s(3) have "Stream_Kind s = (Inl e, s') \<or> Stream_Bytes s = (Inl e, s') \<or>
        decodeListSlice (decodeInterface n) s = (Inl e, s')"
      unfolding decodeInterface_unfold [OF s(1)]
      by (auto simp: sbind_def sret_def split: prod.splits sum.splits if_splits)
    then show "e \<noteq> Fuel_Exhausted \<and> (e = EOL \<longrightarrow> at_end s)"
      using codec.error [OF list s(1,2)] Stream_Kind_error [OF s(1)] Stream_Bytes_error [OF s(1)] io_errorD
      by blast
  next
    fix s assume "ready s" "at_end s"
    then show "decodeInterface (Suc n) s = (Inl EOL, s\<lparr>kinderr := None\<rparr>)"
      by (simp add: sbind_def Stream_Kind_at_end ready_def)
  qed (rule rlp_nonempty)
qed

lemma item_codec_all: "codec (decodeInterface n) rlp n"
proof (induction n)
  case 0
  show ?case
    by unfold_locales (auto simp: rlp_nonempty)
next
  case (Suc n)
  then show ?case by (rule item_codec_step)
qed

interpretation item_codec: codec "decodeInterface n" rlp n for n
  by (rule item_codec_all)

text \<open>
  C13. The streaming decoder accepts an input exactly when it is the reference encoding of an item,
  and returns that item: every encoding is read back, and there is no second encoding of anything
  (no leading zeros in sizes, no long form for a short value, no trailing bytes).
\<close>

theorem DecodeItem_canonical:
  assumes "length b < 2 ^ 64"
  shows "DecodeItem b = Inr x \<longleftrightarrow> b = rlp x"
  unfolding DecodeItem_def by (rule item_codec.DecodeBytes_iff) (use assms in auto)

theorem DecodeItem_canonical_witness:
  "DecodeItem [0xC4, 0x82, 0x83, 2, 0xC0] = Inr (Lst [Str [0x83, 2], Lst []]) \<and>
   DecodeItem [0x81, 2] \<noteq> Inr (Str [2])"
  using DecodeItem_canonical [of "[0xC4, 0x82, 0x83, 2, 0xC0]" "Lst [Str [0x83, 2], Lst []]"]
    DecodeItem_canonical [of "[0x81, 2]" "Str [2]"]
  by (simp add: puthead_def)

text \<open>
  Decoding ends on every input: the recursion over nested lists and the loop over the elements
  of a list never exceed the number of bytes.
\<close>

theorem DecodeBytes_total:
  assumes "length b < 2 ^ 64"
  shows "DecodeItem b \<noteq> Inl Fuel_Exhausted \<and>
    DecodeBytes (decodeListSlice decodeByteSlice) b \<noteq> Inl Fuel_Exhausted"
  unfolding DecodeItem_def
  using item_codec.DecodeBytes_fuel [of b "Suc (length b)"] assms
    codec.DecodeBytes_fuel [OF byte_codec.list_codec, of b "length b"]
  by auto

theorem DecodeBytes_total_witness: "DecodeItem [0xC4, 0xC3, 0xC2] \<noteq> Inl Fuel_Exhausted"
  using DecodeBytes_total [of "[0xC4, 0xC3, 0xC2]"] by simp

section \<open>Reading a slice\<close>

lemma readSize_putint:
  assumes "56 \<le> sz" "sz < 2 ^ 64"
  shows "readSize (putint sz @ r) (length (putint sz)) = Inr sz"
  using putint_props(1,3,4) [OF assms(2)] assms(1)
  by (cases "putint sz") (simp_all add: readSize_def Let_def)

lemma readKind_byte:
  assumes "b = buf ! 0" "buf \<noteq> []"
  shows "readKind buf =
    (let r = (if unat b < 128 then Inr (Byte, 0, 1)
              else if unat b < 184 then
                (if unat b - 128 = 1 \<and> length buf > 1 \<and> buf ! 1 < 128 then Inl ErrCanonSize
                 else Inr (String, 1, unat b - 128))
              else if unat b < 192 then
                (case readSize (tl buf) (unat b - 183) of
                   Inl e \<Rightarrow> Inl e | Inr cs \<Rightarrow> Inr (String, unat b - 183 + 1, cs))
              else if unat b < 248 then Inr (List, 1, unat b - 192)
              else
                (case readSize (tl buf) (unat b - 247) of
                   Inl e \<Rightarrow> Inl e | Inr cs \<Rightarrow> Inr (List, unat b - 247 + 1, cs)))
     in case r of
          Inl e \<Rightarrow> Inl e
        | Inr (k, ts, cs) \<Rightarrow> if cs > length buf - ts then Inl ErrValueTooLarge else Inr (k, ts, cs))"
  using assms tag_less [of 128 b] tag_less [of 184 b] tag_less [of 192 b] tag_less [of 248 b]
    tag_diff [of 128 b] tag_diff [of 183 b] tag_diff [of 192 b] tag_diff [of 247 b]
  by (simp add: readKind_def Let_def split: sum.split)

lemma readKind_head:
  assumes "sz < 2 ^ 64" "sz \<le> length r"
  shows "readKind (puthead 0xC0 0xF7 sz @ r) = Inr (List, length (puthead 0xC0 0xF7 sz), sz)" (is ?list)
    and "\<not> (sz = 1 \<and> hd r < 0x80) \<Longrightarrow>
      readKind (puthead 0x80 0xB7 sz @ r) = Inr (String, length (puthead 0x80 0xB7 sz), sz)" (is "_ \<Longrightarrow> ?string")
proof -
  note len = putint_length [OF assms(1)]
  show ?list
  proof (cases "sz < 56")
    case True
    then show ?thesis
      using assms(2) tag_unat [of 192 sz] by (simp add: head_short readKind_byte [OF refl])
  next
    case False
    then show ?thesis
      using assms len putint_props(3) [OF assms(1)] tag_unat [of 247 "length (putint sz)"] readSize_putint [of sz r]
      by (simp add: head_long readKind_byte [OF refl])
  qed
  assume canon: "\<not> (sz = 1 \<and> hd r < 0x80)"
  show ?string
  proof (cases "sz < 56")
    case True
    then show ?thesis
      using canon assms(2) tag_unat [of 128 sz]
      by (cases r) (auto simp: head_short readKind_byte [OF refl])
  next
    case False
    then show ?thesis
      using assms len putint_props(3) [OF assms(1)] tag_unat [of 183 "length (putint sz)"] readSize_putint [of sz r]
      by (simp add: head_long readKind_byte [OF refl])
  qed
qed

text \<open>What \<^verbatim>\<open>Split\<close> hands back for an item in front of other bytes.\<close>

fun item_content :: "item \<Rightarrow> Kind \<times> byte list" where
  "item_content (Str b) = (if length b = 1 \<and> hd b \<le> 0x7F then Byte else String, b)"
| "item_content (Lst xs) = (List, payload xs)"

lemma readKind_rlp:
  assumes "length (rlp x) < 2 ^ 64"
  shows "\<exists>ts. readKind (rlp x @ r) = Inr (fst (item_content x), ts, length (snd (item_content x))) \<and>
    rlp x = take ts (rlp x) @ snd (item_content x) \<and> ts + length (snd (item_content x)) = length (rlp x)"
proof (cases x)
  case (Str b)
  show ?thesis
  proof (cases "length b = 1 \<and> hd b \<le> 0x7F")
    case True
    then obtain y where "b = [y]" "unat y < 128"
      using tag_less [of 128 "hd b"] by (cases b) (auto simp: byte_le)
    then show ?thesis
      using Str by (intro exI [of _ 0]) (auto simp: readKind_byte [OF refl] byte_le word_less_nat_alt)
  next
    case False
    then have canon: "\<not> (length b = 1 \<and> hd (b @ r) < 0x80)"
      by (cases b) (auto simp: byte_le)
    have "rlp x = puthead 0x80 0xB7 (length b) @ b"
      using Str False by auto
    then show ?thesis
      using readKind_head(2) [OF _ _ canon] Str False assms
      by (intro exI [of _ "length (puthead 0x80 0xB7 (length b))"]) auto
  qed
next
  case (Lst xs)
  then have "rlp x = puthead 0xC0 0xF7 (length (payload xs)) @ payload xs"
    by (simp add: Let_def)
  then show ?thesis
    using readKind_head(1) [of "length (payload xs)" "payload xs @ r"] Lst assms
    by (intro exI [of _ "length (puthead 0xC0 0xF7 (length (payload xs)))"]) simp
qed

lemma Split_rlp:
  assumes "length (rlp x) < 2 ^ 64"
  shows "Split (rlp x @ r) = Inr (fst (item_content x), snd (item_content x), r)"
proof -
  obtain ts where ts: "readKind (rlp x @ r) = Inr (fst (item_content x), ts, length (snd (item_content x)))"
      "rlp x = take ts (rlp x) @ snd (item_content x)" "ts + length (snd (item_content x)) = length (rlp x)"
    using readKind_rlp [OF assms] by blast
  have "drop ts (rlp x) = snd (item_content x)" "ts \<le> length (rlp x)"
    using ts(2,3) by (metis append_eq_conv_conj append_take_drop_id same_append_eq, linarith)
  then show ?thesis
    using ts(1,3) by (simp add: Split_def)
qed

text \<open>
  The slice reader agrees with the encoder: in front of any bytes \<^verbatim>\<open>Split\<close> separates the
  content of an encoded value from the rest, and \<^verbatim>\<open>CountValues\<close> counts the encoded values.
\<close>

theorem Split_CountValues_rlp:
  assumes "length (concat (map rlp (x # xs))) < 2 ^ 64"
  shows "Split (rlp x @ r) = Inr (fst (item_content x), snd (item_content x), r) \<and>
    CountValues (concat (map rlp (x # xs))) = Inr (length (x # xs))"
proof -
  have "CountValues (payload ys) = Inr (length ys)" if "length (payload ys) < 2 ^ 64" for ys
    using that
  proof (induction ys)
    case (Cons y ys)
    have y: "length (rlp y) < 2 ^ 64"
      using Cons.prems by simp
    obtain ts where "readKind (rlp y @ payload ys) = Inr (fst (item_content y), ts, length (snd (item_content y)))"
        "ts + length (snd (item_content y)) = length (rlp y)"
      using readKind_rlp [OF y, of "payload ys"] by blast
    then show ?case
      using Cons rlp_nonempty [of y] by (subst CountValues.simps) simp
  qed (simp add: CountValues.simps)
  from this [OF assms] show ?thesis
    using assms Split_rlp [of x r] by simp
qed

theorem Split_CountValues_rlp_witness:
  "Split [0x82, 0x83, 2, 0xFF] = Inr (String, [0x83, 2], [0xFF]) \<and>
   CountValues [0x82, 0x83, 2, 0xC0] = Inr 2"
  using Split_CountValues_rlp [of "Str [0x83, 2]" "[Lst []]" "[0xFF]"] by (simp add: puthead_def)

end
