(* ===== verification/Extra_Data.thy ===== *)
theory Extra_Data
  imports Chain_Types Rlp_Codec
begin

text \<open>
  The consensus data in the extra field of a header: what is written is read back and nothing else
  is accepted, the hash of a header does not depend on the committed seals and the validator
  addresses written into it, and the addresses of an epoch survive the way through a header.
  The locale \<open>fields\<close> is the contract of the fields of a structure.
\<close>

section \<open>Structures\<close>

locale fields =
  fixes f :: "'b decoder" and P :: "'b \<Rightarrow> bool" and enc :: "'b \<Rightarrow> byte list" and N :: nat
  assumes fields_complete: "\<lbrakk>P y; ready s; length (rd s) < N; rd s = enc y @ r; fits (length (enc y)) s\<rbrakk> \<Longrightarrow>
      \<exists>s'. f s = (Inr y, s') \<and> took (length (enc y)) s s'"
    and fields_sound: "\<lbrakk>ready s; length (rd s) < N; f s = (Inr y, s')\<rbrakk> \<Longrightarrow>
      P y \<and> (\<exists>r. rd s = enc y @ r \<and> room (length (enc y)) s \<and> took (length (enc y)) s s')"
    and fields_error: "\<lbrakk>ready s; length (rd s) < N; f s = (Inl e, s')\<rbrakk> \<Longrightarrow> e \<noteq> Fuel_Exhausted \<and> e \<noteq> EOL"

lemma took_refl: "ready s \<Longrightarrow> took 0 s s"
  using took_0 [of s "kinderr s"] by simp

lemma fields_sret:
  assumes "\<And>y. P y \<longleftrightarrow> y = v"
  shows "fields (sret v) P (\<lambda>_. []) N"
proof unfold_locales
  fix s :: stream and y s'
  assume "ready s" "sret v s = (Inr y, s')"
  then show "P y \<and> (\<exists>r. rd s = [] @ r \<and> room (length []) s \<and> took (length []) s s')"
    by (auto simp: assms sret_def room_def took_refl split: list.split)
qed (auto simp: assms sret_def took_refl)

lemma took_room:
  "room m s \<Longrightarrow> took m s s' \<Longrightarrow> room n s' \<Longrightarrow> ready s \<Longrightarrow> room (m + n) s"
  by (auto simp: room_def took_def bump_def ready_def split: list.splits)

lemma fields_struct_field:
  assumes d: "codec d encd N" and k: "\<And>x. fields (k x) (\<lambda>y. P y \<and> g y = x) enc N"
  shows "fields (struct_field d k) P (\<lambda>y. encd (g y) @ enc y) N"
proof unfold_locales
  fix y s r
  assume s: "P y" "ready s" "length (rd s) < N" "rd s = (encd (g y) @ enc y) @ r" "fits (length (encd (g y) @ enc y)) s"
  let ?n = "length (encd (g y))"
  have n: "fits ?n s" "room ?n s"
    using fits_mono [OF s(5), of ?n] by (auto simp: fits_def)
  then obtain s1 where s1: "d s = (Inr (g y), s1)" "took ?n s s1"
    using codec.complete [OF d s(2,3), of "g y" "enc y @ r"] s(4) by auto
  have "ready s1" "rd s1 = enc y @ r" "fits (length (enc y)) s1" "length (rd s1) < N"
    using took_ready [OF s(2) n(2) s1(2)] took_fits [of ?n "length (enc y)" s s1] s1(2) s(3-5)
    by (auto simp: took_def)
  then obtain s2 where "k (g y) s1 = (Inr y, s2)" "took (length (enc y)) s1 s2"
    using fields.fields_complete [OF k, of y "g y" s1 r] s(1) by auto
  then show "\<exists>s'. struct_field d k s = (Inr y, s') \<and> took (length (encd (g y) @ enc y)) s s'"
    using s1 took_trans [OF s1(2)] by (auto simp: struct_field_def sbind_def smap_err_def)
next
  fix s y s'
  assume s: "ready s" "length (rd s) < N" "struct_field d k s = (Inr y, s')"
  then obtain x s1 where x: "d s = (Inr x, s1)" "k x s1 = (Inr y, s')"
    by (auto simp: struct_field_def sbind_def smap_err_def split: prod.splits sum.splits)
  obtain r where r: "rd s = encd x @ r" "room (length (encd x)) s" "took (length (encd x)) s s1"
    using codec.sound [OF d s(1,2) x(1)] by blast
  have s1: "ready s1" "length (rd s1) < N"
    using took_ready [OF s(1) r(2,3)] r(3) s(2) by (auto simp: took_def)
  from fields.fields_sound [OF k s1 x(2)] obtain r' where
    y: "P y" "g y = x" "rd s1 = enc y @ r'" "room (length (enc y)) s1" "took (length (enc y)) s1 s'"
    by auto
  moreover have "rd s1 = r"
    using r by (simp add: took_def)
  ultimately show "P y \<and> (\<exists>r. rd s = (encd (g y) @ enc y) @ r \<and> room (length (encd (g y) @ enc y)) s \<and>
      took (length (encd (g y) @ enc y)) s s')"
    using r took_trans [OF r(3) y(5)] took_room [OF r(2,3) y(4) s(1)] by auto
next
  fix s e s'
  assume s: "ready s" "length (rd s) < N" "struct_field d k s = (Inl e, s')"
  show "e \<noteq> Fuel_Exhausted \<and> e \<noteq> EOL"
  proof (cases "d s")
    case (Pair res s1)
    show ?thesis
    proof (cases res)
      case (Inl e')
      then show ?thesis
        using s(3) Pair codec.error [OF d s(1,2)]
        by (auto simp: struct_field_def sbind_def smap_err_def split: if_splits)
    next
      case (Inr x)
      then obtain r where r: "rd s = encd x @ r" "room (length (encd x)) s" "took (length (encd x)) s s1"
        using codec.sound [OF d s(1,2)] Pair by blast
      have "ready s1" "length (rd s1) < N"
        using took_ready [OF s(1) r(2,3)] r(3) s(2) by (auto simp: took_def)
      then show ?thesis
        using fields.fields_error [OF k] s(3) Pair Inr
        by (auto simp: struct_field_def sbind_def smap_err_def)
    qed
  qed
qed

definition struct_enc :: "('b \<Rightarrow> byte list) \<Rightarrow> 'b \<Rightarrow> byte list" where
  "struct_enc enc y = puthead 0xC0 0xF7 (length (enc y)) @ enc y"

lemma struct_complete:
  assumes f: "fields f (\<lambda>_. True) enc N"
    and s: "ready s" "length (rd s) < Suc N" "rd s = struct_enc enc y @ r" "fits (length (struct_enc enc y)) s"
  shows "\<exists>s'. struct_of f s = (Inr y, s') \<and> took (length (struct_enc enc y)) s s'"
proof -
  let ?h = "puthead 0xC0 0xF7 (length (enc y))"
  let ?n = "length ?h" and ?m = "length (enc y)"
  have head: "is_head List ?m 0 ?h" "rd s = ?h @ enc y @ r" "fits (?n + ?m) s"
    using s(1,3,4) by (auto simp: struct_enc_def ready_def)
  have list: "Stream_List s = (Inr ?m, opened ?m ?n s)"
    using Stream_Kind_complete [OF s(1) head] by (rule Stream_List_ok)
  have "room ?n s"
    using fits_mono [OF head(3), of ?n] by (simp add: fits_def)
  then have "ready (opened ?m ?n s)" "length (rd (opened ?m ?n s)) < N" "rd (opened ?m ?n s) = enc y @ r"
      "fits ?m (opened ?m ?n s)"
    using opened_ready [OF s(1)] opened_fits [OF head(3)] opened_shorter [OF head(2) s(2)] head(2) by simp_all
  then obtain s2 where s2: "f (opened ?m ?n s) = (Inr y, s2)" "took ?m (opened ?m ?n s) s2"
    using fields.fields_complete [OF f] by blast
  then show ?thesis
    using list ListEnd_ok [OF s2(2)]
    by (auto simp: struct_of_def struct_enc_def sbind_def smap_err_def sret_def)
qed

lemma struct_sound:
  assumes f: "fields f (\<lambda>_. True) enc N"
    and s: "ready s" "length (rd s) < Suc N" "struct_of f s = (Inr y, s')"
  shows "\<exists>r. rd s = struct_enc enc y @ r \<and> room (length (struct_enc enc y)) s \<and> took (length (struct_enc enc y)) s s'"
proof -
  obtain sz s1 s2 where run: "Stream_List s = (Inr sz, s1)" "f s1 = (Inr y, s2)" "Stream_ListEnd s2 = (Inr (), s')"
    using s(3) by (auto simp: struct_of_def sbind_def smap_err_def sret_def split: prod.splits sum.splits)
  let ?h = "puthead 0xC0 0xF7 sz"
  let ?n = "length ?h"
  from Stream_List_sound [OF s(1) run(1)] obtain r where
    h: "rd s = ?h @ r" "room (?n + sz) s" "s1 = opened sz ?n s" .
  have s1: "ready s1" "length (rd s1) < N" "rd s1 = r"
    using opened_ready [OF s(1), of ?n] room_mono [OF h(2), of ?n] opened_shorter [OF h(1) s(2)] h by auto
  from fields.fields_sound [OF f s1(1,2) run(2)] obtain r' where
    y: "r = enc y @ r'" "took (length (enc y)) s1 s2"
    using s1(3) by auto
  have "stack s2 = (length (enc y), sz) # bump ?n (stack s)"
    using y(2) h(3) by (simp add: took_def bump_def)
  then have "length (enc y) = sz"
    using run(3) by (auto simp: Stream_ListEnd_def split: if_splits)
  then show ?thesis
    using ListEnd_ok [of sz ?n s s2] h y run(3) by (auto simp: struct_enc_def)
qed

lemma struct_codec:
  assumes f: "fields f (\<lambda>_. True) enc N"
  shows "codec (struct_of f) (struct_enc enc) (Suc N)"
proof unfold_locales
  fix s e s'
  assume s: "ready s" "length (rd s) < Suc N" "struct_of f s = (Inl e, s')"
  show "e \<noteq> Fuel_Exhausted \<and> (e = EOL \<longrightarrow> at_end s)"
  proof (cases "Stream_List s")
    case (Pair res s1)
    show ?thesis
    proof (cases res)
      case (Inl e')
      then show ?thesis
        using Stream_List_error [OF s(1)] Pair s(3) io_errorD [of e']
        by (auto simp: struct_of_def sbind_def smap_err_def)
    next
      case (Inr sz)
      then have list: "Stream_List s = (Inr sz, s1)"
        using Pair by simp
      let ?n = "length (puthead 0xC0 0xF7 sz)"
      from Stream_List_sound [OF s(1) list] obtain r where
        h: "rd s = puthead 0xC0 0xF7 sz @ r" "room (?n + sz) s" "s1 = opened sz ?n s" .
      have "ready s1" "length (rd s1) < N"
        using opened_ready [OF s(1), of ?n] room_mono [OF h(2), of ?n] opened_shorter [OF h(1) s(2)] h by auto
      then show ?thesis
        using s(3) list fields.fields_error [OF f] Stream_ListEnd_error io_errorD
        by (fastforce simp: struct_of_def sbind_def smap_err_def sret_def split: prod.splits sum.splits)
    qed
  qed
next
  fix s :: stream assume "ready s" "at_end s"
  then show "struct_of f s = (Inl EOL, s\<lparr>kinderr := None\<rparr>)"
    by (simp add: struct_of_def Stream_List_def sbind_def smap_err_def Stream_Kind_at_end ready_def
          wrapStreamError_def)
next
  show "struct_enc enc y \<noteq> []" for y
    by (simp add: struct_enc_def puthead_nonempty)
qed (fact struct_complete [OF f] struct_sound [OF f])+

section \<open>The extra data\<close>

definition extra_item :: "TendermintExtra \<Rightarrow> item" where
  "extra_item te = Lst [Str (Seal te), Lst (map Str (CommittedSeal te)), Str (ValidatorAdds te)]"

definition extra_fields :: "TendermintExtra \<Rightarrow> byte list" where
  "extra_fields te = rlp (Str (Seal te)) @ list_enc (\<lambda>b. rlp (Str b)) (CommittedSeal te) @ rlp (Str (ValidatorAdds te))"

interpretation extra_struct: fields
  "struct_field decodeByteSlice (\<lambda>seal.
     struct_field (decodeListSlice decodeByteSlice) (\<lambda>committed.
       struct_field decodeByteSlice (\<lambda>adds.
         sret \<lparr>Seal = seal, CommittedSeal = committed, ValidatorAdds = adds\<rparr>)))"
  "\<lambda>_. True" extra_fields "Suc N" for N
proof -
  have enc: "extra_fields = (\<lambda>te. rlp (Str (Seal te)) @ list_enc (\<lambda>b. rlp (Str b)) (CommittedSeal te) @
      rlp (Str (ValidatorAdds te)) @ [])"
    by (simp add: fun_eq_iff extra_fields_def)
  show "fields (struct_field decodeByteSlice (\<lambda>seal. struct_field (decodeListSlice decodeByteSlice) (\<lambda>committed.
      struct_field decodeByteSlice (\<lambda>adds. sret \<lparr>Seal = seal, CommittedSeal = committed, ValidatorAdds = adds\<rparr>))))
      (\<lambda>_. True) extra_fields (Suc N)"
    unfolding enc
    by (intro fields_struct_field [where g = Seal] fields_struct_field [where g = CommittedSeal]
          fields_struct_field [where g = ValidatorAdds] byte_codec.codec_axioms byte_codec.list_codec fields_sret)
      (auto intro: TendermintExtra.equality)
qed

lemma extra_codec: "codec TendermintExtra_DecodeRLP (\<lambda>te. rlp (extra_item te)) (Suc (Suc N))"
proof -
  have enc: "(\<lambda>te. rlp (extra_item te)) = struct_enc extra_fields"
    by (simp add: fun_eq_iff extra_item_def extra_fields_def struct_enc_def list_enc_def Let_def o_def)
  show ?thesis
    unfolding enc TendermintExtra_DecodeRLP_def by (rule struct_codec [OF extra_struct.fields_axioms])
qed

interpretation extra: codec TendermintExtra_DecodeRLP "\<lambda>te. rlp (extra_item te)" "Suc (Suc N)" for N
  by (rule extra_codec)

lemma TendermintExtra_EncodeRLP_rlp:
  "length (rlp (extra_item te)) < 2 ^ 64 \<Longrightarrow> TendermintExtra_EncodeRLP te = rlp (extra_item te)"
  using EncodeToBytes_rlp [of "extra_item te"] by (simp add: TendermintExtra_EncodeRLP_def extra_item_def)

text \<open>An extra field parses exactly when it is a vanity followed by the encoding of what is parsed.\<close>

lemma ExtractTendermintExtra_iff:
  assumes "length (Extra h) < 2 ^ 64"
  shows "ExtractTendermintExtra h = Inr te \<longleftrightarrow>
    (\<exists>vanity. length vanity = 32 \<and> Extra h = vanity @ rlp (extra_item te))"
proof -
  have "DecodeBytes TendermintExtra_DecodeRLP (drop 32 (Extra h)) = Inr te \<longleftrightarrow> drop 32 (Extra h) = rlp (extra_item te)"
    using assms by (intro extra.DecodeBytes_iff [where N = "length (Extra h)"]) auto
  moreover have "ExtractTendermintExtra h = Inr te \<longleftrightarrow>
      32 \<le> length (Extra h) \<and> DecodeBytes TendermintExtra_DecodeRLP (drop 32 (Extra h)) = Inr te"
    by (auto simp: ExtractTendermintExtra_def split: sum.splits)
  moreover have "(32 \<le> length (Extra h) \<and> drop 32 (Extra h) = x) \<longleftrightarrow>
      (\<exists>vanity. length vanity = 32 \<and> Extra h = vanity @ x)" for x
    by (auto intro: exI [of _ "take 32 (Extra h)"])
  ultimately show ?thesis
    by (simp only:)
qed

lemma extract_put:
  assumes "32 \<le> length (Extra h)" "length (Extra (put_extra h te)) < 2 ^ 64"
  shows "ExtractTendermintExtra (put_extra h te) = Inr te"
proof -
  have "length (rlp (extra_item te)) < 2 ^ 64"
    using assms(2) length_EncodeToBytes [of "extra_item te"]
    by (simp add: put_extra_def TendermintExtra_EncodeRLP_def extra_item_def del: rlp.simps)
  then show ?thesis
    using assms by (subst ExtractTendermintExtra_iff) (auto simp: put_extra_def TendermintExtra_EncodeRLP_rlp)
qed

lemma put_extract:
  assumes "ExtractTendermintExtra h = Inr te" "length (Extra h) < 2 ^ 64"
  shows "put_extra h te = h"
proof -
  obtain vanity where v: "length vanity = 32" "Extra h = vanity @ rlp (extra_item te)"
    using assms ExtractTendermintExtra_iff by blast
  then have "TendermintExtra_EncodeRLP te = rlp (extra_item te)"
    using assms(2) by (intro TendermintExtra_EncodeRLP_rlp) simp
  then show ?thesis
    using v by (simp add: put_extra_def)
qed

text \<open>A header whose extra data holds no seals and no validators.\<close>

definition extra_header :: header where
  "extra_header =
    \<lparr>ParentHash = 0, UncleHash = 0, Coinbase = 0, Root = 0, TxHash = 0, ReceiptHash = 0,
     Bloom = [], Difficulty = Some 1, Number = Some 1, GasLimit = 0, GasUsed = 0, Time = 0,
     Extra = replicate 32 0 @ [0xC3, 0x80, 0xC0, 0x80], MixDigest = 0, Nonce = 0\<rparr>"

lemma extra_header_extract:
  "ExtractTendermintExtra extra_header = Inr \<lparr>Seal = [], CommittedSeal = [], ValidatorAdds = []\<rparr>"
  by (subst ExtractTendermintExtra_iff)
    (auto simp: extra_header_def extra_item_def puthead_def intro: exI [of _ "replicate 32 0"])

section \<open>Hashes\<close>

definition clear_extra :: "bool \<Rightarrow> TendermintExtra \<Rightarrow> TendermintExtra" where
  "clear_extra keepSeal te =
     (if keepSeal then te else te\<lparr>Seal := []\<rparr>)\<lparr>CommittedSeal := [], ValidatorAdds := []\<rparr>"

lemma CopyHeader_extra [simp]:
  "Extra (CopyHeader h) = Extra h" "MixDigest (CopyHeader h) = MixDigest h"
  "CopyHeader (put_extra h te) = put_extra (CopyHeader h) te" "CopyHeader (CopyHeader h) = CopyHeader h"
  by (simp_all add: CopyHeader_def put_extra_def)

lemma ExtractTendermintExtra_copy [simp]: "ExtractTendermintExtra (CopyHeader h) = ExtractTendermintExtra h"
  by (simp add: ExtractTendermintExtra_def)

lemma put_put: "32 \<le> length (Extra h) \<Longrightarrow> put_extra (put_extra h te) te' = put_extra h te'"
  by (simp add: put_extra_def)

lemma ExtractTendermintExtra_length: "ExtractTendermintExtra h = Inr te \<Longrightarrow> 32 \<le> length (Extra h)"
  by (auto simp: ExtractTendermintExtra_def split: if_splits)

lemma filtered_extract:
  "ExtractTendermintExtra h = Inr te \<Longrightarrow>
   TendermintFilteredHeader h keep = Some (put_extra (CopyHeader h) (clear_extra keep te))"
  by (simp add: TendermintFilteredHeader_def clear_extra_def Let_def)

lemma filtered_put:
  assumes "ExtractTendermintExtra h = Inr te" "length (Extra (put_extra h te')) < 2 ^ 64"
    "clear_extra keep te' = clear_extra keep te"
  shows "TendermintFilteredHeader (put_extra h te') keep = TendermintFilteredHeader h keep"
proof -
  note len = ExtractTendermintExtra_length [OF assms(1)]
  have "TendermintFilteredHeader (put_extra h te') keep =
      Some (put_extra (put_extra (CopyHeader h) te') (clear_extra keep te'))"
    using filtered_extract [OF extract_put [OF len assms(2)]] by simp
  also have "\<dots> = TendermintFilteredHeader h keep"
    using filtered_extract [OF assms(1)] assms(3) len by (simp add: put_put)
  finally show ?thesis .
qed

text \<open>The ways of writing into the extra data, over the parsed form.\<close>

lemma WriteCommittedSeals_put:
  "WriteCommittedSeals h seals = Inr h' \<Longrightarrow>
   \<exists>te. ExtractTendermintExtra h = Inr te \<and> h' = put_extra h (te\<lparr>CommittedSeal := seals\<rparr>)"
  by (auto simp: WriteCommittedSeals_def split: if_splits sum.splits)

lemma WriteValSet_put:
  "WriteValSet h vs = Inr h' \<Longrightarrow>
   \<exists>te. ExtractTendermintExtra h = Inr te \<and>
     h' = put_extra h (te\<lparr>ValidatorAdds := EncodeToBytes (Lst (map (\<lambda>a. Str (Address_Bytes a)) vs))\<rparr>)"
  by (auto simp: WriteValSet_def Let_def split: sum.splits)

lemma WriteSeal_put:
  "WriteSeal h seal = Inr h' \<Longrightarrow>
   \<exists>te. ExtractTendermintExtra h = Inr te \<and> h' = put_extra h (te\<lparr>Seal := seal\<rparr>)"
  by (auto simp: WriteSeal_def split: if_splits sum.splits)

lemma Header_Hash_filtered:
  assumes "TendermintFilteredHeader h' True = TendermintFilteredHeader h True" "MixDigest h' = MixDigest h"
    "TendermintFilteredHeader h True \<noteq> None" "MixDigest h = TendermintDigest"
  shows "Header_Hash kec h' = Header_Hash kec h"
  using assms by (auto simp: Header_Hash_def)

lemma MixDigest_put [simp]: "MixDigest (put_extra h te) = MixDigest h"
  by (simp add: put_extra_def)

lemma Header_Hash_WriteCommittedSeals:
  assumes "WriteCommittedSeals h seals = Inr h'" "MixDigest h = TendermintDigest" "length (Extra h') < 2 ^ 64"
  shows "Header_Hash kec h' = Header_Hash kec h"
proof -
  obtain te where te: "ExtractTendermintExtra h = Inr te" "h' = put_extra h (te\<lparr>CommittedSeal := seals\<rparr>)"
    using WriteCommittedSeals_put [OF assms(1)] by blast
  have "TendermintFilteredHeader h' True = TendermintFilteredHeader h True"
    unfolding te(2) using te assms(3) by (intro filtered_put) (auto simp: clear_extra_def)
  then show ?thesis
    using assms(2) te(2) filtered_extract [OF te(1)] by (intro Header_Hash_filtered) auto
qed



section \<open>Addresses of an epoch\<close>

lemma fixed_bytes_Suc: "fixed_bytes (Suc n) v = fixed_bytes n (v div 256) @ [of_nat v]"
proof -
  have "v div 256 ^ (n - i) = v div 256 div 256 ^ (n - 1 - i)" if "i < n" for i
  proof -
    have "n - i = Suc (n - 1 - i)"
      using that by simp
    then show ?thesis
      by (simp add: div_mult2_eq)
  qed
  then show ?thesis
    by (simp add: fixed_bytes_def)
qed

lemma length_fixed_bytes [simp]: "length (fixed_bytes n v) = n"
  by (simp add: fixed_bytes_def)

lemma be_val_fixed_bytes: "be_val (fixed_bytes n v) = v mod 256 ^ n"
proof (induction n arbitrary: v)
  case (Suc n)
  then show ?case
    by (simp add: fixed_bytes_Suc unat_of_nat mod_mult2_eq)
qed (simp add: fixed_bytes_def)

lemma fixed_bytes_be_val: "fixed_bytes (length b) (be_val b) = b"
proof (induction b rule: rev_induct)
  case (snoc x b)
  have "(be_val b * 256 + unat x) div 256 = be_val b"
    using unat_byte_less [of x] by simp
  then show ?case
    using snoc by (simp add: fixed_bytes_Suc of_nat_snoc del: of_nat_add of_nat_mult)
qed (simp add: fixed_bytes_def)

lemma Address_Bytes_inverse: "(of_nat (be_val (Address_Bytes a)) :: address) = a"
proof -
  have "unat a < 2 ^ LENGTH(160)"
    by (rule unsigned_less)
  then have "unat a < 256 ^ 20"
    by simp
  then show ?thesis
    by (simp add: Address_Bytes_def be_val_fixed_bytes)
qed

lemma Address_Bytes_of_bytes:
  assumes "length b = 20"
  shows "Address_Bytes (of_nat (be_val b)) = b"
proof -
  have "be_val b < 2 ^ 160"
    using be_val_less [of b] assms by simp
  then have "unat (of_nat (be_val b) :: address) = be_val b"
    by (simp add: unat_of_nat)
  then show ?thesis
    using fixed_bytes_be_val [of b] assms by (simp add: Address_Bytes_def)
qed

text \<open>An array of twenty bytes is read like a byte string of that length.\<close>

lemma decodeByteArray_Bytes:
  "decodeByteArray 20 s = (Inr b, s') \<longleftrightarrow> Stream_Bytes s = (Inr b, s') \<and> length b = 20"
proof (cases "Stream_Kind s")
  case (Pair res s1)
  show ?thesis
  proof (cases "\<exists>sz. res = Inr (String, sz)")
    case True
    then obtain sz where "res = Inr (String, sz)"
      by blast
    moreover have "length b' = sz" if "readFull sz s1 = (Inr b', s'')" for b' s''
      using that readFull_ok [of sz s1] readFull_fail [of sz s1] by (cases "fits sz s1") (auto simp: fits_def)
    ultimately show ?thesis
      using Pair by (auto simp: decodeByteArray_def Stream_Bytes_def sbind_def split: prod.splits sum.splits if_splits)
  next
    case False
    then show ?thesis
      using Pair by (cases res)
        (auto simp: decodeByteArray_def Stream_Bytes_def sbind_def split: prod.splits sum.splits Kind.splits)
  qed
qed

interpretation address_codec: codec decodeAddress "\<lambda>a. rlp (Str (Address_Bytes a))" N for N
proof unfold_locales
  fix s :: stream and a r
  assume "ready s" "rd s = rlp (Str (Address_Bytes a)) @ r" "fits (length (rlp (Str (Address_Bytes a)))) s"
  then obtain s' where "Stream_Bytes s = (Inr (Address_Bytes a), s')" "took (length (rlp (Str (Address_Bytes a)))) s s'"
    using Stream_Bytes_complete by blast
  then show "\<exists>s'. decodeAddress s = (Inr a, s') \<and> took (length (rlp (Str (Address_Bytes a)))) s s'"
    using decodeByteArray_Bytes [of s "Address_Bytes a" s'] Address_Bytes_inverse [of a]
    by (auto simp: decodeAddress_def sbind_def sret_def Address_Bytes_def simp del: rlp.simps)
next
  fix s :: stream and a s'
  assume s: "ready s" "decodeAddress s = (Inr a, s')"
  then obtain b where "decodeByteArray 20 s = (Inr b, s')" "a = of_nat (be_val b)"
    by (auto simp: decodeAddress_def sbind_def sret_def split: prod.splits sum.splits)
  then show "\<exists>r. rd s = rlp (Str (Address_Bytes a)) @ r \<and> room (length (rlp (Str (Address_Bytes a)))) s \<and>
      took (length (rlp (Str (Address_Bytes a)))) s s'"
    using Stream_Bytes_sound [OF s(1)] Address_Bytes_of_bytes [of b] by (simp add: decodeByteArray_Bytes del: rlp.simps)
next
  fix s :: stream and e s'
  assume s: "ready s" "decodeAddress s = (Inl e, s')"
  have "io_error ErrCanonSize" "io_error ErrExpectedString"
    by (simp_all add: io_error_def)
  then show "e \<noteq> Fuel_Exhausted \<and> (e = EOL \<longrightarrow> at_end s)"
    using s Stream_Kind_error [OF s(1)] readFull_error io_errorD
    by (fastforce simp: decodeAddress_def decodeByteArray_def sbind_def sret_def
          split: Kind.splits prod.splits sum.splits if_splits)
next
  fix s :: stream
  assume "ready s" "at_end s"
  then show "decodeAddress s = (Inl EOL, s\<lparr>kinderr := None\<rparr>)"
    by (simp add: decodeAddress_def decodeByteArray_def sbind_def Stream_Kind_at_end ready_def)
qed (rule rlp_nonempty)

lemma list_enc_rlp: "list_enc (\<lambda>a. rlp (Str (Address_Bytes a))) vs = rlp (Lst (map (\<lambda>a. Str (Address_Bytes a)) vs))"
  by (simp add: list_enc_def o_def)

lemma DecodeBytes_addresses:
  assumes "length b < 2 ^ 64" "b = rlp (Lst (map (\<lambda>a. Str (Address_Bytes a)) vs))"
  shows "DecodeBytes (decodeListSlice decodeAddress) b = Inr vs"
  using codec.DecodeBytes_iff [OF address_codec.list_codec, of b "length b"] assms by (simp add: list_enc_rlp del: rlp.simps)

text \<open>
  C23. The validators an epoch block carries are the ones that were written into its header: reading
  gives the same list back, in the same order.
\<close>

theorem GetValSetAddresses_WriteValSet:
  assumes "WriteValSet h vs = Inr h'" "length (Extra h') < 2 ^ 64"
  shows "GetValSetAddresses h' = Inr vs"
proof -
  let ?x = "Lst (map (\<lambda>a. Str (Address_Bytes a)) vs)"
  obtain te where te: "ExtractTendermintExtra h = Inr te" "h' = put_extra h (te\<lparr>ValidatorAdds := EncodeToBytes ?x\<rparr>)"
    using WriteValSet_put [OF assms(1)] by blast
  let ?te = "te\<lparr>ValidatorAdds := EncodeToBytes ?x\<rparr>"
  have get: "ExtractTendermintExtra h' = Inr ?te"
    using extract_put [OF ExtractTendermintExtra_length [OF te(1)]] assms(2) te(2) by blast
  then obtain vanity where "Extra h' = vanity @ rlp (extra_item ?te)"
    using ExtractTendermintExtra_iff assms(2) by blast
  then have "length (EncodeToBytes ?x) < 2 ^ 64"
    using assms(2) by (simp add: extra_item_def Let_def split: if_splits)
  then have x: "length (rlp ?x) < 2 ^ 64"
    unfolding length_EncodeToBytes .
  show ?thesis
    using get DecodeBytes_addresses [OF x refl] EncodeToBytes_rlp [OF x] rlp_nonempty [of ?x]
    by (simp add: GetValSetAddresses_def del: rlp.simps)
qed

theorem GetValSetAddresses_WriteValSet_witness:
  "\<exists>h'. WriteValSet extra_header [1, 2] = Inr h' \<and> GetValSetAddresses h' = Inr [1, 2]"
proof -
  let ?h = "put_extra extra_header \<lparr>Seal = [], CommittedSeal = [],
    ValidatorAdds = EncodeToBytes (Lst (map (\<lambda>a. Str (Address_Bytes a)) [1, 2]))\<rparr>"
  have wr: "WriteValSet extra_header [1, 2] = Inr ?h"
    by (simp add: WriteValSet_def extra_header_extract)
  have "length (EncodeToBytes (Lst (map (\<lambda>a. Str (Address_Bytes a)) [1, 2]))) = 43"
    unfolding length_EncodeToBytes by (simp add: Address_Bytes_def puthead_def)
  then have "length (Extra ?h) < 2 ^ 64"
    by (simp add: put_extra_def TendermintExtra_EncodeRLP_def length_EncodeToBytes [of "Lst [_, _, _]"]
          extra_header_def puthead_def)
  then show ?thesis
    using GetValSetAddresses_WriteValSet [OF wr] wr by blast
qed

text \<open>
  A proposer's seal covers the header without any seal: writing it does not change what was
  signed, and it is the seal that is later extracted.  Only a seal whose length is a multiple of
  sixty-five is written.
\<close>

theorem WriteSeal_SigHash:
  assumes "WriteSeal h seal = Inr h'" "length (Extra h') < 2 ^ 64"
  shows "SigHash sha h' = SigHash sha h \<and> 65 dvd length seal \<and>
    (\<exists>te. ExtractTendermintExtra h' = Inr te \<and> Seal te = seal)"
proof -
  obtain te where te: "ExtractTendermintExtra h = Inr te" "h' = put_extra h (te\<lparr>Seal := seal\<rparr>)"
    using WriteSeal_put [OF assms(1)] by blast
  have "TendermintFilteredHeader h' False = TendermintFilteredHeader h False"
    unfolding te(2) using te assms(2) by (intro filtered_put) (auto simp: clear_extra_def)
  moreover have "ExtractTendermintExtra h' = Inr (te\<lparr>Seal := seal\<rparr>)"
    using extract_put [OF ExtractTendermintExtra_length [OF te(1)]] assms(2) te(2) by blast
  moreover have "65 dvd length seal"
    using assms(1) by (auto simp: WriteSeal_def split: if_splits)
  ultimately show ?thesis
    by (simp add: SigHash_def)
qed

theorem WriteSeal_SigHash_witness:
  "\<exists>h'. WriteSeal extra_header (replicate 65 7) = Inr h' \<and> SigHash (\<lambda>_. 3) h' = SigHash (\<lambda>_. 3) extra_header"
proof -
  let ?h = "put_extra extra_header \<lparr>Seal = replicate 65 7, CommittedSeal = [], ValidatorAdds = []\<rparr>"
  have wr: "WriteSeal extra_header (replicate 65 7) = Inr ?h"
    by (simp add: WriteSeal_def extra_header_extract)
  have "length (Extra ?h) < 2 ^ 64"
    by (simp add: put_extra_def TendermintExtra_EncodeRLP_def length_EncodeToBytes extra_header_def puthead_def
          putint_def)
  then show ?thesis
    using WriteSeal_SigHash [OF wr] wr by blast
qed

end
