(* ===== verification/Single_Node.thy ===== *)
theory Single_Node
  imports Core_Safety Extra_Data
begin

text \<open>
  A chain with one validator, run from the start of its node to the commit of its first block: the
  state machine of \<open>Core\<close> evaluated on a new block, the timeout of the height, and its own
  proposal, prevote and precommit as they come back from the network.  Every hash is 1 and every
  signature is sixty-five zero bytes.
\<close>

definition one_valset :: defaultSet where
  "one_valset = \<lparr>validators = [1], policy = RoundRobin, proposer = Some 1, setHeight = 0\<rparr>"

definition one_env :: "address \<Rightarrow> env" where
  "one_env a =
    \<lparr>e_Address = a, e_Sign = (\<lambda>_. Some (replicate 65 0)), e_recover = (\<lambda>_ _. Some 1), e_kec = (\<lambda>_. 1),
     e_Validators = (\<lambda>_. one_valset), e_CurrentHead = 0,
     e_VerifyProposalHeader = (\<lambda>h. if MixDigest h = TendermintDigest then None else Some ErrInvalidMixDigest),
     e_VerifyProposalBlock = (\<lambda>_. None), e_timing = DefaultTiming, e_FaultyMode = 0, e_fake = id,
     e_rebroadcast = False, e_now = 0, e_put = Cons\<rparr>"

definition one_block :: block where
  "one_block = \<lparr>block_header = extra_header, uncles = [], transactions = []\<rparr>"

definition one_msg :: "nat \<Rightarrow> body \<Rightarrow> message" where
  "one_msg k b = Message k b 1 (replicate 65 0)"

definition one_proposal :: message where
  "one_proposal = one_msg 0 (Body_Proposal one_block 0 (-1))"

definition one_vote :: "nat \<Rightarrow> message" where
  "one_vote k = one_msg k (Body_Vote 1 1 0 (replicate 65 0))"

definition one_set :: "nat \<Rightarrow> messageSet" where
  "one_set k =
    \<lparr>ms_view = \<lparr>BlockNumber = 1, Round = 0\<rparr>, ms_valSet = one_valset, msgCode = k, messages = [1 \<mapsto> one_vote k],
     voteByAddress = [1 \<mapsto> \<lparr>vBlockHash = 1, vBlockNumber = 1, vRound = 0, vSeal = replicate 65 0\<rparr>],
     voteByBlock = [1 \<mapsto> \<lparr>votes = [Some \<lparr>vBlockHash = 1, vBlockNumber = 1, vRound = 0, vSeal = replicate 65 0\<rparr>],
                          bv_totalReceived = 1\<rparr>],
     maj23 = Some 1, totalReceived = 1\<rparr>"

abbreviation one_timeout :: "int \<Rightarrow> nat \<Rightarrow> timeoutInfo" where
  "one_timeout d st \<equiv> \<lparr>tiDuration = d, tiBlockNumber = 1, tiRound = 0, tiStep = st, tiRetry = 0\<rparr>"

abbreviation one_sent :: "nat \<Rightarrow> message \<Rightarrow> MsgStorageData" where
  "one_sent st m \<equiv> \<lparr>sd_Step = st, sd_Round = 0, sd_Data = Payload_Message m\<rparr>"

abbreviation one_cast :: "nat \<Rightarrow> message \<Rightarrow> effect" where
  "one_cast k m \<equiv> Broadcast 1 0 k (Payload_Message m)"

section \<open>The states of the run\<close>

definition one_core0 :: core where
  "one_core0 = (core_init (one_env 1))\<lparr>outs := [Schedule (one_timeout (- (2 ^ 63)) 1)]\<rparr>"

definition one_core1 :: core where
  "one_core1 = one_core0\<lparr>currentState := SetBlock (Some one_block) (currentState one_core0)\<rparr>"

definition one_core2 :: core where
  "one_core2 = one_core1
    \<lparr>currentState := (currentState one_core1)\<lparr>rs_step := 3\<rparr>, sentMsgStorage := [one_sent 3 one_proposal],
     outs := outs one_core1 @ [Schedule (one_timeout 3000000000 3), one_cast 0 one_proposal]\<rparr>"

definition one_core3 :: core where
  "one_core3 = one_core2
    \<lparr>currentState := (currentState one_core2)
       \<lparr>rs_step := 4, proposalReceived := Some \<lparr>pBlock = one_block, pRound = 0, pPOLRound = -1\<rparr>\<rparr>,
     sentMsgStorage := sentMsgStorage one_core2 @ [one_sent 4 (one_vote 1)],
     outs := outs one_core2 @ [Schedule (one_timeout 6000000000 4), one_cast 1 (one_vote 1)]\<rparr>"

definition one_core4 :: core where
  "one_core4 = one_core3
    \<lparr>currentState := (currentState one_core3)
       \<lparr>rs_step := 6, lockedRound := 0, lockedBlock := Some one_block, validRound := 0,
        validBlock := Some one_block, PrevotesReceived := [0 \<mapsto> one_set 1]\<rparr>,
     sentMsgStorage := sentMsgStorage one_core3 @ [one_sent 6 (one_vote 2)],
     outs := outs one_core3 @ [Schedule (one_timeout 2000000000 6), one_cast 2 (one_vote 2)]\<rparr>"

definition one_commit :: block where
  "one_commit = WithSeal one_block
     (put_extra extra_header \<lparr>Seal = [], CommittedSeal = [replicate 65 0], ValidatorAdds = []\<rparr>)"

definition one_core5 :: core where
  "one_core5 = one_core4
    \<lparr>currentState := (currentState one_core4)
       \<lparr>rs_step := 8, PrecommitsReceived := [0 \<mapsto> one_set 2], commitRound := 0, commitTime := Some 0,
        proposalReceived := Some \<lparr>pBlock = one_block, pRound = 0, pPOLRound = 0\<rparr>\<rparr>,
     outs := outs one_core4 @ [Commit one_commit]\<rparr>"

section \<open>The steps\<close>

lemma one_block_simps [simp]:
  "Block_Number one_block = 1" "Block_Hash (\<lambda>_. 1) b = 1" "Header_Hash (\<lambda>_. 1) h = 1"
  "header_encodable (block_header one_block)" "uncles one_block = []"
  "MixDigest (block_header one_block) = TendermintDigest"
  by (simp_all add: one_block_def Block_Number_def extra_header_def Block_Hash_def Header_Hash_def rlpHash_def
        header_encodable_def bigint_item_def TendermintDigest_def split: option.split)

lemma one_set_simps [simp]:
  "maj23 (one_set k) = Some 1" "totalReceived (one_set k) = 1" "ms_valSet (one_set k) = one_valset"
  "voteByBlock (one_set k) = [1 \<mapsto> \<lparr>votes = [Some \<lparr>vBlockHash = 1, vBlockNumber = 1, vRound = 0,
     vSeal = replicate 65 0\<rparr>], bv_totalReceived = 1\<rparr>]"
  by (simp_all add: one_set_def)

lemma one_majority: "MinMajority \<lparr>validators = [1], policy = RoundRobin, proposer = Some 1, setHeight = 0\<rparr> = 1"
  by (simp add: MinMajority_def valF_def Size_def)

lemmas one_run = ret_def bnd_def get_def modify_def lift_def seqs.simps emit_def update_def Let_def set_valSet_def
  core_init_def getInitializedState_def newRoundState_def SetBlock_def UpdateRoundStep_def ScheduleTimeout_def
  one_valset_def GetByAddress_def NewMsgStorage_def one_msg_def FinalizeMsg_def store_and_broadcast_def
  storeSentMsg_def i64_def one_env_def DefaultTiming_def one_vote_def one_proposal_def reBroadcastMsg_def
  handleEvent_def DecodeMessage_def handleMsgLocked.simps GetAddressFromSignature_def IsProposalComplete_def
  SendVote_def EncodeVote_def DecodeVote_def TwoThirdMajority_def

lemmas one_cores = one_core0_def one_core1_def one_core2_def one_core3_def one_core4_def one_core5_def

lemma one_start: "core_Start (one_env 1) None = Ok () one_core0"
  by (simp add: one_run one_cores core_Start_def startNewRound_def step_duration_def time_Until_def)

lemma one_new_block: "handleEvent (one_env 1) (NewBlockEvent one_block) one_core0 = Ok () one_core1"
  by (simp add: one_run one_cores handleNewBlock_def)

lemma one_propose: "handleEvent (one_env 1) (TimeoutEvent (one_timeout 0 1)) one_core1 = Ok () one_core2"
  by (simp add: one_run one_cores handleTimeout_def enterNewRound_def enterPropose_def setPrecommitWaited_def
        IsProposer_def propose_block_def getDefaultProposal_def defaultDecideProposal_def checkAndFakeProposal_def
        SendPropose_def EncodeProposal_def ProposeTimeout_def)

lemma one_prevote: "handleEvent (one_env 1) (MessageEvent (Payload_Message one_proposal)) one_core2 = Ok () one_core3"
  by (simp add: one_run one_cores handlePropose_def DecodeProposal_def VerifyProposal_def GetProposerAddress_def
        accept_proposal_def SetProposalReceived_def enterPrevote_def defaultDoPrevote_def
        PrevoteCatchupTimeout_def ProposeTimeout_def)

lemma one_AddVote:
  "AddVote (one_vote k) \<lparr>vBlockHash = 1, vBlockNumber = 1, vRound = 0, vSeal = replicate 65 0\<rparr>
     (newMessageSet one_valset k \<lparr>BlockNumber = 1, Round = 0\<rparr>) = Done (Inr True, one_set k)"
  by (simp add: AddVote_def one_set_def newMessageSet_def one_run one_majority addVoteToBlockVote_def Size_def)

lemma one_precommit: "handleEvent (one_env 1) (MessageEvent (Payload_Message (one_vote 1))) one_core3 = Ok () one_core4"
  using one_AddVote [of 1]
  by (simp add: one_run one_cores handlePrevote_def addPrevote_def GetPrevotesByRound_def prevote_majority_def
        prevote_progress_def SetValidRoundAndBlock_def enterPrecommit_def doPrecommit_def POLInfo_def
        SetLockedRoundAndBlock_def PrecommitCatchupTimeout_def PrevoteTimeout_def)

lemma one_sealed:
  "WriteCommittedSeals (Block_Header one_block) [replicate 65 0] =
    Inr (put_extra extra_header \<lparr>Seal = [], CommittedSeal = [replicate 65 0], ValidatorAdds = []\<rparr>)"
proof -
  have "Block_Header one_block = extra_header"
    by (simp add: Block_Header_def one_block_def CopyHeader_def extra_header_def)
  then show ?thesis
    by (simp add: WriteCommittedSeals_def extra_header_extract)
qed

lemma one_decide: "handleEvent (one_env 1) (MessageEvent (Payload_Message (one_vote 2))) one_core4 = Ok () one_core5"
  using one_AddVote [of 2]
  by (simp add: one_run one_cores handlePrecommit_def addPrecommit_def GetPrecommitsByRound_def precommit_progress_def
        enterNewRound_def enterPrecommit_def enterCommit_def commit_proposal_def SetProposalReceived_def
        finalizeCommit_def FinalizeBlock_def one_sealed one_majority one_commit_def)


end
