(* ===== verification/Agreement.thy ===== *)
theory Agreement
  imports Single_Node
begin

text \<open>
  Many nodes: each correct node runs the state machine of \<open>Core\<close> on timeouts, new blocks,
  commits of its chain and messages from the network; the network may lose, repeat, delay and reorder
  messages, and faulty validators may send anything that does not carry the signature of a correct
  one.  The system refines the voting discipline, so correct nodes never commit different blocks at
  one height and never vote twice in a round.
\<close>

section \<open>The system\<close>

text \<open>
  The nodes' cores, the nodes that have panicked, and the ballots of the correct nodes so far, the
  newest first.
\<close>

record system =
  cores :: "address \<Rightarrow> core"
  dead :: "address set"
  ballot_log :: "address log"

definition cast_by :: "address \<Rightarrow> core \<Rightarrow> core \<Rightarrow> address log" where
  "cast_by p c c' = map (Pair p) (rev (drop (length (ballots (outs c))) (ballots (outs c'))))"

definition put_core :: "address \<Rightarrow> core \<Rightarrow> system \<Rightarrow> system" where
  "put_core p c' \<sigma> = \<sigma>\<lparr>cores := (cores \<sigma>)(p := c'), ballot_log := cast_by p (cores \<sigma> p) c' @ ballot_log \<sigma>\<rparr>"

inductive sys_reach :: "world \<Rightarrow> system \<Rightarrow> bool" for w where
  start: "\<forall>p. p \<notin> w_faulty w \<longrightarrow> (\<exists>e. env_in w e \<and> e_Address e = p \<and> core_Start e None = Ok () (cores \<sigma> p)) \<Longrightarrow>
    dead \<sigma> = {} \<Longrightarrow> ballot_log \<sigma> = [] \<Longrightarrow> sys_reach w \<sigma>"
| handle: "sys_reach w \<sigma> \<Longrightarrow> p \<notin> w_faulty w \<Longrightarrow> p \<notin> dead \<sigma> \<Longrightarrow>
    env_in w e \<Longrightarrow> e_Address e = p \<Longrightarrow> event_ok w (ballot_log \<sigma>) e ev \<Longrightarrow>
    handleEvent e ev (cores \<sigma> p) = Ok () c' \<Longrightarrow> sys_reach w (put_core p c' \<sigma>)"
| crash: "sys_reach w \<sigma> \<Longrightarrow> p \<notin> w_faulty w \<Longrightarrow> p \<notin> dead \<sigma> \<Longrightarrow>
    env_in w e \<Longrightarrow> e_Address e = p \<Longrightarrow> event_ok w (ballot_log \<sigma>) e ev \<Longrightarrow>
    handleEvent e ev (cores \<sigma> p) = Panicked msg c' \<Longrightarrow>
    sys_reach w ((put_core p c' \<sigma>)\<lparr>dead := insert p (dead \<sigma>)\<rparr>)"
| restart: "sys_reach w \<sigma> \<Longrightarrow> p \<notin> w_faulty w \<Longrightarrow> p \<notin> dead \<sigma> \<Longrightarrow>
    env_in w e \<Longrightarrow> e_Address e = p \<Longrightarrow> sBlockNumber (currentState (cores \<sigma> p)) \<le> e_CurrentHead e + 1 \<Longrightarrow>
    core_Start e (Some (cores \<sigma> p)) = Ok () c' \<Longrightarrow> sys_reach w (put_core p c' \<sigma>)"

section \<open>Refinement of the voting discipline\<close>

lemma voter_step_mono:
  assumes "voter_step pol prec v cs v'" "\<And>n r x. pol n r x \<Longrightarrow> pol' n r x" "\<And>n r x. prec n r x \<Longrightarrow> prec' n r x"
  shows "voter_step pol' prec' v cs v'"
  using assms by (induction rule: voter_step.induct) (blast intro: voter_step.intros)+

lemma voter_step_cast: "voter_step pol prec v cs v' \<Longrightarrow> v_cast v' = v_cast v @ cs"
  by (induction rule: voter_step.induct) simp_all

lemma vsteps_reach:
  assumes "(vstep w L)\<^sup>*\<^sup>* v v'"
    and "voting_reach (is_quorum (w_valset w) (w_faulty w)) (w_faulty w) vs L" "vs p = v" "p \<notin> w_faulty w"
  shows "\<exists>cs. voting_reach (is_quorum (w_valset w) (w_faulty w)) (w_faulty w) (vs(p := v')) (map (Pair p) (rev cs) @ L) \<and>
    v_cast v' = v_cast v @ cs"
  using assms(1)
proof (induction rule: rtranclp_induct)
  case base
  then show ?case
    using assms(2,3) by (intro exI [of _ "[]"]) (simp add: fun_upd_idem)
next
  case (step v1 v2)
  then obtain cs where cs: "voting_reach (is_quorum (w_valset w) (w_faulty w)) (w_faulty w) (vs(p := v1))
        (map (Pair p) (rev cs) @ L)" "v_cast v1 = v_cast v @ cs"
    by blast
  obtain ds where ds: "voter_step (wsupport w 1 L) (wsupport w 2 L) v1 ds v2"
    using step.hyps(2) by (auto simp: vstep_def)
  let ?L = "map (Pair p) (rev cs) @ L"
  have "voter_step (wsupport w 1 ?L) (wsupport w 2 ?L) ((vs(p := v1)) p) ds v2"
    using voter_step_mono [OF ds] support_mono [of _ _ _ L _ _ _ ?L] by auto
  from voting_reach.step [OF cs(1) assms(4) this, unfolded fun_upd_upd]
  show ?case
    using cs(2) voter_step_cast [OF ds]
    by (intro exI [of _ "cs @ ds"]) (simp only: rev_append map_append append_assoc simp_thms)
qed

lemma authentic_mono: "authentic w L m \<Longrightarrow> set L \<subseteq> set L' \<Longrightarrow> authentic w L' m"
  unfolding authentic_def by blast

lemma votes_wf_mono: "votes_wf w L n k M \<Longrightarrow> set L \<subseteq> set L' \<Longrightarrow> votes_wf w L' n k M"
  unfolding votes_wf_def by blast

lemma core_wf_mono: "core_wf w L c \<Longrightarrow> set L \<subseteq> set L' \<Longrightarrow> core_wf w L' c"
  unfolding core_wf_def state_wf_def using votes_wf_mono authentic_mono by blast

definition sys_inv :: "world \<Rightarrow> system \<Rightarrow> (address \<Rightarrow> voter) \<Rightarrow> bool" where
  "sys_inv w \<sigma> vs \<longleftrightarrow>
     voting_reach (is_quorum (w_valset w) (w_faulty w)) (w_faulty w) vs (ballot_log \<sigma>) \<and>
     (\<forall>p. p \<notin> w_faulty w \<longrightarrow>
        v_cast (vs p) = ballots (outs (cores \<sigma> p)) \<and> commits_decided (w_kec w) (outs (cores \<sigma> p)) (vs p) \<and>
        (p \<notin> dead \<sigma> \<longrightarrow> core_wf w (ballot_log \<sigma>) (cores \<sigma> p) \<and> rel (w_kec w) (cores \<sigma> p) (vs p)))"

text \<open>One node has moved along some steps of the discipline.\<close>

lemma sys_inv_put:
  assumes inv: "sys_inv w \<sigma> vs" and p: "p \<notin> w_faulty w" and steps: "(vstep w (ballot_log \<sigma>))\<^sup>*\<^sup>* (vs p) v'"
    and c': "v_cast v' = ballots (outs c')" "commits_decided (w_kec w) (outs c') v'"
      "p \<notin> D \<Longrightarrow> core_wf w (ballot_log \<sigma>) c' \<and> rel (w_kec w) c' v'" "dead \<sigma> \<subseteq> D"
  shows "sys_inv w ((put_core p c' \<sigma>)\<lparr>dead := D\<rparr>) (vs(p := v'))"
proof -
  obtain cs where cs: "voting_reach (is_quorum (w_valset w) (w_faulty w)) (w_faulty w) (vs(p := v'))
        (map (Pair p) (rev cs) @ ballot_log \<sigma>)" "v_cast v' = v_cast (vs p) @ cs"
    using vsteps_reach [OF steps, of vs p] inv p unfolding sys_inv_def by auto
  have "v_cast (vs p) = ballots (outs (cores \<sigma> p))"
    using inv p by (simp add: sys_inv_def)
  then have log: "cast_by p (cores \<sigma> p) c' = map (Pair p) (rev cs)"
    using c'(1) cs(2) by (metis append_eq_conv_conj cast_by_def)
  show ?thesis
    using inv cs(1) c' core_wf_mono [of w "ballot_log \<sigma>" _ "map (Pair p) (rev cs) @ ballot_log \<sigma>"]
    unfolding sys_inv_def put_core_def log by auto
qed

lemma core_init_wf:
  assumes "env_in w e"
  shows "core_wf w L (core_init e)"
  using assms by (auto simp: core_wf_def core_init_def state_wf_def votes_wf_def getInitializedState_def newRoundState_def env_in_def)

definition start_voter :: "env \<Rightarrow> voter" where
  "start_voter e =
     \<lparr>v_height = e_CurrentHead e + 1, v_round = 0, v_step = 1, v_lock = None, v_polka = {}, v_majority = {},
      v_cast = [], v_decided = []\<rparr>"

lemma core_init_rel: "rel kec (core_init e) (start_voter e)"
  by (auto simp: rel_def core_init_def start_voter_def getInitializedState_def newRoundState_def Let_def abs_lock_def
        majorities_def commits_decided_def)

text \<open>Starting from the head of the chain schedules a timeout and changes nothing else.\<close>

lemma core_Start_init:
  assumes "env_in w e" "core_Start e None = Ok () c"
  shows "core_wf w L c \<and> rel kec c (start_voter e)"
proof -
  have "sBlockNumber (currentState (core_init e)) = e_CurrentHead e + 1"
    by (simp add: core_init_def getInitializedState_def newRoundState_def)
  then have "\<exists>xs. c = (core_init e)\<lparr>outs := xs\<rparr> \<and> ballots xs = [] \<and> (\<forall>b. Commit b \<notin> set xs)"
    using assms(2)
    by (auto simp: core_Start_def startNewRound_def seqs.simps get_def bnd_def ret_def Let_def ScheduleTimeout_def
          emit_def modify_def core_init_def split: option.splits if_splits intro: exI [of _ "[]"])
  then show ?thesis
    using core_init_wf [OF assms(1), of L] core_init_rel [of kec e]
    by (auto simp: core_wf_def rel_def Let_def commits_decided_def core_init_def)
qed

lemma sys_reach_inv:
  assumes "sys_reach w \<sigma>" "world_ok w"
  shows "\<exists>vs. sys_inv w \<sigma> vs"
  using assms(1)
proof (induction rule: sys_reach.induct)
  case (start \<sigma>)
  then obtain es where es: "\<And>p. p \<notin> w_faulty w \<Longrightarrow> env_in w (es p)"
      "\<And>p. p \<notin> w_faulty w \<Longrightarrow> core_Start (es p) None = Ok () (cores \<sigma> p)"
    by metis
  have "voting_reach (is_quorum (w_valset w) (w_faulty w)) (w_faulty w) (\<lambda>p. start_voter (es p)) []"
    by (rule voting_reach.init) (simp add: voter_init_def start_voter_def)
  then have "sys_inv w \<sigma> (\<lambda>p. start_voter (es p))"
    using start.hyps(3) core_Start_init [OF es]
    by (auto simp: sys_inv_def dest: relD(5) simp: rel_def Let_def)
  then show ?case by blast
next
  case (handle \<sigma> p e ev c')
  then obtain vs where vs: "sys_inv w \<sigma> vs" "good w (ballot_log \<sigma>) (vs p) (cores \<sigma> p)"
    by (auto simp: sys_inv_def good_def)
  have "good w (ballot_log \<sigma>) (vs p) c'"
    using wp_OkD [OF keepsD [OF keeps_handleEvent [OF handle.hyps(4) assms(2) handle.hyps(6)] vs(2)] handle.hyps(7)] .
  then obtain v' where "(vstep w (ballot_log \<sigma>))\<^sup>*\<^sup>* (vs p) v'" "core_wf w (ballot_log \<sigma>) c'" "rel (w_kec w) c' v'"
    by (auto simp: good_def)
  then have "sys_inv w ((put_core p c' \<sigma>)\<lparr>dead := dead \<sigma>\<rparr>) (vs(p := v'))"
    by (intro sys_inv_put [OF vs(1) handle.hyps(2)]) (auto dest: relD(5) simp: rel_def Let_def)
  then show ?case
    by (auto simp: put_core_def)
next
  case (crash \<sigma> p e ev msg c')
  then obtain vs where vs: "sys_inv w \<sigma> vs" "good w (ballot_log \<sigma>) (vs p) (cores \<sigma> p)"
    by (auto simp: sys_inv_def good_def)
  have "crashed w (ballot_log \<sigma>) (vs p) c'"
    using wp_PanickedD [OF keepsD [OF keeps_handleEvent [OF crash.hyps(4) assms(2) crash.hyps(6)] vs(2)] crash.hyps(7)] .
  then obtain v' where "(vstep w (ballot_log \<sigma>))\<^sup>*\<^sup>* (vs p) v'" "v_cast v' = ballots (outs c')"
      "commits_decided (w_kec w) (outs c') v'"
    by (auto simp: crashed_def)
  then show ?case
    using sys_inv_put [OF vs(1) crash.hyps(2)] by blast
next
  case (restart \<sigma> p e c')
  then obtain vs where vs: "sys_inv w \<sigma> vs" "good w (ballot_log \<sigma>) (vs p) (cores \<sigma> p)"
    by (auto simp: sys_inv_def good_def)
  have "startNewRound e (cores \<sigma> p) = Ok () c'"
    using restart.hyps(7) by (simp add: core_Start_def)
  then have "good w (ballot_log \<sigma>) (vs p) c'"
    using wp_OkD [OF startNewRound_good [OF restart.hyps(4) vs(2) restart.hyps(6)]] by blast
  then obtain v' where "(vstep w (ballot_log \<sigma>))\<^sup>*\<^sup>* (vs p) v'" "core_wf w (ballot_log \<sigma>) c'" "rel (w_kec w) c' v'"
    by (auto simp: good_def)
  then have "sys_inv w ((put_core p c' \<sigma>)\<lparr>dead := dead \<sigma>\<rparr>) (vs(p := v'))"
    by (intro sys_inv_put [OF vs(1) restart.hyps(2)]) (auto dest: relD(5) simp: rel_def Let_def)
  then show ?case
    by (auto simp: put_core_def)
qed

section \<open>Agreement\<close>

lemma Header_Hash_copy:
  "ExtractTendermintExtra h = Inr te \<Longrightarrow> MixDigest h = TendermintDigest \<Longrightarrow>
   Header_Hash kec (CopyHeader h) = Header_Hash kec h"
  by (simp add: Header_Hash_def TendermintFilteredHeader_def Let_def)

lemma sealed_from_hash:
  assumes "sealed_from kec x b" "length (Extra (block_header b)) < 2 ^ 64"
  shows "Block_Hash kec b = x"
proof -
  obtain b0 seals hdr where b: "Block_Hash kec b0 = x" "MixDigest (block_header b0) = TendermintDigest"
      "WriteCommittedSeals (Block_Header b0) seals = Inr hdr" "b = WithSeal b0 hdr"
    using assms(1) by (auto simp: sealed_from_def)
  obtain te where "ExtractTendermintExtra (block_header b0) = Inr te"
    using WriteCommittedSeals_put [OF b(3)] by (auto simp: Block_Header_def)
  then have "Header_Hash kec (Block_Header b0) = x"
    using Header_Hash_copy b(1,2) by (simp add: Block_Hash_def Block_Header_def)
  then show ?thesis
    using Header_Hash_WriteCommittedSeals [OF b(3)] b(2,4) assms(2)
    by (simp add: Block_Hash_def WithSeal_def)
qed

text \<open>
  C1. Agreement: if at most a third of the validators of every height are faulty, two correct nodes
  never commit blocks with different hashes at the same height, whatever the network and the faulty
  validators do, and even when some of the correct nodes have panicked since.
\<close>

theorem agreement:
  assumes "sys_reach w \<sigma>" "world_ok w" "p \<notin> w_faulty w" "q \<notin> w_faulty w"
    and "Commit b \<in> set (outs (cores \<sigma> p))" "Commit b' \<in> set (outs (cores \<sigma> q))"
    and "Block_Number b = Block_Number b'"
    and "length (Extra (block_header b)) < 2 ^ 64" "length (Extra (block_header b')) < 2 ^ 64"
  shows "Block_Hash (w_kec w) b = Block_Hash (w_kec w) b'"
proof -
  obtain vs where vs: "sys_inv w \<sigma> vs"
    using sys_reach_inv [OF assms(1,2)] by blast
  then have dec: "commits_decided (w_kec w) (outs (cores \<sigma> p)) (vs p)" "commits_decided (w_kec w) (outs (cores \<sigma> q)) (vs q)"
    using assms(3,4) by (auto simp: sys_inv_def)
  obtain x where "(Block_Number b, x) \<in> set (v_decided (vs p))" "sealed_from (w_kec w) x b"
    using dec(1) assms(5) by (auto simp: commits_decided_def)
  moreover obtain y where "(Block_Number b', y) \<in> set (v_decided (vs q))" "sealed_from (w_kec w) y b'"
    using dec(2) assms(6) by (auto simp: commits_decided_def)
  moreover from calculation have "x = y"
    using vt.decisions_agree assms(3,4,7) vs unfolding sys_inv_def by metis
  ultimately show ?thesis
    using sealed_from_hash assms(8,9) by metis
qed

text \<open>A run of a chain with one validator, in which the validator commits.\<close>

definition one_world :: world where
  "one_world = \<lparr>w_valset = \<lambda>_. one_valset, w_faulty = {}, w_kec = \<lambda>_. 1, w_recover = \<lambda>_ _. Some 1\<rparr>"

lemma one_world_ok: "world_ok one_world" "env_in one_world (one_env a)" "w_faulty one_world = {}" "w_kec one_world = (\<lambda>_. 1)"
  by (auto simp: world_ok_def one_world_def one_valset_def valset_ok_def valF_def Size_def env_in_def one_env_def)

definition one_sys :: "core \<Rightarrow> address log \<Rightarrow> system" where
  "one_sys c L = \<lparr>cores = (\<lambda>p. core_init (one_env p))(1 := c), dead = {}, ballot_log = L\<rparr>"

lemma one_handle:
  assumes "sys_reach one_world (one_sys c L)" "handleEvent (one_env 1) ev c = Ok () c'" "event_ok one_world L (one_env 1) ev"
    "cast_by 1 c c' = B"
  shows "sys_reach one_world (one_sys c' (B @ L))"
  using sys_reach.handle [OF assms(1), of 1 "one_env 1" ev c'] assms(2-4) one_world_ok
  by (simp add: one_sys_def put_core_def one_env_def)

lemma one_authentic:
  "authentic one_world L one_proposal"
  "(1, k, 1, 0, 1) \<in> set L \<Longrightarrow> authentic one_world L (one_vote k)"
  by (auto simp: authentic_def one_proposal_def one_vote_def one_msg_def DecodeVote_def)

lemma one_start_other: "a \<noteq> 1 \<Longrightarrow> core_Start (one_env a) None = Ok () (core_init (one_env a))"
  by (simp add: one_run core_Start_def startNewRound_def step_duration_def)

lemma one_sys_commits: "\<exists>L. sys_reach one_world (one_sys one_core5 L)"
proof -
  have 0: "sys_reach one_world (one_sys one_core0 [])"
  proof (rule sys_reach.start)
    have "e_Address (one_env p) = p \<and> core_Start (one_env p) None = Ok () (cores (one_sys one_core0 []) p)" for p
      using one_start one_start_other [of p] by (cases "p = 1") (simp_all add: one_sys_def, simp_all add: one_env_def)
    then show "\<forall>p. p \<notin> w_faulty one_world \<longrightarrow> (\<exists>e. env_in one_world e \<and> e_Address e = p \<and>
        core_Start e None = Ok () (cores (one_sys one_core0 []) p))"
      using one_world_ok(2) by blast
  qed (simp_all add: one_sys_def)
  have 1: "sys_reach one_world (one_sys one_core1 [])"
    using one_handle [OF 0 one_new_block] by (simp add: event_ok_def cast_by_def one_cores)
  have 2: "sys_reach one_world (one_sys one_core2 [])"
    using one_handle [OF 1 one_propose]
    by (simp add: event_ok_def cast_by_def one_cores one_proposal_def one_msg_def)
  have 3: "sys_reach one_world (one_sys one_core3 [(1, 1, 1, 0, 1)])"
    using one_handle [OF 2 one_prevote] one_authentic
    by (simp add: event_ok_def cast_by_def one_cores one_proposal_def one_vote_def one_msg_def)
  have 4: "sys_reach one_world (one_sys one_core4 [(1, 2, 1, 0, 1), (1, 1, 1, 0, 1)])"
    using one_handle [OF 3 one_precommit] one_authentic(2) [of 1]
    by (simp add: event_ok_def cast_by_def one_cores one_proposal_def one_vote_def one_msg_def)
  show ?thesis
    using one_handle [OF 4 one_decide] one_authentic(2) [of 2]
    by (auto simp: event_ok_def)
qed

theorem agreement_witness:
  "\<exists>\<sigma>. sys_reach one_world \<sigma> \<and> Commit one_commit \<in> set (outs (cores \<sigma> 1)) \<and>
     (\<forall>b. Commit b \<in> set (outs (cores \<sigma> 1)) \<and> Block_Number b = Block_Number one_commit \<and>
        length (Extra (block_header b)) < 2 ^ 64 \<longrightarrow> Block_Hash (w_kec one_world) b = Block_Hash (w_kec one_world) one_commit)"
proof -
  obtain L where L: "sys_reach one_world (one_sys one_core5 L)"
    using one_sys_commits by blast
  have commit: "Commit one_commit \<in> set (outs (cores (one_sys one_core5 L) 1))"
    by (simp add: one_sys_def one_core5_def)
  have "length (Extra (block_header one_commit)) < 2 ^ 64"
    by (simp add: one_commit_def WithSeal_def put_extra_def TendermintExtra_EncodeRLP_def length_EncodeToBytes
          extra_header_def puthead_def putint_def)
  then show ?thesis
    using agreement [OF L one_world_ok(1), of 1 1 _ one_commit] commit L one_world_ok(3) by blast
qed

lemma ballot_of_kind: "(k, n, r, x) \<in> set (ballot_of eff) \<Longrightarrow> k \<in> {1, 2}"
  by (cases eff rule: ballot_of.cases) (auto split: if_splits)

text \<open>
  C2. No equivocation: a correct node never casts two different prevotes or two different precommits
  at one height and round.
\<close>

theorem no_equivocation:
  assumes "sys_reach w \<sigma>" "world_ok w" "p \<notin> w_faulty w"
    and "(k, n, r, x) \<in> set (ballots (outs (cores \<sigma> p)))" "(k, n, r, y) \<in> set (ballots (outs (cores \<sigma> p)))"
  shows "x = y"
proof -
  obtain vs where vs: "sys_inv w \<sigma> vs"
    using sys_reach_inv [OF assms(1,2)] by blast
  then have inv: "voting_inv (is_quorum (w_valset w) (w_faulty w)) (w_faulty w) vs (ballot_log \<sigma>)"
    unfolding sys_inv_def using voting_reach_inv by blast
  have "v_cast (vs p) = ballots (outs (cores \<sigma> p))"
    using vs assms(3) by (simp add: sys_inv_def)
  then have "(p, k, n, r, x) \<in> set (ballot_log \<sigma>)" "(p, k, n, r, y) \<in> set (ballot_log \<sigma>)"
    using inv assms(3-5) by (auto simp: voting_inv_def)
  moreover have "k \<in> {1, 2}"
    using assms(4) by (auto simp: ballots_def simp del: insert_iff dest: ballot_of_kind)
  ultimately show ?thesis
    using good_log_unique [of _ _ "ballot_log \<sigma>" p k n r x y] inv assms(3) unfolding voting_inv_def by blast
qed

theorem no_equivocation_witness:
  "\<exists>\<sigma>. sys_reach one_world \<sigma> \<and> (1, 1, 0, 1) \<in> set (ballots (outs (cores \<sigma> 1))) \<and>
     (\<forall>x. (1, 1, 0, x) \<in> set (ballots (outs (cores \<sigma> 1))) \<longrightarrow> x = 1)"
proof -
  obtain L where L: "sys_reach one_world (one_sys one_core5 L)"
    using one_sys_commits by blast
  have "(1, 1, 0, 1) \<in> set (ballots (outs (cores (one_sys one_core5 L) 1)))"
    by (simp add: one_sys_def one_cores one_proposal_def one_vote_def one_msg_def)
  then show ?thesis
    using no_equivocation [OF L one_world_ok(1), of 1 1 1 0 _ 1] L one_world_ok(3) by blast
qed

text \<open>
  C3. Whatever the event, a node moves from a well-formed state only along steps of the voting
  discipline: the ballots it broadcasts, the lock it holds and the blocks it commits afterwards are
  those of a voter that has taken some discipline steps, and its state is well formed again.
\<close>

theorem handleEvent_refines:
  assumes "env_in w e" "world_ok w" "event_ok w L e ev" "core_wf w L c" "rel (w_kec w) c v"
    "handleEvent e ev c = Ok () c'"
  shows "core_wf w L c' \<and> (\<exists>v'. (vstep w L)\<^sup>*\<^sup>* v v' \<and> rel (w_kec w) c' v')"
proof -
  have "good w L v c"
    using assms(4,5) by (auto simp: good_def)
  then have "good w L v c'"
    using wp_OkD [OF keepsD [OF keeps_handleEvent [OF assms(1-3)]] assms(6)] by blast
  then show ?thesis
    by (simp add: good_def)
qed

theorem handleEvent_refines_witness:
  "\<exists>v v'. rel (\<lambda>_. 1) one_core0 v \<and> (vstep one_world [])\<^sup>*\<^sup>* v v' \<and> rel (\<lambda>_. 1) one_core1 v'"
proof -
  have "core_wf one_world [] one_core0 \<and> rel (\<lambda>_. 1) one_core0 (start_voter (one_env 1))"
    using core_Start_init [OF one_world_ok(2) one_start] by blast
  moreover have "event_ok one_world [] (one_env 1) (NewBlockEvent one_block)"
    by (simp add: event_ok_def)
  ultimately show ?thesis
    using handleEvent_refines [OF one_world_ok(2,1) _ _ _ one_new_block] one_world_ok(4) by metis
qed

end
