(* ===== verification/Core_Total.thy ===== *)
theory Core_Total
  imports Agreement
begin

text \<open>
  The handlers end: the fuel of \<open>handleMsgLocked\<close> and of \<open>processFutureMessages\<close> is always enough.
  The locale \<open>steady\<close> is what a state predicate must allow for every operation of a handler to
  keep it and to end; it is used once for all handlers and once, with the queue of later messages
  held fixed, for the messages taken off that queue.
\<close>

section \<open>Operations that end\<close>

definition ends_in :: "(core \<Rightarrow> bool) \<Rightarrow> 'a handler \<Rightarrow> core \<Rightarrow> bool" where
  "ends_in I m c \<longleftrightarrow> (case m c of Ok _ c' \<Rightarrow> I c' | Panicked _ _ \<Rightarrow> True | Unfinished \<Rightarrow> False)"

definition total :: "(core \<Rightarrow> bool) \<Rightarrow> 'a handler \<Rightarrow> bool" where
  "total I m \<longleftrightarrow> (\<forall>c. I c \<longrightarrow> ends_in I m c)"

named_theorems total_intros \<open>operations that end\<close>

lemma totalD: "total I m \<Longrightarrow> I c \<Longrightarrow> ends_in I m c"
  by (simp add: total_def)

lemma total_ret [total_intros]: "total I (ret x)"
  by (simp add: total_def ends_in_def ret_def)

lemma total_panic [total_intros]: "total I (panic msg)"
  by (simp add: total_def ends_in_def panic_def)

lemma total_bnd:
  assumes "total I m" "\<And>x. total I (f x)"
  shows "total I (bnd m f)"
proof (unfold total_def, intro allI impI)
  fix c assume "I c"
  then have "ends_in I m c"
    using assms(1) by (rule totalD [rotated])
  then show "ends_in I (bnd m f) c"
    using assms(2) by (cases "m c") (auto simp: ends_in_def bnd_def total_def)
qed

lemma total_lift [total_intros]: "m \<noteq> Out_Of_Fuel \<Longrightarrow> total I (lift m)"
  by (cases m) (auto simp: total_def ends_in_def lift_def)

lemma total_lift_bnd:
  assumes "m \<noteq> Out_Of_Fuel" "\<And>x. m = Done x \<Longrightarrow> total I (f x)"
  shows "total I (bnd (lift m) f)"
  using assms by (cases m) (auto simp: total_def ends_in_def bnd_def lift_def)

lemma ends_in_simps [simp]:
  "ends_in I (get f) c = ends_in I (f c) c" "ends_in I (ret x) c = I c"
  "ends_in I (modify u) c = I (u c)"
  "ends_in I (bnd (lift (Done y)) g) c = ends_in I (g y) c"
  by (simp_all add: ends_in_def get_def ret_def bnd_def lift_def modify_def)

lemma ends_bnd:
  assumes "ends_in J m c" "\<And>x c'. J c' \<Longrightarrow> ends_in I (f x) c'"
  shows "ends_in I (bnd m f) c"
  using assms by (cases "m c") (auto simp: ends_in_def bnd_def)

lemma total_seqs: "(\<And>m. m \<in> set ms \<Longrightarrow> total I m) \<Longrightarrow> total I (seqs ms)"
  by (induction ms) (auto simp: seqs.simps intro!: total_ret total_bnd)

lemma total_get: "(\<And>c. I c \<Longrightarrow> total I (f c)) \<Longrightarrow> total I (get f)"
  by (simp add: total_def ends_in_def get_def)

lemma total_modify: "(\<And>c. I c \<Longrightarrow> I (f c)) \<Longrightarrow> total I (modify f)"
  by (simp add: total_def ends_in_def modify_def)

text \<open>Nothing that is lifted into a handler recurses.\<close>

lemma no_fuel_valset [simp]:
  "GetProposerAddress vs \<noteq> Out_Of_Fuel" "GetByIndex vs i \<noteq> Out_Of_Fuel" "CalcProposer vs a d \<noteq> Out_Of_Fuel"
  "Copy kec vs \<noteq> Out_Of_Fuel"
proof -
  show index: "GetByIndex vs i \<noteq> Out_Of_Fuel" for vs i
    by (simp add: GetByIndex_def)
  show "GetProposerAddress vs \<noteq> Out_Of_Fuel"
    by (simp add: GetProposerAddress_def split: option.split)
  show "CalcProposer vs a d \<noteq> Out_Of_Fuel"
    using index by (simp add: CalcProposer_def selector_def roundRobinProposer_def stickyProposer_def Let_def
        split: ProposerPolicy.split)
  show "Copy kec vs \<noteq> Out_Of_Fuel"
    using index by (simp add: Copy_def newDefaultSet_def Let_def)
qed

lemma no_fuel_storeSentMsg [simp]: "storeSentMsg st r pl ss \<noteq> Out_Of_Fuel"
  by (simp add: storeSentMsg_def)

lemma no_fuel_getDefaultProposal [simp]: "getDefaultProposal e r s \<noteq> Out_Of_Fuel"
  by (simp add: getDefaultProposal_def defaultDecideProposal_def split: option.split)

lemma no_fuel_FinalizeBlock [simp]: "FinalizeBlock e p c \<noteq> Out_Of_Fuel"
  by (simp add: FinalizeBlock_def Let_def split: option.split sum.split)

lemma no_fuel_VerifyProposal [simp]: "VerifyProposal e p msg c \<noteq> Out_Of_Fuel"
  by (simp add: VerifyProposal_def split: option.split)

lemma no_fuel_addVoteToBlockVote [simp]: "addVoteToBlockVote vote j ms \<noteq> Out_Of_Fuel"
  by (simp add: addVoteToBlockVote_def Let_def)

lemma no_fuel_add [simp]:
  "AddVote msg vote ms \<noteq> Out_Of_Fuel" "addPrevote msg vote vs s \<noteq> Out_Of_Fuel" "addPrecommit msg vote vs s \<noteq> Out_Of_Fuel"
proof -
  show add: "AddVote msg vote ms \<noteq> Out_Of_Fuel" for ms
    by (auto simp: AddVote_def Let_def split: option.splits if_splits prod.splits)
  show "addPrevote msg vote vs s \<noteq> Out_Of_Fuel" "addPrecommit msg vote vs s \<noteq> Out_Of_Fuel"
    using add by (auto simp: addPrevote_def addPrecommit_def Let_def split: prod.splits)
qed

lemma payload_depth_le: "p \<in> set ps \<Longrightarrow> payload_depth p \<le> fold (\<lambda>p acc. max (payload_depth p) acc) ps a"
proof (induction ps arbitrary: a)
  case (Cons q ps)
  have "a' \<le> fold (\<lambda>p acc. max (payload_depth p) acc) ps a'" for a'
    by (induction ps arbitrary: a') (auto intro: order_trans [OF max.cobounded2])
  then show ?case
    using Cons by (auto intro: order_trans [OF max.cobounded1])
qed simp

section \<open>What a handler leaves alone\<close>

text \<open>The proposals kept for later rounds are proposals of this height or an earlier one.\<close>

definition stored_ok :: "core \<Rightarrow> bool" where
  "stored_ok c \<longleftrightarrow>
     (\<forall>r m. futureProposals c r = Some m \<longrightarrow>
        Code m = msgPropose \<and>
        (\<forall>p. DecodeProposal (Msg m) = Some p \<longrightarrow> Block_Number (pBlock p) \<le> sBlockNumber (currentState c)))"

text \<open>\<open>puts\<close> says whether messages of later heights may be queued.\<close>

locale steady =
  fixes I :: "core \<Rightarrow> bool" and puts :: bool
  assumes I_stored: "I c \<Longrightarrow> stored_ok c"
    and I_state: "I c \<Longrightarrow> sBlockNumber s = sBlockNumber (currentState c) \<Longrightarrow> I (c\<lparr>currentState := s\<rparr>)"
    and I_outs: "I c \<Longrightarrow> I (c\<lparr>outs := xs\<rparr>)"
    and I_sent: "I c \<Longrightarrow> I (c\<lparr>sentMsgStorage := ss\<rparr>)"
    and I_valSet: "I c \<Longrightarrow> I (c\<lparr>valSet := vs\<rparr>)"
    and I_store: "I c \<Longrightarrow> stored_ok (c\<lparr>futureProposals := fp\<rparr>) \<Longrightarrow> I (c\<lparr>futureProposals := fp\<rparr>)"
    and I_put: "puts \<Longrightarrow> I c \<Longrightarrow> I (c\<lparr>futureMessages := q\<rparr>)"
begin

lemma total_emit: "total I (emit x)"
  unfolding emit_def by (rule total_modify) (rule I_outs)

lemma total_update: "(\<And>s. sBlockNumber (f s) = sBlockNumber s) \<Longrightarrow> total I (update f)"
  unfolding update_def by (rule total_modify) (simp add: I_state)

lemma total_ScheduleTimeout [total_intros]: "total I (ScheduleTimeout d n r st i)"
  unfolding ScheduleTimeout_def by (rule total_emit)

lemma total_updates [total_intros]:
  "total I (update (UpdateRoundStep r st))" "total I (update (SetProposalReceived p))"
  "total I (update (setPrecommitWaited b))" "total I (update (SetBlock b'))" "total I (update Unlock)"
  "total I (update (SetLockedRoundAndBlock r b'))" "total I (update (SetValidRoundAndBlock r b'))"
  by (auto intro!: total_update simp: UpdateRoundStep_def SetProposalReceived_def setPrecommitWaited_def SetBlock_def
        Unlock_def SetLockedRoundAndBlock_def SetValidRoundAndBlock_def)

lemma total_store_and_broadcast [total_intros]: "total I (store_and_broadcast st r m)"
  unfolding store_and_broadcast_def
  by (auto intro!: total_get total_lift_bnd total_seqs total_modify total_emit I_sent)

lemma total_SendPropose [total_intros]: "total I (SendPropose e p)"
  unfolding SendPropose_def by (auto intro!: total_intros split: option.split)

lemma total_SendVote [total_intros]: "total I (SendVote e k b r)"
  unfolding SendVote_def Let_def
  by (auto intro!: total_ret total_store_and_broadcast total_get split: option.split)

lemma total_SendCatchupReply [total_intros]: "total I (SendCatchupReply e a ps)"
  unfolding SendCatchupReply_def by (auto intro!: total_ret total_get total_emit split: option.split)

lemma total_reBroadcastMsg [total_intros]: "total I (reBroadcastMsg e m)"
  unfolding reBroadcastMsg_def by (auto intro!: total_ret total_get total_emit)

lemma total_propose_block [total_intros]: "total I (propose_block e r)"
  unfolding propose_block_def
  by (auto intro!: total_ret total_get total_lift_bnd total_SendPropose split: option.split)

lemma total_sendCatchUpRequest [total_intros]: "total I (sendCatchUpRequest e n r st)"
  unfolding sendCatchUpRequest_def Let_def
  by (auto intro!: total_ret total_get total_seqs total_emit split: option.split sum.split)

lemma total_enterPrevote [total_intros]: "total I (enterPrevote e n r)"
  unfolding enterPrevote_def defaultDoPrevote_def Let_def
  by (auto intro!: total_intros total_get total_seqs split: option.split)

lemma total_enterPropose [total_intros]: "total I (enterPropose e n r)"
  unfolding enterPropose_def Let_def by (auto intro!: total_intros total_get total_seqs)

lemma total_waits [total_intros]: "total I (enterPrevoteWait e n r)" "total I (enterPrecommitWait e n r)"
  unfolding enterPrevoteWait_def enterPrecommitWait_def Let_def
  by (auto intro!: total_intros total_get total_seqs split: option.split)

lemma total_enterPrecommit [total_intros]: "total I (enterPrecommit e n r)"
  unfolding enterPrecommit_def doPrecommit_def Let_def
  by (auto intro!: total_intros total_get total_seqs split: option.split)

lemma total_finalizeCommit [total_intros]: "total I (finalizeCommit e n)"
  unfolding finalizeCommit_def Let_def
  by (auto intro!: total_intros total_get total_lift_bnd total_emit split: option.split sum.split)

lemma total_enterCommit [total_intros]: "total I (enterCommit e n r)"
  unfolding enterCommit_def Let_def
  by (auto intro!: total_intros total_get total_seqs total_update
        simp: UpdateRoundStep_def commit_proposal_def SetProposalReceived_def Let_def split: option.split)

text \<open>A handler \<open>h\<close> that ends on every proposal that is not of a later height.\<close>

definition replays :: "(message \<Rightarrow> error option handler) \<Rightarrow> bool" where
  "replays h \<longleftrightarrow>
     (\<forall>m c. I c \<and> Code m = msgPropose \<and>
        (\<forall>p. DecodeProposal (Msg m) = Some p \<longrightarrow> Block_Number (pBlock p) \<le> sBlockNumber (currentState c)) \<longrightarrow>
        ends_in I (h m) c)"

lemma total_enterNewRound [total_intros]:
  assumes "replays h"
  shows "total I (enterNewRound h e n r)"
proof -
  have "total I (get (\<lambda>c. case futureProposals c r of Some m \<Rightarrow> bnd (h m) (\<lambda>_. ret ()) | None \<Rightarrow> ret ()))" (is "total I ?replay")
  proof (unfold total_def, intro allI impI)
    fix c assume c: "I c"
    show "ends_in I ?replay c"
    proof (cases "futureProposals c r")
      case (Some m)
      then have "ends_in I (h m) c"
        using c I_stored [OF c] assms by (auto simp: replays_def stored_ok_def)
      then show ?thesis
        using Some by (auto simp: ends_in_def get_def bnd_def ret_def split: res.splits)
    qed (use c in \<open>simp add: ends_in_def get_def ret_def\<close>)
  qed
  then show ?thesis
    unfolding enterNewRound_def Let_def set_valSet_def
    by (auto intro!: total_intros total_get total_seqs total_lift_bnd total_modify I_valSet)
qed

section \<open>Handlers\<close>

abbreviation in_time :: "int \<Rightarrow> core \<Rightarrow> bool" where
  "in_time n c \<equiv> puts \<or> n \<le> sBlockNumber (currentState c)"

lemma total_put_future: "puts \<Longrightarrow> total I (put_future e m n)"
  unfolding put_future_def by (rule total_modify) (rule I_put)

lemma store_future_ends:
  assumes "I c" "Code msg = msgPropose" "DecodeProposal (Msg msg) = Some p" "Block_Number (pBlock p) = sBlockNumber (currentState c)"
  shows "ends_in I (store_future_proposal e msg p) c"
proof -
  have "I (c\<lparr>futureProposals := (futureProposals c)(pRound p \<mapsto> msg)\<rparr>)"
    using assms I_stored [OF assms(1)] by (intro I_store) (auto simp: stored_ok_def)
  then show ?thesis
    using assms(1)
    by (auto simp: store_future_proposal_def ends_in_def get_def bnd_def lift_def ret_def modify_def
          split: outcome.splits)
qed

lemma total_accept_proposal: "total I (accept_proposal e msg p)"
  unfolding accept_proposal_def Let_def by (auto intro!: total_intros total_get total_seqs)

lemma ends_bnd_ret: "ends_in I m c \<Longrightarrow> ends_in I (bnd m (\<lambda>_. ret x)) c"
  by (auto simp: ends_in_def bnd_def ret_def split: res.splits)

lemma handlePropose_ends:
  assumes "I c" "Code msg = msgPropose"
    and "\<And>p. DecodeProposal (Msg msg) = Some p \<Longrightarrow> in_time (Block_Number (pBlock p)) c"
  shows "ends_in I (handlePropose e msg) c"
proof (cases "DecodeProposal (Msg msg)")
  case None
  then show ?thesis
    using assms(1) by (simp add: handlePropose_def)
next
  case (Some p)
  have put: "ends_in I (bnd (put_future e msg n) (\<lambda>_. ret (None :: error option))) c" if "sBlockNumber (currentState c) < Block_Number (pBlock p)" for n
    using assms(1) assms(3) [OF Some] that by (intro ends_bnd_ret totalD [of I "put_future e msg n"] total_put_future) auto
  have store: "ends_in I (bnd (store_future_proposal e msg p) (\<lambda>_. ret (None :: error option))) c"
    if "Block_Number (pBlock p) = sBlockNumber (currentState c)"
    using store_future_ends [OF assms(1,2) Some that] by (rule ends_bnd_ret)
  have verify: "ends_in I (bnd (lift (VerifyProposal e p msg c)) (\<lambda>err. case err of
        Some err \<Rightarrow> ret (if err = ErrKnownBlock then None else Some err)
      | None \<Rightarrow> bnd (accept_proposal e msg p) (\<lambda>_. ret None))) c"
    using assms(1)
    by (intro totalD [of I "bnd (lift _) _"])
      (auto intro!: total_lift total_bnd total_accept_proposal total_ret split: option.split)
  show ?thesis
    using assms(1) Some put store verify by (simp add: handlePropose_def Let_def)
qed

lemma total_prevote_majority: "total I (prevote_majority e vote x)"
  unfolding prevote_majority_def Let_def by (auto intro!: total_intros total_get total_seqs split: option.split)

lemma total_prevote_progress: "replays h \<Longrightarrow> total I (prevote_progress h e vote ms)"
  unfolding prevote_progress_def Let_def by (auto intro!: total_intros total_get)

lemma total_precommit_progress: "replays h \<Longrightarrow> total I (precommit_progress h e vote ms)"
  unfolding precommit_progress_def Let_def by (auto intro!: total_intros total_get total_seqs split: option.split)

lemma total_set_state:
  assumes "I c" "sBlockNumber s = sBlockNumber (currentState c)" "total I m"
  shows "ends_in I (bnd (update (\<lambda>_. s)) (\<lambda>_. m)) c"
  using assms I_state [OF assms(1,2)] totalD [OF assms(3)] by (simp add: ends_in_def bnd_def update_def modify_def)

lemma add_keeps_number:
  "addPrevote msg vote vs s = Done (a, s') \<Longrightarrow> sBlockNumber s' = sBlockNumber s"
  "addPrecommit msg vote vs s = Done (a, s') \<Longrightarrow> sBlockNumber s' = sBlockNumber s"
  by (auto simp: addPrevote_def addPrecommit_def Let_def split: prod.splits)

text \<open>The common shape of the two vote handlers.\<close>

lemma vote_ends:
  assumes "I c" "in_time n c" "add \<noteq> Out_Of_Fuel" "\<And>a s. add = Done (a, s) \<Longrightarrow> sBlockNumber s = sBlockNumber (currentState c)"
    and "\<And>a s. total I (f a s)"
  shows "ends_in I
     (if n \<noteq> sBlockNumber (currentState c) then
        (if n > sBlockNumber (currentState c) then bnd (put_future e msg n) (\<lambda>_. ret None) else ret (None :: error option))
      else bnd (lift add) (\<lambda>(a, s). bnd (update (\<lambda>_. s)) (\<lambda>_. f a s))) c"
proof (cases "n = sBlockNumber (currentState c)")
  case True
  have "ends_in I (bnd (lift add) (\<lambda>(a, s). bnd (update (\<lambda>_. s)) (\<lambda>_. f a s))) c"
  proof (cases add)
    case (Done as)
    obtain a s where as: "as = (a, s)"
      by fastforce
    have "ends_in I (bnd (update (\<lambda>_. s)) (\<lambda>_. f a s)) c"
      using assms(1,4,5) Done as by (intro total_set_state) auto
    then show ?thesis
      using Done as by simp
  qed (use assms(3) in \<open>auto simp: bnd_def lift_def ends_in_def\<close>)
  then show ?thesis
    using True by simp
next
  case False
  have "ends_in I (bnd (put_future e msg n) (\<lambda>_. ret (None :: error option))) c" if "n > sBlockNumber (currentState c)"
    using assms(1,2) that by (intro ends_bnd_ret totalD [of I "put_future e msg n"] total_put_future) auto
  then show ?thesis
    using False assms(1) by simp
qed

lemma handlePrevote_ends:
  assumes "I c" "replays h" "\<And>vote. DecodeVote (Msg msg) = Some vote \<Longrightarrow> in_time (vBlockNumber vote) c"
  shows "ends_in I (handlePrevote h e msg) c"
proof (cases "DecodeVote (Msg msg)")
  case None
  then show ?thesis
    using assms(1) by (simp add: handlePrevote_def)
next
  case (Some vote)
  have "total I (case added of
         Inl err \<Rightarrow> ret (Some err)
       | Inr False \<Rightarrow> ret None
       | Inr True \<Rightarrow>
           (case GetPrevotesByRound (vRound vote) state of
              None \<Rightarrow> panic ''expect prevotes to exist now''
            | Some prevotes \<Rightarrow>
                bnd (seqs
                  [(case TwoThirdMajority (Some prevotes) of
                      Some blockHash \<Rightarrow> prevote_majority e vote blockHash
                    | None \<Rightarrow> ret ()),
                   reBroadcastMsg e msg,
                   prevote_progress h e vote prevotes]) (\<lambda>_. ret None)))" for added state
    by (auto intro!: total_ret total_panic total_bnd total_seqs total_prevote_majority total_reBroadcastMsg
          total_prevote_progress assms(2) split: sum.split bool.split option.split)
  then show ?thesis
    unfolding handlePrevote_def Let_def ends_in_simps Some option.case
    by (intro vote_ends)
      (use assms(1) assms(3) [OF Some] add_keeps_number(1) in auto)
qed

lemma handlePrecommit_ends:
  assumes "I c" "replays h" "\<And>vote. DecodeVote (Msg msg) = Some vote \<Longrightarrow> in_time (vBlockNumber vote) c"
  shows "ends_in I (handlePrecommit h e msg) c"
proof (cases "DecodeVote (Msg msg)")
  case None
  then show ?thesis
    using assms(1) by (simp add: handlePrecommit_def)
next
  case (Some vote)
  have "total I (case added of
         Inl err \<Rightarrow> ret (Some err)
       | Inr False \<Rightarrow> ret None
       | Inr True \<Rightarrow>
           bnd (reBroadcastMsg e msg) (\<lambda>_.
           case GetPrecommitsByRound (vRound vote) state of
             None \<Rightarrow> panic ''expect precommits to exist now''
           | Some precommits \<Rightarrow>
               bnd (precommit_progress h e vote precommits) (\<lambda>_. ret None)))" for added state
    by (auto intro!: total_ret total_panic total_bnd total_reBroadcastMsg
          total_precommit_progress assms(2) split: sum.split bool.split option.split)
  then show ?thesis
    unfolding handlePrecommit_def Let_def ends_in_simps Some option.case
    by (intro vote_ends)
      (use assms(1) assms(3) [OF Some] add_keeps_number(2) in auto)
qed

section \<open>The dispatch\<close>

lemma handleMsgLocked_run:
  "handleMsgLocked (Suc fuel) e msg =
     (if GetAddressFromSignature (e_recover e) msg = None then ret (Some (ErrOther ''recover signer''))
      else if GetAddressFromSignature (e_recover e) msg \<noteq> Some (Address msg) then ret (Some ErrSignerMessageMissMatch)
      else if Code msg = msgPropose then handlePropose e msg
      else if Code msg = msgPrevote then handlePrevote (handleMsgLocked fuel e) e msg
      else if Code msg = msgPrecommit then handlePrecommit (handleMsgLocked fuel e) e msg
      else if Code msg = msgCatchUpRequest then handleCatchupRequest e msg
      else if Code msg = msgCatchUpReply then handleCatchUpReply (handleMsgLocked fuel e) e msg
      else ret (Some (ErrOther ''unknown msg code'')))"
  by (auto simp: handleMsgLocked.simps Let_def split: option.split)

lemma replays_handleMsgLocked: "replays (handleMsgLocked (Suc fuel) e)"
  unfolding replays_def handleMsgLocked_run by (auto intro!: handlePropose_ends)

lemma handleMsgLocked_in_time:
  assumes "I c" "msg_height msg = Some n" "in_time n c"
  shows "ends_in I (handleMsgLocked (Suc (Suc fuel)) e msg) c"
proof -
  have "Code msg = msgPropose \<or> Code msg = msgPrevote \<or> Code msg = msgPrecommit"
    using assms(2) by (auto simp: msg_height_def split: if_splits)
  then show ?thesis
    unfolding handleMsgLocked_run [of "Suc fuel"]
    using assms replays_handleMsgLocked [of fuel e]
    by (auto simp: msg_height_def intro!: handlePropose_ends handlePrevote_ends handlePrecommit_ends)
qed

lemma total_catchup_replies:
  assumes "\<And>m. Payload_Message m \<in> set ps \<Longrightarrow> total I (h m)"
  shows "total I (catchup_replies h from ps)"
  using assms
proof (induction ps)
  case Nil
  then show ?case by (simp add: total_ret)
next
  case (Cons p ps)
  then have "total I (bnd (h m) (\<lambda>err. case err of Some e \<Rightarrow> ret (Some e) | None \<Rightarrow> catchup_replies h from ps))"
    if "p = Payload_Message m" for m
    using that by (intro total_bnd) (auto intro: total_ret split: option.split)
  then show ?case
    by (cases p) (auto simp: DecodeMessage_def intro: total_ret)
qed

lemma total_handleCatchupRequest: "total I (handleCatchupRequest e msg)"
  unfolding handleCatchupRequest_def Let_def
  by (rule total_get) (auto intro!: total_bnd total_seqs total_ret total_SendCatchupReply split: body.split)

lemma total_handleMsgLocked:
  assumes puts
  shows "msg_depth msg < fuel \<Longrightarrow> total I (handleMsgLocked fuel e msg)"
proof (induction fuel arbitrary: msg)
  case (Suc fuel)
  have "0 < msg_depth msg"
    by (cases msg) simp
  then obtain fuel' where fuel: "fuel = Suc fuel'"
    using Suc.prems by (cases fuel) auto
  have h: "replays (handleMsgLocked fuel e)"
    unfolding fuel by (rule replays_handleMsgLocked)
  have sub: "total I (handleMsgLocked fuel e m)" if "Msg msg = Body_CatchUpReply n ps" "Payload_Message m \<in> set ps" for n ps m
  proof -
    have "msg_depth m \<le> body_depth (Msg msg)"
      using that payload_depth_le [of "Payload_Message m" ps] by simp
    then show ?thesis
      using Suc by (cases msg) auto
  qed
  then have "total I (handleCatchUpReply (handleMsgLocked fuel e) e msg)"
    unfolding handleCatchUpReply_def
    by (auto intro!: total_get total_ret total_catchup_replies split: body.split)
  then show ?case
    unfolding handleMsgLocked_run
    using assms h total_handleCatchupRequest
    by (auto simp: total_def intro!: handlePropose_ends handlePrevote_ends handlePrecommit_ends)
qed simp

lemma total_handleTimeout: "replays h \<Longrightarrow> total I (handleTimeout h e t)"
  unfolding handleTimeout_def enterCatchup_def Let_def
  by (rule total_get) (auto intro!: total_intros total_get total_seqs)

lemma total_handleNewBlock: "total I (handleNewBlock e b)"
  unfolding handleNewBlock_def by (rule total_get) (auto intro!: total_intros total_seqs total_emit)

end

section \<open>Both readings of a steady state\<close>

interpretation any: steady stored_ok True
  by unfold_locales (auto simp: stored_ok_def)

interpretation fixed: steady "\<lambda>c. stored_ok c \<and> sBlockNumber (currentState c) = n \<and> futureMessages c = q" False for n q
  by unfold_locales (auto simp: stored_ok_def)

text \<open>
  The messages of the current height taken off the queue put nothing on it, so the queue gets
  shorter in every round of the loop.
\<close>

lemma processFutureMessages_fuel:
  "stored_ok c \<Longrightarrow> length (futureMessages c) < fuel \<Longrightarrow>
   ends_in stored_ok (processFutureMessages fuel (handleMsgLocked 2 e) e) c"
proof (induction fuel arbitrary: c)
  case (Suc fuel)
  let ?h = "handleMsgLocked 2 e"
  show ?case
  proof (cases "futureMessages c")
    case Nil
    then show ?thesis
      using Suc.prems(1) by (simp add: processFutureMessages.simps)
  next
    case (Cons it rest)
    let ?c = "c\<lparr>futureMessages := rest\<rparr>"
    have c: "stored_ok ?c" "length (futureMessages ?c) < fuel"
      using Suc.prems Cons by (auto simp: stored_ok_def)
    have drop: "ends_in stored_ok (bnd (modify (\<lambda>c. c\<lparr>futureMessages := rest\<rparr>)) (\<lambda>_. m)) c = ends_in stored_ok m ?c"
      for m :: "error option handler"
      by (simp add: ends_in_def bnd_def modify_def)
    have "ends_in stored_ok (bnd (?h (item_message it)) (\<lambda>_. processFutureMessages fuel ?h e)) ?c"
      if "msg_height (item_message it) = Some (sBlockNumber (currentState c))"
    proof (rule ends_bnd)
      show "ends_in (\<lambda>c'. stored_ok c' \<and> sBlockNumber (currentState c') = sBlockNumber (currentState c) \<and>
          futureMessages c' = rest) (?h (item_message it)) ?c"
        using fixed.handleMsgLocked_in_time [of ?c "sBlockNumber (currentState c)" rest _ _ 0 e] c(1) that
        by (simp add: numeral_2_eq_2)
    next
      fix x c'
      assume "stored_ok c' \<and> sBlockNumber (currentState c') = sBlockNumber (currentState c) \<and> futureMessages c' = rest"
      then show "ends_in stored_ok (processFutureMessages fuel ?h e) c'"
        using Suc.IH [of c'] c(2) by simp
    qed
    then show ?thesis
      using Cons Suc.IH [OF c] Suc.prems(1)
      by (auto simp: processFutureMessages.simps Let_def drop split: option.split)
  qed
qed simp

section \<open>A new height, and every event\<close>

lemma updateStateForNewblock_ends:
  assumes "stored_ok c" "sBlockNumber (currentState c) \<le> n"
  shows "ends_in (\<lambda>c'. stored_ok c' \<and> sBlockNumber (currentState c') \<le> n + 1) (updateStateForNewblock e) c"
  using assms unfolding updateStateForNewblock_def Let_def
  by (auto simp: stored_ok_def SetView_def)

lemma startNewRound_ends:
  assumes "stored_ok c" "sBlockNumber (currentState c) \<le> e_CurrentHead e + 1"
  shows "ends_in stored_ok (startNewRound e) c"
proof -
  let ?m = "get (\<lambda>c.
         let state = currentState c
         in case step_duration e state of
              None \<Rightarrow> ret ()
            | Some duration \<Rightarrow>
                if fst (GetByAddress (valSet c) (e_Address e)) = -1 then ret ()
                else ScheduleTimeout duration (sBlockNumber state) (sRound state) (rs_step state) 0)"
  have "total stored_ok ?m"
    unfolding Let_def ScheduleTimeout_def
    by (rule total_get) (auto intro!: total_intros any.total_emit split: option.split)
  then have m: "total stored_ok (bnd ?m (\<lambda>_. ret ()))"
    by (intro total_bnd total_ret)
  show ?thesis
    unfolding startNewRound_def seqs.simps
  proof (rule ends_bnd)
    show "ends_in stored_ok (get (\<lambda>c.
         let expectedBlock = e_CurrentHead e + 1
         in if sBlockNumber (currentState c) = expectedBlock then ret ()
            else
              let state = clearPreviousRoundData
                            (SetView \<lparr>BlockNumber = expectedBlock, Round = 0\<rparr> (currentState c))
              in modify (\<lambda>c. c\<lparr>currentState := state,
                               sentMsgStorage := truncateMsgStored (sentMsgStorage c),
                               valSet := e_Validators e (sBlockNumber state)\<rparr>))) c"
      using assms by (auto simp: Let_def stored_ok_def SetView_def intro: order_trans)
  qed (rule totalD [OF m])
qed

lemma handleFinalCommitted_ends:
  assumes "stored_ok c" "n \<le> e_CurrentHead e"
  shows "ends_in stored_ok (handleFinalCommitted (handleMsgLocked 2 e) e n) c"
proof (cases "n < sBlockNumber (currentState c)")
  case False
  let ?future = "get (\<lambda>c. bnd (processFutureMessages (Suc (length (futureMessages c))) (handleMsgLocked 2 e) e) (\<lambda>_. ret ()))"
  have future: "total stored_ok (bnd ?future (\<lambda>_. ret ()))"
    using processFutureMessages_fuel
    by (intro total_bnd total_ret) (auto simp: total_def intro!: ends_bnd)
  let ?J = "\<lambda>c. stored_ok c \<and> sBlockNumber (currentState c) \<le> e_CurrentHead e"
  let ?K = "\<lambda>c. stored_ok c \<and> sBlockNumber (currentState c) \<le> e_CurrentHead e + 1"
  have "ends_in stored_ok (seqs [modify (\<lambda>c. c\<lparr>sentMsgStorage := truncateMsgStored (sentMsgStorage c)\<rparr>),
      updateStateForNewblock e, startNewRound e, ?future]) c"
    unfolding seqs.simps
  proof (rule ends_bnd [where J = ?J], goal_cases)
    case 1
    then show ?case
      using assms False by (simp add: stored_ok_def)
  next
    case (2 x c1)
    then show ?case
      by (intro ends_bnd [where J = ?K, OF updateStateForNewblock_ends]
            ends_bnd [where J = stored_ok, OF startNewRound_ends] totalD [OF future]) auto
  qed
  then show ?thesis
    using False by (simp add: handleFinalCommitted_def)
qed (use assms in \<open>simp add: handleFinalCommitted_def\<close>)

lemma handleMsgLocked_fuel: "stored_ok c \<Longrightarrow> ends_in stored_ok (handleMsgLocked (Suc (msg_depth msg)) e msg) c"
  by (rule totalD [OF any.total_handleMsgLocked]) simp_all

lemma handleEvent_ends:
  assumes "stored_ok c" "event_ok w L e ev"
  shows "ends_in stored_ok (handleEvent e ev) c"
proof (cases ev)
  case (NewBlockEvent b)
  then show ?thesis
    using totalD [OF any.total_handleNewBlock assms(1)] by (simp add: handleEvent_def)
next
  case (MessageEvent p)
  then show ?thesis
    using assms(1) by (auto simp: handleEvent_def split: option.split intro!: ends_bnd handleMsgLocked_fuel)
next
  case (TimeoutEvent t)
  then show ?thesis
    using totalD [OF any.total_handleTimeout [OF any.replays_handleMsgLocked [of 0 e]] assms(1), of e t]
    by (simp add: handleEvent_def)
next
  case (FinalCommittedEvent n)
  then show ?thesis
    using assms handleFinalCommitted_ends by (auto simp: handleEvent_def event_ok_def)
qed

lemma core_Start_ends: "ends_in stored_ok (\<lambda>_. core_Start e None) c"
proof -
  have "stored_ok (core_init e)" "sBlockNumber (currentState (core_init e)) = e_CurrentHead e + 1"
    by (simp_all add: stored_ok_def core_init_def getInitializedState_def newRoundState_def)
  then show ?thesis
    using startNewRound_ends [of "core_init e" e] by (simp add: core_Start_def ends_in_def)
qed

lemma sys_reach_stored: "sys_reach w \<sigma> \<Longrightarrow> p \<notin> w_faulty w \<Longrightarrow> p \<notin> dead \<sigma> \<Longrightarrow> stored_ok (cores \<sigma> p)"
proof (induction arbitrary: p rule: sys_reach.induct)
  case (start \<sigma>)
  then obtain e where "core_Start e None = Ok () (cores \<sigma> p)"
    by blast
  then show ?case
    using core_Start_ends [of e] by (simp add: ends_in_def)
next
  case (handle \<sigma> p' e ev c')
  then show ?case
    using handleEvent_ends [OF handle.IH [OF handle.hyps(2,3)] handle.hyps(6)]
    by (auto simp: put_core_def ends_in_def)
next
  case (crash \<sigma> p' e ev msg c')
  then show ?case
    by (auto simp: put_core_def)
next
  case (restart \<sigma> p' e c')
  then show ?case
    using startNewRound_ends [OF restart.IH [OF restart.hyps(2,3)] restart.hyps(6)]
    by (auto simp: put_core_def ends_in_def core_Start_def)
qed

text \<open>
  C4. Every handler ends: in every reachable state of the system, whatever event reaches a correct
  node that has not panicked, the recursion of the dispatch through stored proposals and nested
  catch-up replies, and the loop over the queue of later messages, run out before their fuel does.
\<close>

theorem handleEvent_terminates:
  assumes "sys_reach w \<sigma>" "p \<notin> w_faulty w" "p \<notin> dead \<sigma>" "event_ok w (ballot_log \<sigma>) e ev"
  shows "handleEvent e ev (cores \<sigma> p) \<noteq> Unfinished"
  using handleEvent_ends [OF sys_reach_stored [OF assms(1-3)] assms(4)] by (auto simp: ends_in_def)

theorem handleEvent_terminates_witness:
  "\<exists>L. sys_reach one_world (one_sys one_core5 L) \<and>
     handleEvent (one_env 1) (MessageEvent (Payload_Message one_proposal)) one_core5 \<noteq> Unfinished"
proof -
  obtain L where L: "sys_reach one_world (one_sys one_core5 L)"
    using one_sys_commits by blast
  have "event_ok one_world L (one_env 1) (MessageEvent (Payload_Message one_proposal))"
    using one_authentic(1) [of L] by (simp add: event_ok_def)
  then show ?thesis
    using handleEvent_terminates [OF L, of 1 "one_env 1"] L one_world_ok(3) by (auto simp: one_sys_def)
qed

end
