(* ===== verification/Core_Outcomes.thy ===== *)
theory Core_Outcomes
  imports Core_Total
begin

text \<open>
  What single steps of the core come to: the seals a committed block carries and when writing them
  panics, and the prevotes that no longer move a node.
\<close>

section \<open>The seals of a committed block\<close>

text \<open>The seals of the votes for a block, in the order of the validators.\<close>

definition seals_of :: "messageSet \<Rightarrow> hash \<Rightarrow> byte list list" where
  "seals_of ms h = map vSeal (List.map_filter (slot_vote ms h) (validators (ms_valSet ms)))"

lemma collect_seals_take:
  assumes "int (length acc) < k"
  shows "collect_seals vs k acc = take (nat k) (acc @ map vSeal (List.map_filter id vs))"
  using assms
proof (induction vs k acc rule: collect_seals.induct)
  case (1 k acc)
  then show ?case by (simp add: List.map_filter_def)
next
  case (2 vs k acc)
  then show ?case by (simp add: List.map_filter_def)
next
  case (3 v vs k acc)
  show ?case
  proof (cases "int (length acc) + 1 < k")
    case True
    then show ?thesis
      using 3 by (simp add: Let_def List.map_filter_def)
  next
    case False
    then have "nat k = Suc (length acc)"
      using "3.prems" by simp
    then show ?thesis
      using False by (simp add: Let_def List.map_filter_def)
  qed
qed

lemma seals_of_votes: "map vSeal (List.map_filter id (votes (blockVotes_of ms h))) = seals_of ms h"
  by (simp add: seals_of_def blockVotes_of_def List.map_filter_def filter_map o_def)

lemma length_seals_of:
  assumes "ms_ok ms"
  shows "length (seals_of ms h) = card (voters ms h)"
proof -
  have "distinct (validators (ms_valSet ms))"
    using ms_okD(1) [OF assms] by (simp add: valset_ok_def)
  then have "length (filter (\<lambda>a. slot_vote ms h a \<noteq> None) (validators (ms_valSet ms))) =
      card {a \<in> set (validators (ms_valSet ms)). slot_vote ms h a \<noteq> None}"
    by (simp add: distinct_card flip: set_filter)
  moreover have "{a \<in> set (validators (ms_valSet ms)). slot_vote ms h a \<noteq> None} = voters ms h"
    using ms_okD(3) [OF assms] by (auto simp: voters_def slot_vote_def split: option.splits)
  ultimately show ?thesis
    by (simp add: seals_of_def List.map_filter_def)
qed

lemma FinalizeBlock_outcome:
  assumes ms: "PrecommitsReceived (currentState c) (commitRound (currentState c)) = Some ms" "ms_ok ms"
      "MinMajority (ms_valSet ms) = MinMajority (valSet c)" "maj23 ms = Some (bhash e (pBlock p))"
    and b: "ExtractTendermintExtra (block_header (pBlock p)) = Inr te" "MixDigest (block_header (pBlock p)) = TendermintDigest"
    and seals: "seals = take (nat (MinMajority (valSet c))) (seals_of ms (bhash e (pBlock p)))"
  shows "FinalizeBlock e p c = Done
    (if list_all (\<lambda>s. length s = 65) seals
     then Inr (WithSeal (pBlock p) (put_extra (Block_Header (pBlock p)) (te\<lparr>CommittedSeal := seals\<rparr>)))
     else Inl ErrInvalidSealLength)"
proof -
  let ?h = "bhash e (pBlock p)" and ?k = "MinMajority (valSet c)"
  have k: "0 < ?k" "?k \<le> int (card (voters ms ?h))"
    using MinMajority_pos ms_okD(1,8) [OF ms(2)] ms(3,4) by metis+
  have hash: "Header_Hash (e_kec e) (Block_Header (pBlock p)) = ?h"
    using Header_Hash_copy [OF b] by (simp add: Block_Header_def Block_Hash_def)
  have "voters ms ?h \<noteq> {}"
    using k by auto
  then have tally: "voteByBlock ms ?h = Some (blockVotes_of ms ?h)"
    using ms_okD(7) [OF ms(2)] by simp
  have collect: "collect_seals (votes (blockVotes_of ms ?h)) ?k [] = seals"
    using collect_seals_take [of "[]" ?k] k(1) seals by (simp add: seals_of_votes)
  have len: "int (length seals) = ?k"
    using seals k by (simp add: length_seals_of [OF ms(2)])
  then have "seals \<noteq> []"
    using k(1) by auto
  then show ?thesis
    using ms(1) tally collect len k b(1) hash
    by (auto simp: FinalizeBlock_def GetPrecommitsByRound_def Let_def blockVotes_of_def WriteCommittedSeals_def
          Block_Header_def list_ex_iff list_all_iff)
qed

text \<open>
  C7. In the commit step, with two thirds of the precommits for the block of the proposal, the node
  commits the block with the seals of the first \<open>MinMajority\<close> validators that voted for it, in the
  order of the validator set, if each of these seals has sixty-five bytes; if one has not, the node
  panics.  The seal of a precommit is not looked at when the vote is counted, so a validator can bring
  the others down with a precommit whose signature is right and whose seal has the wrong length.
\<close>

theorem finalizeCommit_outcome:
  assumes "sBlockNumber (currentState c) = n" "rs_step (currentState c) = RoundStepCommit"
    "PrecommitsReceived (currentState c) (commitRound (currentState c)) = Some ms" "ms_ok ms"
    "MinMajority (ms_valSet ms) = MinMajority (valSet c)"
    "proposalReceived (currentState c) = Some p" "maj23 ms = Some (Block_Hash (e_kec e) (pBlock p))"
    "Block_Hash (e_kec e) (pBlock p) \<noteq> 0"
    "ExtractTendermintExtra (block_header (pBlock p)) = Inr te" "MixDigest (block_header (pBlock p)) = TendermintDigest"
    "seals = take (nat (MinMajority (valSet c))) (seals_of ms (Block_Hash (e_kec e) (pBlock p)))"
  shows "finalizeCommit e n c =
    (if list_all (\<lambda>s. length s = 65) seals
     then Ok () (c\<lparr>outs := outs c @
       [Commit (WithSeal (pBlock p) (put_extra (Block_Header (pBlock p)) (te\<lparr>CommittedSeal := seals\<rparr>)))]\<rparr>)
     else Panicked ''block committing failed'' c)"
  using FinalizeBlock_outcome [OF assms(3-5,7,9-11)] assms(1-3,6-8)
  by (simp add: finalizeCommit_def TwoThirdMajority_def GetPrecommitsByRound_def Let_def get_def bnd_def lift_def
        panic_def emit_def modify_def)

text \<open>The only validator's precommit, with a seal of any length.\<close>

definition sealed_set :: "byte list \<Rightarrow> messageSet" where
  "sealed_set seal =
    enter_vote (one_msg 2 (Body_Vote 1 1 0 seal)) \<lparr>vBlockHash = 1, vBlockNumber = 1, vRound = 0, vSeal = seal\<rparr>
      (newMessageSet one_valset 2 \<lparr>BlockNumber = 1, Round = 0\<rparr>)"

definition sealed_core :: "byte list \<Rightarrow> core" where
  "sealed_core seal = one_core4
    \<lparr>currentState := (currentState one_core4)
       \<lparr>rs_step := 8, PrecommitsReceived := [0 \<mapsto> sealed_set seal], commitRound := 0\<rparr>\<rparr>"

lemma sealed_set_ok:
  "ms_ok (sealed_set seal)" "maj23 (sealed_set seal) = Some 1" "ms_valSet (sealed_set seal) = one_valset"
  "seals_of (sealed_set seal) 1 = [seal]"
proof -
  have new: "ms_ok (newMessageSet one_valset 2 \<lparr>BlockNumber = 1, Round = 0\<rparr>)"
    by (rule newMessageSet_ok) (simp add: one_valset_def valset_ok_def)
  show "ms_ok (sealed_set seal)"
    unfolding sealed_set_def
    by (rule enter_vote_ok [OF new])
      (simp_all add: vote_fits_def newMessageSet_def one_msg_def one_valset_def DecodeVote_def)
  show "maj23 (sealed_set seal) = Some 1"
    by (simp add: sealed_set_def enter_vote_def newMessageSet_def one_msg_def one_valset_def voters_def MinMajority_def
          valF_def Size_def)
  show "ms_valSet (sealed_set seal) = one_valset"
    by (simp add: sealed_set_def newMessageSet_def)
  show "seals_of (sealed_set seal) 1 = [seal]"
    by (simp add: seals_of_def sealed_set_def newMessageSet_def one_msg_def one_valset_def slot_vote_def List.map_filter_def)
qed

theorem finalizeCommit_outcome_witness:
  "finalizeCommit (one_env 1) 1 (sealed_core []) = Panicked ''block committing failed'' (sealed_core [])"
proof -
  have state: "sBlockNumber (currentState (sealed_core [])) = 1" "rs_step (currentState (sealed_core [])) = RoundStepCommit"
      "PrecommitsReceived (currentState (sealed_core [])) (commitRound (currentState (sealed_core []))) = Some (sealed_set [])"
      "MinMajority (ms_valSet (sealed_set [])) = MinMajority (valSet (sealed_core []))"
      "MinMajority (valSet (sealed_core [])) = 1"
      "proposalReceived (currentState (sealed_core [])) = Some \<lparr>pBlock = one_block, pRound = 0, pPOLRound = -1\<rparr>"
    by (simp_all add: sealed_core_def one_cores one_run sealed_set_ok one_majority)
  have kec: "e_kec (one_env 1) = (\<lambda>_. 1)"
    by (simp add: one_env_def)
  show ?thesis
    using finalizeCommit_outcome [OF state(1-3) sealed_set_ok(1) state(4,6), of "one_env 1"]
      extra_header_extract sealed_set_ok(2,4) state(5)
    by (simp add: kec) (simp add: one_block_def)
qed

section \<open>Prevotes of earlier rounds\<close>



end
