(* ===== verification/Staking.thy ===== *)
theory Staking
  imports Extra_Data "HOL-Library.Product_Lexorder"
begin

text \<open>
  Reading the staking contract: \<^verbatim>\<open>core/state/staking\<close> (\<^verbatim>\<open>statedb_caller.go\<close>,
  \<^verbatim>\<open>statedb_caller_config.go\<close>, \<^verbatim>\<open>evm_caller.go\<close>).  One reader computes the storage locations of the
  contract's variables and reads them from the state, the other calls the contract.  The storage of
  the contract is a function from locations to words, and the answers of the contract's methods are
  a record, since the contract itself is not code of the repository.

  The main facts: which candidates each reader returns, and how many.
\<close>

section \<open>Storage layout\<close>

record LayOut =
  Offset :: nat
  Slot :: nat

definition NewLayOut :: "nat \<Rightarrow> nat \<Rightarrow> LayOut" where
  "NewLayOut slot off = \<lparr>Offset = off, Slot = slot\<rparr>"

definition slotHash :: "LayOut \<Rightarrow> hash" where
  "slotHash l = of_nat (Slot l)"

record CandidateDataStructIndex =
  OwnerLayout :: LayOut
  TotalStakeLayout :: LayOut
  VotersStakesLayout :: LayOut

record IndexConfigs =
  WithdrawsStateLayout :: LayOut
  CandidateVotersLayout :: LayOut
  CandidateDataLayout :: LayOut
  CandidatesLayout :: LayOut
  StartBlockLayout :: LayOut
  EpochPeriodLayout :: LayOut
  MaxValidatorSizeLayout :: LayOut
  MinValidatorStakeLayout :: LayOut
  MinVoterCapLayout :: LayOut
  AdminLayout :: LayOut
  CandidateDataStruct :: CandidateDataStructIndex

definition DefaultIndexConfig :: IndexConfigs where
  "DefaultIndexConfig =
    \<lparr>WithdrawsStateLayout = NewLayOut 1 0, CandidateVotersLayout = NewLayOut 2 0,
     CandidateDataLayout = NewLayOut 3 0, CandidatesLayout = NewLayOut 4 0,
     StartBlockLayout = NewLayOut 5 0, EpochPeriodLayout = NewLayOut 6 0,
     MaxValidatorSizeLayout = NewLayOut 7 0, MinValidatorStakeLayout = NewLayOut 8 0,
     MinVoterCapLayout = NewLayOut 9 0, AdminLayout = NewLayOut 10 0,
     CandidateDataStruct =
       \<lparr>OwnerLayout = NewLayOut 2 0, TotalStakeLayout = NewLayOut 1 0, VotersStakesLayout = NewLayOut 3 0\<rparr>\<rparr>"

text \<open>
  Locations are 256-bit words; \<^verbatim>\<open>common.BigToHash\<close> keeps the low 32 bytes, so adding to a location
  wraps around.  The product of index and element size is a \<^verbatim>\<open>uint64\<close>.
\<close>

definition getElementArrayLoc :: "(byte list \<Rightarrow> hash) \<Rightarrow> hash \<Rightarrow> nat \<Rightarrow> nat \<Rightarrow> hash" where
  "getElementArrayLoc kec slot index elementSize =
    kec (Hash_Bytes slot) + of_nat (index * elementSize mod 2 ^ 64)"

definition getMappingElementLoc :: "(byte list \<Rightarrow> hash) \<Rightarrow> hash \<Rightarrow> hash \<Rightarrow> hash" where
  "getMappingElementLoc kec slot key = kec (Hash_Bytes key @ Hash_Bytes slot)"

definition addOffsetToLoc :: "hash \<Rightarrow> nat \<Rightarrow> hash" where
  "addOffsetToLoc slot off = slot + of_nat off"

text \<open>\<^verbatim>\<open>Address.Hash\<close> pads with zeros; \<^verbatim>\<open>HexToAddress(h.Hex())\<close> keeps the low twenty bytes.\<close>

definition Address_Hash :: "address \<Rightarrow> hash" where
  "Address_Hash a = ucast a"

definition Hash_Address :: "hash \<Rightarrow> address" where
  "Hash_Address h = ucast h"

section \<open>The reader of the state\<close>

text \<open>The state of one block: code and storage of every account.\<close>

record stateDB =
  GetCode :: "address \<Rightarrow> byte list"
  GetState :: "address \<Rightarrow> hash \<Rightarrow> hash"

record stateDBStakingCaller =
  sc_stateDB :: stateDB
  sc_config :: IndexConfigs
  sc_kec :: "byte list \<Rightarrow> hash"

definition getAddress :: "stateDBStakingCaller \<Rightarrow> address \<Rightarrow> hash \<Rightarrow> address" where
  "getAddress c contractAddr loc = Hash_Address (GetState (sc_stateDB c) contractAddr loc)"

definition getBigInt :: "stateDBStakingCaller \<Rightarrow> address \<Rightarrow> hash \<Rightarrow> int" where
  "getBigInt c contractAddr loc = uint (GetState (sc_stateDB c) contractAddr loc)"

definition GetCandidates :: "stateDBStakingCaller \<Rightarrow> address \<Rightarrow> error + address list" where
  "GetCandidates c sc =
    (let slot = slotHash (CandidatesLayout (sc_config c));
         arrLength = GetState (sc_stateDB c) sc slot
     in if arrLength = 0 then Inl ErrEmptyValidatorSet
        else Inr (map (\<lambda>i. getAddress c sc (getElementArrayLoc (sc_kec c) slot i 1))
                   [0..<Uint64 (uint arrLength)]))"

definition candidateLoc :: "stateDBStakingCaller \<Rightarrow> address \<Rightarrow> hash" where
  "candidateLoc c candidate =
    getMappingElementLoc (sc_kec c) (slotHash (CandidateDataLayout (sc_config c))) (Address_Hash candidate)"

definition GetCandidateStake :: "stateDBStakingCaller \<Rightarrow> address \<Rightarrow> address \<Rightarrow> int" where
  "GetCandidateStake c sc candidate =
    getBigInt c sc (addOffsetToLoc (candidateLoc c candidate)
      (Slot (TotalStakeLayout (CandidateDataStruct (sc_config c)))))"

definition GetCandidateOwner :: "stateDBStakingCaller \<Rightarrow> address \<Rightarrow> address \<Rightarrow> address" where
  "GetCandidateOwner c sc candidate =
    getAddress c sc (addOffsetToLoc (candidateLoc c candidate)
      (Slot (OwnerLayout (CandidateDataStruct (sc_config c)))))"

definition GetStartBlock :: "stateDBStakingCaller \<Rightarrow> address \<Rightarrow> int" where
  "GetStartBlock c sc = getBigInt c sc (slotHash (StartBlockLayout (sc_config c)))"

definition GetEpochPeriod :: "stateDBStakingCaller \<Rightarrow> address \<Rightarrow> int" where
  "GetEpochPeriod c sc = getBigInt c sc (slotHash (EpochPeriodLayout (sc_config c)))"

definition GetMaxValidatorSize :: "stateDBStakingCaller \<Rightarrow> address \<Rightarrow> int" where
  "GetMaxValidatorSize c sc = getBigInt c sc (slotHash (MaxValidatorSizeLayout (sc_config c)))"

definition GetMinValidatorStake :: "stateDBStakingCaller \<Rightarrow> address \<Rightarrow> int" where
  "GetMinValidatorStake c sc = getBigInt c sc (slotHash (MinValidatorStakeLayout (sc_config c)))"

definition GetMinVoterCap :: "stateDBStakingCaller \<Rightarrow> address \<Rightarrow> int" where
  "GetMinVoterCap c sc = getBigInt c sc (slotHash (MinVoterCapLayout (sc_config c)))"

definition GetAdmin :: "stateDBStakingCaller \<Rightarrow> address \<Rightarrow> address" where
  "GetAdmin c sc = getAddress c sc (slotHash (AdminLayout (sc_config c)))"

text \<open>
  The order of both readers: greater stake first, and the greater text form first among equal
  stakes.  Equal elements are equal addresses, so sorting has one result.
\<close>

definition by_stake :: "(byte list \<Rightarrow> hash) \<Rightarrow> (address \<Rightarrow> int) \<Rightarrow> address list \<Rightarrow> address list" where
  "by_stake kec stakes xs = rev (sort_key (\<lambda>a. (stakes a, Address_Hex kec a)) xs)"

text \<open>
  The slice that is sorted is not the slice that is cut: the reader returns the first candidates of
  the contract's list.
\<close>

definition GetValidators :: "stateDBStakingCaller \<Rightarrow> address \<Rightarrow> (error + address list) outcome" where
  "GetValidators c sc =
    (if GetCode (sc_stateDB c) sc = [] then Done (Inl ErrNoCode)
     else case GetCandidates c sc of
            Inl err \<Rightarrow> Done (Inl err)
          | Inr candidates \<Rightarrow>
              let minValStake = GetMinValidatorStake c sc;
                  stakes = GetCandidateStake c sc;
                  validators = filter (\<lambda>a. \<not> stakes a < minValStake) candidates;
                  maxValSize = i64 (int (Uint64 (GetMaxValidatorSize c sc)))
              in if int (length validators) \<le> maxValSize then Done (Inr validators)
                 else let validators = by_stake (sc_kec c) stakes validators
                      in if maxValSize < 0 then Panic ''slice bounds out of range''
                         else Done (Inr (take (nat maxValSize) candidates)))"

record CandidateData =
  Owner :: address
  VoterStakes :: "(address \<times> int) list"
  TotalStake :: int

definition GetVoters :: "stateDBStakingCaller \<Rightarrow> address \<Rightarrow> address \<Rightarrow> address list" where
  "GetVoters c sc candidate =
    (let votersSlot = getMappingElementLoc (sc_kec c) (slotHash (CandidateVotersLayout (sc_config c)))
                        (Address_Hash candidate)
     in map (\<lambda>i. getAddress c sc (getElementArrayLoc (sc_kec c) votersSlot i 1))
          [0..<Uint64 (getBigInt c sc votersSlot)])"

text \<open>
  A Go map is the list of its entries; a later write to the same key replaces the entry.
\<close>

definition put_entry :: "'k \<Rightarrow> 'v \<Rightarrow> ('k \<times> 'v) list \<Rightarrow> ('k \<times> 'v) list" where
  "put_entry k v m = filter (\<lambda>(k', _). k' \<noteq> k) m @ [(k, v)]"

definition GetCandidateData :: "stateDBStakingCaller \<Rightarrow> address \<Rightarrow> address \<Rightarrow> CandidateData" where
  "GetCandidateData c sc candidate =
    (let loc = candidateLoc c candidate;
         struct = CandidateDataStruct (sc_config c);
         totalStake = getBigInt c sc (addOffsetToLoc loc (Slot (TotalStakeLayout struct)));
         owner = getAddress c sc (addOffsetToLoc loc (Slot (OwnerLayout struct)));
         voterStakesSlot = addOffsetToLoc loc (Slot (VotersStakesLayout struct));
         voteStakes = fold (\<lambda>voter m.
           put_entry voter (getBigInt c sc (getMappingElementLoc (sc_kec c) voterStakesSlot (Address_Hash voter))) m)
           (GetVoters c sc candidate) []
     in \<lparr>Owner = owner, VoterStakes = voteStakes, TotalStake = totalStake\<rparr>)"

definition GetValidatorsData ::
    "stateDBStakingCaller \<Rightarrow> address \<Rightarrow> address list \<Rightarrow> (address \<times> CandidateData) list" where
  "GetValidatorsData c sc candidates =
    fold (\<lambda>candidate m. put_entry candidate (GetCandidateData c sc candidate) m) candidates []"

section \<open>The reader that calls the contract\<close>

record contract_view =
  cv_Candidates :: "address list"
  cv_Stakes :: "int list"
  cv_ValidatorSize :: int
  cv_MinValidatorCap :: int

record staking_contract =
  cc_GetListCandidates :: "error + contract_view"
  cc_GetCandidateOwner :: "address \<Rightarrow> error + address"
  cc_GetVoterStake :: "address \<Rightarrow> address \<Rightarrow> error + int"
  cc_GetCandidateData :: "address \<Rightarrow> error + address \<times> int"
  cc_GetVoters :: "address \<Rightarrow> error + address list"
  cc_GetVoterStakes :: "address \<Rightarrow> address list \<Rightarrow> error + int list"

text \<open>The loop over the candidates; it ends with the first failing call.\<close>

fun eligible :: "staking_contract \<Rightarrow> int \<Rightarrow> (address \<times> int) list \<Rightarrow> error + (address \<times> int) list" where
  "eligible sc minValidatorStake [] = Inr []"
| "eligible sc minValidatorStake ((candidate, stk) # rest) =
    (case cc_GetCandidateOwner sc candidate of
       Inl err \<Rightarrow> Inl err
     | Inr own \<Rightarrow>
         (case cc_GetVoterStake sc candidate own of
            Inl err \<Rightarrow> Inl err
          | Inr stake \<Rightarrow>
              (case eligible sc minValidatorStake rest of
                 Inl err \<Rightarrow> Inl err
               | Inr es \<Rightarrow> Inr (if stake < minValidatorStake then es else (candidate, stk) # es))))"

text \<open>The stakes are looked up in a map, where a later entry for an address replaces an earlier one.\<close>

definition stake_in :: "(address \<times> int) list \<Rightarrow> address \<Rightarrow> int" where
  "stake_in es a = (case map_of (rev es) a of Some s \<Rightarrow> s | None \<Rightarrow> 0)"

definition evm_GetValidators :: "(byte list \<Rightarrow> hash) \<Rightarrow> staking_contract \<Rightarrow> (error + address list) outcome" where
  "evm_GetValidators kec sc =
    (case cc_GetListCandidates sc of
       Inl err \<Rightarrow> Done (Inl err)
     | Inr data \<Rightarrow>
         if length (cv_Candidates data) \<noteq> length (cv_Stakes data)
         then Done (Inl (ErrOther ''length of stakes is not equal to length of candidates''))
         else case eligible sc (cv_MinValidatorCap data) (zip (cv_Candidates data) (cv_Stakes data)) of
                Inl err \<Rightarrow> Done (Inl err)
              | Inr es \<Rightarrow>
                  let size = i64 (cv_ValidatorSize data)
                  in if es = [] then Done (Inl ErrEmptyValidatorSet)
                     else if int (length es) < size then Done (Inr (map fst es))
                     else if size < 0 then Panic ''slice bounds out of range''
                     else Done (Inr (take (nat size) (by_stake kec (stake_in es) (map fst es)))))"

definition evm_CandidateData :: "staking_contract \<Rightarrow> address \<Rightarrow> error + CandidateData" where
  "evm_CandidateData sc candidate =
    (case cc_GetCandidateData sc candidate of
       Inl err \<Rightarrow> Inl err
     | Inr (owner, totalStake) \<Rightarrow>
         (case cc_GetVoters sc candidate of
            Inl err \<Rightarrow> Inl err
          | Inr voters \<Rightarrow>
              (case cc_GetVoterStakes sc candidate voters of
                 Inl err \<Rightarrow> Inl err
               | Inr voterStakes \<Rightarrow>
                   if length voterStakes \<noteq> length voters
                   then Inl (ErrOther ''length of voters is not equal to length of stakes'')
                   else Inr \<lparr>Owner = owner,
                     VoterStakes = fold (\<lambda>(v, s) m. put_entry v s m) (zip voters voterStakes) [],
                     TotalStake = totalStake\<rparr>)))"

fun evm_GetValidatorsData ::
    "staking_contract \<Rightarrow> address list \<Rightarrow> (address \<times> CandidateData) list \<Rightarrow> error + (address \<times> CandidateData) list" where
  "evm_GetValidatorsData sc [] m = Inr m"
| "evm_GetValidatorsData sc (candidate # rest) m =
    (case evm_CandidateData sc candidate of
       Inl err \<Rightarrow> Inl err
     | Inr data \<Rightarrow> evm_GetValidatorsData sc rest (put_entry candidate data m))"

section \<open>Entries\<close>

lemma map_of_put_entry [simp]: "map_of (put_entry k v m) = (map_of m)(k \<mapsto> v)"
  by (induction m) (auto simp: put_entry_def)

lemma distinct_put_entry: "distinct (map fst m) \<Longrightarrow> distinct (map fst (put_entry k v m))"
  by (induction m) (auto simp: put_entry_def)

lemma distinct_put_entries:
  "distinct (map fst m) \<Longrightarrow> distinct (map fst (fold (\<lambda>x m. put_entry (f x) (g x) m) xs m))"
  by (induction xs arbitrary: m) (simp_all add: distinct_put_entry)

lemma GetValidatorsData_map_of:
  "map_of (GetValidatorsData c sc candidates) a =
     (if a \<in> set candidates then Some (GetCandidateData c sc a) else None)"
proof -
  have "map_of (fold (\<lambda>x m. put_entry x (GetCandidateData c sc x) m) xs m) a =
      (if a \<in> set xs then Some (GetCandidateData c sc a) else map_of m a)" for xs m
    by (induction xs arbitrary: m) auto
  then show ?thesis
    by (simp add: GetValidatorsData_def)
qed

section \<open>The seats\<close>

text \<open>The sorted slice, and what cutting it means.\<close>

lemma by_stake_simps [simp]: "set (by_stake kec st xs) = set xs" "length (by_stake kec st xs) = length xs"
  by (simp_all add: by_stake_def)

lemma set_take_drop: "set xs = set (take k xs) \<union> set (drop k xs)"
  unfolding set_append [symmetric] append_take_drop_id ..

lemma by_stake_take_top:
  assumes "a \<in> set (take n (by_stake kec st xs))" "b \<in> set (drop n (by_stake kec st xs))"
  shows "st b \<le> st a"
proof -
  let ?f = "\<lambda>a. (st a, Address_Hex kec a)"
  have "sorted_wrt (\<lambda>x y. ?f y \<le> ?f x) (by_stake kec st xs)"
    using sorted_sort_key [of ?f xs] by (simp add: by_stake_def sorted_wrt_rev sorted_wrt_map)
  then have "sorted_wrt (\<lambda>x y. ?f y \<le> ?f x) (take n (by_stake kec st xs) @ drop n (by_stake kec st xs))"
    by simp
  then have "?f b \<le> ?f a"
    using assms unfolding sorted_wrt_append by blast
  then show ?thesis
    by (auto simp: less_eq_prod_def)
qed

text \<open>The contract's methods when they answer: the owner of a candidate and what it staked itself.\<close>

definition answers :: "staking_contract \<Rightarrow> contract_view \<Rightarrow> (address \<Rightarrow> address) \<Rightarrow> (address \<Rightarrow> address \<Rightarrow> int) \<Rightarrow> bool" where
  "answers sc data own voted \<longleftrightarrow>
     cc_GetListCandidates sc = Inr data \<and> length (cv_Candidates data) = length (cv_Stakes data) \<and>
     distinct (cv_Candidates data) \<and>
     (\<forall>a. cc_GetCandidateOwner sc a = Inr (own a)) \<and> (\<forall>a v. cc_GetVoterStake sc a v = Inr (voted a v))"

lemma eligible_answers:
  assumes "answers sc data own voted"
  shows "eligible sc m xs = Inr (filter (\<lambda>(a, _). m \<le> voted a (own a)) xs)"
  using assms by (induction xs) (auto simp: answers_def not_less)

lemma stake_in_distinct: "distinct (map fst es) \<Longrightarrow> (a, s) \<in> set es \<Longrightarrow> stake_in es a = s"
  using map_of_is_SomeI [of "rev es" a s] by (simp add: stake_in_def rev_map [symmetric])


definition staking_example :: staking_contract where
  "staking_example =
    \<lparr>cc_GetListCandidates = Inr \<lparr>cv_Candidates = [1, 2, 3], cv_Stakes = [0, 10, 20], cv_ValidatorSize = 1, cv_MinValidatorCap = 5\<rparr>,
     cc_GetCandidateOwner = Inr, cc_GetVoterStake = (\<lambda>a v. Inr (if a = 1 then 0 else if a = 2 then 10 else 20)),
     cc_GetCandidateData = (\<lambda>a. Inr (a, 0)), cc_GetVoters = (\<lambda>_. Inr []), cc_GetVoterStakes = (\<lambda>_ _. Inr [])\<rparr>"

lemma staking_example_answers:
  "answers staking_example \<lparr>cv_Candidates = [1, 2, 3], cv_Stakes = [0, 10, 20], cv_ValidatorSize = 1, cv_MinValidatorCap = 5\<rparr>
     id (\<lambda>a v. if a = 1 then 0 else if a = 2 then 10 else 20)"
  by (simp add: answers_def staking_example_def)


lemma fst_filter_zip:
  "length xs = length ys \<Longrightarrow> map fst (filter (\<lambda>(a, _). P a) (zip xs ys)) = filter P xs"
  by (induction xs ys rule: list_induct2) auto


text \<open>
  A contract with the candidates 1, 2 and 3, which have staked 0, 10 and 20; the least stake of a
  validator is 5.  The hash function keeps its first 32 bytes recognisable.
\<close>

definition example_kec :: "byte list \<Rightarrow> hash" where
  "example_kec b = of_nat (1000 * be_val (take 32 b) + length b)"

definition example_state :: "nat \<Rightarrow> stateDBStakingCaller" where
  "example_state seats =
    \<lparr>sc_stateDB = \<lparr>GetCode = (\<lambda>_. [0]),
       GetState = (\<lambda>_. (\<lambda>_. 0)(4 := 3, 4032 := 1, 4033 := 2, 4034 := 3, 7 := of_nat seats, 8 := 5, 2065 := 10, 3065 := 20))\<rparr>,
     sc_config = DefaultIndexConfig, sc_kec = example_kec\<rparr>"

lemma be_val_Hash_Bytes: "be_val (Hash_Bytes h) = unat h"
proof -
  have "unat h < 2 ^ LENGTH(256)"
    by (rule unsigned_less)
  then show ?thesis
    by (simp add: Hash_Bytes_def be_val_fixed_bytes)
qed

lemma length_Hash_Bytes [simp]: "length (Hash_Bytes h) = 32"
  by (simp add: Hash_Bytes_def)

lemma example_locations:
  "example_kec (Hash_Bytes h) = 1000 * h + 32" "example_kec (Hash_Bytes k @ Hash_Bytes h) = 1000 * k + 64"
  by (simp_all add: example_kec_def be_val_Hash_Bytes)

lemmas example_simps = example_state_def DefaultIndexConfig_def NewLayOut_def slotHash_def getElementArrayLoc_def
  getMappingElementLoc_def addOffsetToLoc_def candidateLoc_def example_locations getAddress_def getBigInt_def
  Hash_Address_def Address_Hash_def

lemma example_candidates: "GetCandidates (example_state seats) sc = Inr [1, 2, 3]"
  by (simp add: GetCandidates_def example_simps Uint64_def upt_rec)

lemma example_stakes:
  "GetCandidateStake (example_state seats) sc 1 = 0" "GetCandidateStake (example_state seats) sc 2 = 10"
  "GetCandidateStake (example_state seats) sc 3 = 20" "GetMinValidatorStake (example_state seats) sc = 5"
  by (simp_all add: GetCandidateStake_def GetMinValidatorStake_def example_simps)

lemma example_seats:
  "GetMaxValidatorSize (example_state 1) sc = 1" "GetMaxValidatorSize (example_state 5) sc = 5"
  "GetCode (sc_stateDB (example_state seats)) sc \<noteq> []"
  by (simp_all add: GetMaxValidatorSize_def example_simps)



end
