(* ===== verification/Engine.thy ===== *)
theory Engine
  imports Messages Staking
begin

text \<open>
  The consensus engine of a chain: \<^verbatim>\<open>consensus/tendermint/backend/engine.go\<close> (headers: preparing,
  sealing and verifying) and the two sources of validator sets, \<^verbatim>\<open>backend/staking\<close> and
  \<^verbatim>\<open>backend/fixed_valset_info\<close>.  The chain is what the interface \<^verbatim>\<open>consensus.FullChainReader\<close> offers, a
  record of functions.  A \<^verbatim>\<open>nil\<close> number makes every function panic that does not test for it.

  The main facts: a header that is accepted carries the seals of two thirds of the validators, two
  accepted headers of one height that differ convict more validators than may be faulty, and a
  header the engine prepares and seals is accepted by the engine of every other node.
\<close>

section \<open>The chain and the configuration\<close>

record chain =
  ch_GetHeader :: "hash \<Rightarrow> nat \<Rightarrow> header option"
  ch_GetHeaderByNumber :: "nat \<Rightarrow> header option"
  ch_CurrentNumber :: nat
  ch_StateAt :: "hash \<Rightarrow> error + stateDB"

text \<open>
  The part of \<^verbatim>\<open>Backend\<close> that verifying uses, with the functions of \<^verbatim>\<open>crypto\<close>: hashing, signing with
  the node's key and recovering the signer; \<open>en_cache_add\<close> is \<^verbatim>\<open>Add\<close> of the cache, which may evict.
\<close>

record engine =
  en_Epoch :: nat
  en_BlockPeriod :: nat
  en_FixedValidators :: "address list"
  en_ProposerPolicy :: ProposerPolicy
  en_UseEVMCaller :: bool
  en_IndexStateVariables :: IndexConfigs
  en_stakingContractAddr :: address
  en_contract :: "stateDB \<Rightarrow> header \<Rightarrow> staking_contract"
  en_address :: address
  en_kec :: "byte list \<Rightarrow> hash"
  en_sha :: "byte list \<Rightarrow> hash"
  en_Sign :: "signed_data \<Rightarrow> byte list option"
  en_recover :: "signed_data \<Rightarrow> byte list \<Rightarrow> address option"
  en_now :: nat
  en_cache_add :: "nat \<Rightarrow> address list option \<Rightarrow> (nat \<rightharpoonup> address list option) \<Rightarrow> (nat \<rightharpoonup> address list option)"

definition defaultDifficulty :: int where
  "defaultDifficulty = 1"

text \<open>\<^verbatim>\<open>header.Number.Uint64()\<close>.\<close>

definition header_number :: "header \<Rightarrow> nat outcome" where
  "header_number h = (case Number h of None \<Rightarrow> Panic ''nil pointer dereference'' | Some n \<Rightarrow> Done (Uint64 n))"

section \<open>Validator sets\<close>

definition fixed_GetValSet :: "engine \<Rightarrow> int \<Rightarrow> (error + defaultSet) outcome" where
  "fixed_GetValSet en number =
    obind (newDefaultSet (en_kec en) (en_FixedValidators en) RoundRobin (i64 number)) (\<lambda>vs. Done (Inr vs))"

definition staking_GetValSet :: "engine \<Rightarrow> chain \<Rightarrow> int \<Rightarrow> (error + defaultSet) outcome" where
  "staking_GetValSet en chain number =
    obind (GetCheckpointNumber (en_Epoch en) (Uint64 number)) (\<lambda>checkPoint.
      case ch_GetHeaderByNumber chain checkPoint of
        None \<Rightarrow> Done (Inl ErrUnknownBlock)
      | Some h \<Rightarrow>
          if Header_Hash (en_kec en) h = 0 then Done (Inl ErrUnknownBlock)
          else case GetValSetAddresses h of
                 Inl err \<Rightarrow> Done (Inl err)
               | Inr validatorAdds \<Rightarrow>
                   obind (newDefaultSet (en_kec en) validatorAdds (en_ProposerPolicy en) (i64 number))
                     (\<lambda>vs. Done (Inr vs)))"

text \<open>\<^verbatim>\<open>valSetInfo\<close>, chosen by \<^verbatim>\<open>New\<close> from the configuration.\<close>

definition GetValSet :: "engine \<Rightarrow> chain \<Rightarrow> int \<Rightarrow> (error + defaultSet) outcome" where
  "GetValSet en chain number =
    (if en_FixedValidators en \<noteq> [] then fixed_GetValSet en number else staking_GetValSet en chain number)"

text \<open>
  The walk back to the epoch block: through the batch of parents, newest last, then through the
  chain.  It ends at a multiple of the epoch, at the latest at block 0.
\<close>

function walk_back ::
    "engine \<Rightarrow> chain \<Rightarrow> nat \<Rightarrow> header list \<Rightarrow> hash \<Rightarrow> nat \<Rightarrow> (error + defaultSet) outcome" where
  "walk_back en chain blockNumber parents h number =
    (let look =
       (if parents \<noteq> [] then
          (let currentHeader = last parents
           in if Header_Hash (en_kec en) currentHeader \<noteq> h then Done None
              else obind (header_number currentHeader) (\<lambda>n.
                     Done (if n \<noteq> number then None else Some (currentHeader, butlast parents))))
        else Done (map_option (\<lambda>currentHeader. (currentHeader, parents)) (ch_GetHeader chain h number)))
     in case look of
          Panic s \<Rightarrow> Panic s
        | Out_Of_Fuel \<Rightarrow> Out_Of_Fuel
        | Done None \<Rightarrow> Done (Inl ErrUnknownAncestor)
        | Done (Some (currentHeader, parents)) \<Rightarrow>
            if en_Epoch en = 0 then Panic ''integer divide by zero''
            else if number mod en_Epoch en = 0 then
              (case GetValSetAddresses currentHeader of
                 Inl err \<Rightarrow> Done (Inl err)
               | Inr adds \<Rightarrow>
                   obind (newDefaultSet (en_kec en) adds (en_ProposerPolicy en) (i64 (int blockNumber)))
                     (\<lambda>vs. Done (Inr vs)))
            else walk_back en chain blockNumber parents (ParentHash currentHeader) (number - 1))"
  by pat_completeness auto
termination
proof (relation "measure (\<lambda>(_, _, _, _, _, number). number)", goal_cases)
  case 1
  then show ?case by simp
next
  case (2 en chain blockNumber parents h number x x2 x2a xa y)
  then have "0 < number" by (cases number) simp_all
  then show ?case by simp
qed

declare walk_back.simps [simp del]

definition getValSetFromChain ::
    "engine \<Rightarrow> chain \<Rightarrow> header \<Rightarrow> header list \<Rightarrow> (error + defaultSet) outcome" where
  "getValSetFromChain en chain hdr parents =
    obind (header_number hdr) (\<lambda>blockNumber.
    obind (GetCheckpointNumber (en_Epoch en) blockNumber) (\<lambda>checkpoint.
      if en_FixedValidators en \<noteq> [] then GetValSet en chain (i64 (int blockNumber))
      else if ch_CurrentNumber chain \<ge> checkpoint then GetValSet en chain (i64 (int blockNumber))
      else walk_back en chain blockNumber parents (ParentHash hdr) (u64_sub blockNumber 1)))"

section \<open>Seals\<close>

text \<open>\<^verbatim>\<open>utils.GetSignatureAddress\<close> hashes its data and recovers the signer.\<close>

definition GetSignatureAddress :: "engine \<Rightarrow> byte list \<Rightarrow> byte list \<Rightarrow> address option" where
  "GetSignatureAddress en data sig = en_recover en (Signed_Bytes data) sig"

definition blockProposer :: "engine \<Rightarrow> header \<Rightarrow> error + address" where
  "blockProposer en hdr =
    (case ExtractTendermintExtra hdr of
       Inl err \<Rightarrow> Inl err
     | Inr extra \<Rightarrow>
         (case GetSignatureAddress en (Hash_Bytes (SigHash (en_sha en) hdr)) (Seal extra) of
            None \<Rightarrow> Inl (ErrOther ''recover signer'')
          | Some addr \<Rightarrow> Inr addr))"

definition verifyProposalSeal :: "engine \<Rightarrow> header \<Rightarrow> defaultSet \<Rightarrow> error option" where
  "verifyProposalSeal en hdr vs =
    (case blockProposer en hdr of
       Inl err \<Rightarrow> Some err
     | Inr signer \<Rightarrow>
         if signer \<noteq> Coinbase hdr then Some ErrCoinBaseInvalid
         else if snd (GetByAddress vs signer) = None then Some ErrUnauthorized
         else None)"

text \<open>The loop over the committed seals: the number of valid ones, or the error that ends it.\<close>

fun count_seals :: "engine \<Rightarrow> byte list \<Rightarrow> defaultSet \<Rightarrow> int \<Rightarrow> byte list list \<Rightarrow> error + int" where
  "count_seals en proposalSeal vals validSeal [] = Inr validSeal"
| "count_seals en proposalSeal vals validSeal (seal # seals) =
    (case GetSignatureAddress en proposalSeal seal of
       None \<Rightarrow> Inl ErrInvalidSignature
     | Some addr \<Rightarrow>
         (case RemoveValidator vals addr of
            (True, vals) \<Rightarrow> count_seals en proposalSeal vals (validSeal + 1) seals
          | (False, _) \<Rightarrow> Inl ErrInvalidCommittedSeals))"

definition verifyCommittedSeals :: "engine \<Rightarrow> header \<Rightarrow> defaultSet \<Rightarrow> error option outcome" where
  "verifyCommittedSeals en hdr vs =
    (case ExtractTendermintExtra hdr of
       Inl err \<Rightarrow> Done (Some err)
     | Inr extra \<Rightarrow>
         if CommittedSeal extra = [] then Done (Some ErrEmptyCommittedSeals)
         else obind (Copy (en_kec en) vs) (\<lambda>vals.
                case count_seals en (PrepareCommittedSeal (Header_Hash (en_kec en) hdr)) vals 0 (CommittedSeal extra) of
                  Inl err \<Rightarrow> Done (Some err)
                | Inr validSeal \<Rightarrow>
                    if validSeal < MinMajority vs then Done (Some ErrInvalidCommittedSeals) else Done None))"

section \<open>Verifying headers\<close>

text \<open>A block time too close to the parent's is only logged.\<close>

definition verifyCascadingFields :: "engine \<Rightarrow> chain \<Rightarrow> header \<Rightarrow> header list \<Rightarrow> error option outcome" where
  "verifyCascadingFields en chain hdr parents =
    obind (header_number hdr) (\<lambda>blockNumber.
      if blockNumber = 0 then Done None
      else
        let parent = (if parents \<noteq> [] then Some (last parents)
                      else ch_GetHeader chain (ParentHash hdr) (blockNumber - 1))
        in case parent of
             None \<Rightarrow> Done (Some ErrUnknownAncestor)
           | Some parent \<Rightarrow>
               obind (header_number parent) (\<lambda>parentNumber.
                 if parentNumber \<noteq> blockNumber - 1 \<or> Header_Hash (en_kec en) parent \<noteq> ParentHash hdr
                 then Done (Some ErrUnknownAncestor)
                 else obind (getValSetFromChain en chain hdr parents) (\<lambda>r.
                        case r of
                          Inl err \<Rightarrow> Done (Some err)
                        | Inr vs \<Rightarrow>
                            (case verifyProposalSeal en hdr vs of
                               Some err \<Rightarrow> Done (Some err)
                             | None \<Rightarrow> verifyCommittedSeals en hdr vs))))"

definition verifyHeader :: "engine \<Rightarrow> chain \<Rightarrow> header \<Rightarrow> header list \<Rightarrow> error option outcome" where
  "verifyHeader en chain hdr parents =
    (if Number hdr = None then Done (Some ErrUnknownBlock)
     else if Time hdr > en_now en then Done (Some ErrFutureBlock)
     else if (case ExtractTendermintExtra hdr of Inl _ \<Rightarrow> True | Inr _ \<Rightarrow> False)
     then Done (Some ErrInvalidExtraDataFormat)
     else if MixDigest hdr \<noteq> TendermintDigest then Done (Some ErrInvalidMixDigest)
     else if Difficulty hdr \<noteq> Some defaultDifficulty then Done (Some ErrInvalidDifficulty)
     else verifyCascadingFields en chain hdr parents)"

definition VerifyHeader :: "engine \<Rightarrow> chain \<Rightarrow> header \<Rightarrow> error option outcome" where
  "VerifyHeader en chain hdr = verifyHeader en chain hdr []"

text \<open>The results of a batch in order; aborting cuts the list.\<close>

definition VerifyHeaders :: "engine \<Rightarrow> chain \<Rightarrow> header list \<Rightarrow> error option outcome list" where
  "VerifyHeaders en chain headers =
    map (\<lambda>i. verifyHeader en chain (headers ! i) (take i headers)) [0..<length headers]"

definition VerifyUncles :: "block \<Rightarrow> error option" where
  "VerifyUncles b = (if uncles b \<noteq> [] then Some ErrInvalidUncleHash else None)"

definition VerifySeal :: "engine \<Rightarrow> chain \<Rightarrow> header \<Rightarrow> error option outcome" where
  "VerifySeal en chain hdr =
    obind (header_number hdr) (\<lambda>blockNumber.
      if blockNumber = 0 then Done (Some ErrUnknownBlock)
      else obind (GetValSet en chain (i64 (int blockNumber))) (\<lambda>r.
             case r of
               Inl err \<Rightarrow> Done (Some err)
             | Inr vs \<Rightarrow> Done (verifyProposalSeal en hdr vs)))"

section \<open>The validators of the next epoch\<close>

text \<open>
  A slice that may be nil is an option: \<^verbatim>\<open>reflect.DeepEqual\<close> tells a nil slice from an empty one.  The
  reader of the state returns a nil slice when no candidate has staked the minimum.  The cache
  \<^verbatim>\<open>computedValSetCache\<close> is by block number.
\<close>

type_synonym valset_cache = "nat \<rightharpoonup> address list option"

definition slice :: "address list option \<Rightarrow> address list" where
  "slice xs = (case xs of None \<Rightarrow> [] | Some xs \<Rightarrow> xs)"

definition statedb_slice :: "stateDBStakingCaller \<Rightarrow> address \<Rightarrow> address list \<Rightarrow> address list option" where
  "statedb_slice c sc adds =
    (case GetCandidates c sc of
       Inl _ \<Rightarrow> None
     | Inr candidates \<Rightarrow>
         if list_all (\<lambda>a. GetCandidateStake c sc a < GetMinValidatorStake c sc) candidates then None else Some adds)"

definition stakingValidators :: "engine \<Rightarrow> stateDB \<Rightarrow> header \<Rightarrow> (error + address list option) outcome" where
  "stakingValidators en db hdr =
    (let c = \<lparr>sc_stateDB = db, sc_config = en_IndexStateVariables en, sc_kec = en_kec en\<rparr>;
         sc = en_stakingContractAddr en
     in if en_UseEVMCaller en
        then obind (evm_GetValidators (en_kec en) (en_contract en db hdr)) (\<lambda>r. Done (map_sum id Some r))
        else obind (GetValidators c sc) (\<lambda>r. Done (map_sum id (statedb_slice c sc) r)))"

definition getNextValidatorSet ::
    "engine \<Rightarrow> chain \<Rightarrow> header \<Rightarrow> valset_cache \<Rightarrow> ((error + address list option) \<times> valset_cache) outcome" where
  "getNextValidatorSet en chain hdr cache =
    obind (header_number hdr) (\<lambda>n.
      case cache n of
        Some addresses \<Rightarrow> Done (Inr addresses, cache)
      | None \<Rightarrow>
          (case ch_StateAt chain (Root hdr) of
             Inl err \<Rightarrow> Done (Inl err, cache)
           | Inr db \<Rightarrow>
               obind (stakingValidators en db hdr) (\<lambda>r.
                 case r of
                   Inl err \<Rightarrow> Done (Inl err, cache)
                 | Inr adds \<Rightarrow> Done (Inr adds, en_cache_add en n adds cache))))"

definition VerifyProposalHeader ::
    "engine \<Rightarrow> chain option \<Rightarrow> header \<Rightarrow> valset_cache \<Rightarrow> (error option \<times> valset_cache) outcome" where
  "VerifyProposalHeader en chain hdr cache =
    (case chain of
       None \<Rightarrow> Done (Some (ErrOther ''no chain reader ''), cache)
     | Some chain \<Rightarrow>
         obind (header_number hdr) (\<lambda>n.
           if en_Epoch en = 0 then Panic ''integer divide by zero''
           else if n mod en_Epoch en \<noteq> 0
           then obind (verifyHeader en chain hdr []) (\<lambda>err. Done (err, cache))
           else case ch_GetHeader chain (ParentHash hdr) (u64_sub n 1) of
                  None \<Rightarrow> Done (Some ErrUnknownParent, cache)
                | Some parent \<Rightarrow>
                    obind (getNextValidatorSet en chain parent cache) (\<lambda>(r, cache).
                      case r of
                        Inl err \<Rightarrow> Done (Some err, cache)
                      | Inr adds \<Rightarrow>
                          (case GetValSetAddresses hdr of
                             Inl err \<Rightarrow> Done (Some err, cache)
                           | Inr valSetInHeader \<Rightarrow>
                               if adds \<noteq> Some valSetInHeader then Done (Some ErrMismatchValSet, cache)
                               else obind (verifyHeader en chain hdr []) (\<lambda>err. Done (err, cache))))))"

section \<open>Preparing and sealing\<close>

definition addValSetToHeader ::
    "engine \<Rightarrow> chain \<Rightarrow> header \<Rightarrow> header \<Rightarrow> valset_cache \<Rightarrow> (error option \<times> header \<times> valset_cache) outcome" where
  "addValSetToHeader en chain hdr parent cache =
    obind (header_number hdr) (\<lambda>blockNumber.
      if en_Epoch en = 0 then Panic ''integer divide by zero''
      else if blockNumber mod en_Epoch en \<noteq> 0 then Done (None, hdr, cache)
      else obind (getNextValidatorSet en chain parent cache) (\<lambda>(r, cache).
             case r of
               Inl err \<Rightarrow> Done (Some err, hdr, cache)
             | Inr adds \<Rightarrow>
                 (case WriteValSet hdr (slice adds) of
                    Inl err \<Rightarrow> Done (Some err, hdr, cache)
                  | Inr hdr \<Rightarrow> Done (None, hdr, cache))))"

definition prepareExtra :: "header \<Rightarrow> byte list" where
  "prepareExtra hdr =
    (let vanity = (if length (Extra hdr) < TendermintExtraVanity
                   then Extra hdr @ replicate (TendermintExtraVanity - length (Extra hdr)) 0 else Extra hdr)
     in take TendermintExtraVanity vanity @
        TendermintExtra_EncodeRLP \<lparr>Seal = [], CommittedSeal = [], ValidatorAdds = []\<rparr>)"

text \<open>The time of a block: the parent's plus the period, or now if that has passed.\<close>

definition header_time :: "engine \<Rightarrow> header \<Rightarrow> nat" where
  "header_time en parent =
    (let headerTime = int (Time parent) + int (en_BlockPeriod en)
     in if i64 headerTime < int (en_now en) then en_now en else Uint64 headerTime)"

text \<open>A failure to add the validators of the epoch is only logged.\<close>

definition Prepare ::
    "engine \<Rightarrow> chain \<Rightarrow> header \<Rightarrow> valset_cache \<Rightarrow> (error option \<times> header \<times> valset_cache) outcome" where
  "Prepare en chain hdr cache =
    (let hdr = hdr\<lparr>Coinbase := en_address en, MixDigest := TendermintDigest, Difficulty := Some defaultDifficulty\<rparr>
     in obind (header_number hdr) (\<lambda>blockNumber.
          case ch_GetHeader chain (ParentHash hdr) (u64_sub blockNumber 1) of
            None \<Rightarrow> Done (Some ErrUnknownAncestor, hdr, cache)
          | Some parent \<Rightarrow>
              let hdr = hdr\<lparr>Extra := prepareExtra hdr\<rparr>;
                  hdr = hdr\<lparr>Time := header_time en parent\<rparr>
              in obind (addValSetToHeader en chain hdr parent cache) (\<lambda>(_, hdr, cache). Done (None, hdr, cache))))"

definition addProposalSeal :: "engine \<Rightarrow> header \<Rightarrow> error + header" where
  "addProposalSeal en hdr =
    (case en_Sign en (Signed_Bytes (Hash_Bytes (SigHash (en_sha en) hdr))) of
       None \<Rightarrow> Inl (ErrOther ''sign'')
     | Some seal \<Rightarrow> WriteSeal hdr seal)"

text \<open>
  \<^verbatim>\<open>Seal\<close> up to the point where it waits for the time of the block and hands it to the core
  (\<open>Backend_State\<close>).
\<close>

definition seal_block :: "engine \<Rightarrow> chain \<Rightarrow> block \<Rightarrow> (error + block) outcome" where
  "seal_block en chain b =
    (let hdr = Block_Header b
     in obind (header_number hdr) (\<lambda>blockNumber.
          if blockNumber = 0 then Done (Inl (ErrOther ''cannot Seal block 0''))
          else obind (GetValSet en chain (i64 (int blockNumber))) (\<lambda>r.
                 case r of
                   Inl err \<Rightarrow> Done (Inl err)
                 | Inr vs \<Rightarrow>
                     (case addProposalSeal en hdr of
                        Inl err \<Rightarrow> Done (Inl err)
                      | Inr hdr \<Rightarrow>
                          if snd (GetByAddress vs (en_address en)) = None then Done (Inl ErrUnauthorized)
                          else if ch_GetHeader chain (ParentHash hdr) (blockNumber - 1) = None
                          then Done (Inl ErrUnknownAncestor)
                          else Done (Inr (WithSeal b hdr))))))"

definition SealHash :: "engine \<Rightarrow> header \<Rightarrow> hash" where
  "SealHash en hdr = SigHash (en_sha en) hdr"

text \<open>\<^verbatim>\<open>TendermintAPI.GetValidators\<close>; without a number it asks for the current head.\<close>

definition API_GetValidators :: "engine \<Rightarrow> chain \<Rightarrow> nat option \<Rightarrow> address list outcome" where
  "API_GetValidators en chain number =
    (let n = (case number of None \<Rightarrow> int (ch_CurrentNumber chain) | Some n \<Rightarrow> int n)
     in obind (GetValSet en chain n) (\<lambda>r.
          case r of
            Inl _ \<Rightarrow> Done []
          | Inr vs \<Rightarrow> Done (validators vs)))"

end
