(* ===== verification/Engine_Verify.thy ===== *)
theory Engine_Verify
  imports Engine
begin

text \<open>
  What the header checks of \<open>Engine\<close> guarantee: the seals of an accepted header, what two conflicting
  accepted headers prove, where the validator set comes from, and that the engine accepts what it
  has prepared and sealed.
\<close>

section \<open>Committed seals\<close>

text \<open>A case distinction with a given result, as a disjunction over its branches.\<close>

lemma sum_case_eq:
  "(case r of Inl e \<Rightarrow> f e | Inr x \<Rightarrow> g x) = y \<longleftrightarrow> (\<exists>e. r = Inl e \<and> f e = y) \<or> (\<exists>x. r = Inr x \<and> g x = y)"
  by (cases r) auto

lemma option_case_eq:
  "(case r of None \<Rightarrow> f | Some x \<Rightarrow> g x) = y \<longleftrightarrow> (r = None \<and> f = y) \<or> (\<exists>x. r = Some x \<and> g x = y)"
  by (cases r) auto

lemmas case_eqs = sum_case_eq option_case_eq

lemma newDefaultSet_validators:
  "newDefaultSet kec adds pol h = Done vs \<Longrightarrow> validators vs = sort_key (Address_Hex kec) adds"
  by (auto simp: newDefaultSet_def Let_def split: if_splits)

lemma Copy_validators:
  assumes "Copy kec vs = Done vals"
  shows "set (validators vals) = set (validators vs)" "distinct (validators vals) = distinct (validators vs)"
  using newDefaultSet_validators [OF assms [unfolded Copy_def]] by simp_all

lemma newDefaultSet_Done: "0 \<le> h \<Longrightarrow> \<exists>vs. newDefaultSet kec adds pol h = Done vs"
  using newDefaultSet_nonempty [of adds h kec pol]
  by (cases "adds = []") (auto simp: newDefaultSet_def Size_def)

lemma count_seals_iff:
  assumes "distinct (validators vals)"
  shows "count_seals en d vals k seals = Inr n \<longleftrightarrow>
    (\<exists>signers. map (GetSignatureAddress en d) seals = map Some signers \<and> distinct signers \<and>
       set signers \<subseteq> set (validators vals) \<and> n = k + int (length signers))"
  using assms
proof (induction seals arbitrary: vals k)
  case (Cons seal seals)
  show ?case
  proof (cases "GetSignatureAddress en d seal")
    case (Some a)
    show ?thesis
    proof (cases "a \<in> set (validators vals)")
      case True
      then obtain vals' where vals': "RemoveValidator vals a = (True, vals')" "distinct (validators vals')"
          "set (validators vals') = set (validators vals) - {a}"
        using vr.remove_present Cons.prems by blast
      have "count_seals en d vals k (seal # seals) = Inr n \<longleftrightarrow>
          (\<exists>signers. map (GetSignatureAddress en d) seals = map Some signers \<and> distinct signers \<and>
             set signers \<subseteq> set (validators vals) - {a} \<and> n = k + 1 + int (length signers))"
        using Cons.IH [OF vals'(2), of "k + 1"] Some vals' by simp
      also have "\<dots> \<longleftrightarrow> (\<exists>signers. map (GetSignatureAddress en d) (seal # seals) = map Some signers \<and> distinct signers \<and>
             set signers \<subseteq> set (validators vals) \<and> n = k + int (length signers))"
        using Some True by (fastforce simp: Cons_eq_map_conv)
      finally show ?thesis .
    next
      case False
      then show ?thesis
        using vr.remove_absent Some by (auto simp: Cons_eq_map_conv)
    qed
  qed (auto simp: Cons_eq_map_conv)
qed auto

text \<open>The validators that have signed a header to commit it.\<close>

definition commit_signers :: "engine \<Rightarrow> defaultSet \<Rightarrow> header \<Rightarrow> address set" where
  "commit_signers en vs hdr =
    {a \<in> set (validators vs). \<exists>te seal. ExtractTendermintExtra hdr = Inr te \<and> seal \<in> set (CommittedSeal te) \<and>
       GetSignatureAddress en (PrepareCommittedSeal (Header_Hash (en_kec en) hdr)) seal = Some a}"

lemma verifyCommittedSeals_signers:
  assumes "verifyCommittedSeals en hdr vs = Done None" "distinct (validators vs)"
  shows "MinMajority vs \<le> int (card (commit_signers en vs hdr))"
proof -
  let ?d = "PrepareCommittedSeal (Header_Hash (en_kec en) hdr)"
  obtain te vals n where run: "ExtractTendermintExtra hdr = Inr te" "Copy (en_kec en) vs = Done vals"
      "count_seals en ?d vals 0 (CommittedSeal te) = Inr n" "MinMajority vs \<le> n"
    using assms(1) by (auto simp: verifyCommittedSeals_def case_eqs split: if_splits)
  obtain signers where s: "map (GetSignatureAddress en ?d) (CommittedSeal te) = map Some signers" "distinct signers"
      "set signers \<subseteq> set (validators vs)" "n = int (length signers)"
    using run(3) count_seals_iff [of vals en ?d 0 "CommittedSeal te" n] Copy_validators [OF run(2)] assms(2) by auto
  have "\<exists>seal \<in> set (CommittedSeal te). GetSignatureAddress en ?d seal = Some a" if "a \<in> set signers" for a
  proof -
    have "Some a \<in> set (map (GetSignatureAddress en ?d) (CommittedSeal te))"
      using that s(1) by simp
    then show ?thesis
      by (auto simp: image_iff eq_commute)
  qed
  then have "set signers \<subseteq> commit_signers en vs hdr"
    using s(3) run(1) by (auto simp: commit_signers_def)
  then have "card (set signers) \<le> card (commit_signers en vs hdr)"
    by (intro card_mono) (auto simp: commit_signers_def)
  then show ?thesis
    using run(4) s(2,4) by (simp add: distinct_card)
qed

lemma verifyCommittedSeals_complete:
  assumes "ExtractTendermintExtra hdr = Inr te" "CommittedSeal te \<noteq> []" "distinct (validators vs)" "0 \<le> setHeight vs"
    and "map (GetSignatureAddress en (PrepareCommittedSeal (Header_Hash (en_kec en) hdr))) (CommittedSeal te) = map Some signers"
    and "distinct signers" "set signers \<subseteq> set (validators vs)" "MinMajority vs \<le> int (length signers)"
  shows "verifyCommittedSeals en hdr vs = Done None"
proof -
  obtain vals where vals: "Copy (en_kec en) vs = Done vals"
    using newDefaultSet_Done [OF assms(4), of "en_kec en" "validators vs" "policy vs"] by (auto simp: Copy_def)
  then have "count_seals en (PrepareCommittedSeal (Header_Hash (en_kec en) hdr)) vals 0 (CommittedSeal te) =
      Inr (int (length signers))"
    using count_seals_iff [of vals] Copy_validators [OF vals] assms(3,5-7) by auto
  then show ?thesis
    using assms(1,2,8) vals by (simp add: verifyCommittedSeals_def)
qed

section \<open>Accepted headers\<close>

lemma verifyHeader_accepts:
  assumes "verifyHeader en chain hdr parents = Done None" "Number hdr = Some n" "Uint64 n \<noteq> 0"
  obtains vs te where "getValSetFromChain en chain hdr parents = Done (Inr vs)" "ExtractTendermintExtra hdr = Inr te"
    "MixDigest hdr = TendermintDigest" "verifyProposalSeal en hdr vs = None" "verifyCommittedSeals en hdr vs = Done None"
proof -
  have cascade: "verifyCascadingFields en chain hdr parents = Done None" "MixDigest hdr = TendermintDigest"
    using assms(1,2) by (auto simp: verifyHeader_def split: if_splits)
  obtain te where te: "ExtractTendermintExtra hdr = Inr te"
    using assms(1) by (auto simp: verifyHeader_def split: if_splits sum.splits)
  have "\<exists>vs. getValSetFromChain en chain hdr parents = Done (Inr vs) \<and> verifyProposalSeal en hdr vs = None \<and>
      verifyCommittedSeals en hdr vs = Done None"
    using cascade(1) assms(2,3)
    by (auto simp: verifyCascadingFields_def header_number_def Let_def case_eqs split: if_splits)
  then show thesis
    using that te cascade(2) by blast
qed

lemma GetByAddress_None [simp]: "snd (GetByAddress vs a) = None \<longleftrightarrow> a \<notin> set (validators vs)"
  by (cases "index_of a (validators vs)") (use index_of_None_iff [of a "validators vs"] in \<open>auto simp: GetByAddress_def\<close>)

lemma verifyProposalSeal_None:
  "verifyProposalSeal en hdr vs = None \<longleftrightarrow>
     blockProposer en hdr = Inr (Coinbase hdr) \<and> Coinbase hdr \<in> set (validators vs)"
  by (cases "blockProposer en hdr") (auto simp: verifyProposalSeal_def)

text \<open>
  C8. A header of a block after the first is accepted only if it carries the engine's digest, is
  signed by the validator it names as its proposer, and is sealed by at least two thirds of the
  validators of its height: \<open>MinMajority\<close> different ones have signed its hash.
\<close>

theorem verified_header_quorum:
  assumes "verifyHeader en chain hdr parents = Done None" "Number hdr = Some n" "Uint64 n \<noteq> 0"
  shows "\<exists>vs. getValSetFromChain en chain hdr parents = Done (Inr vs) \<and> MixDigest hdr = TendermintDigest \<and>
    blockProposer en hdr = Inr (Coinbase hdr) \<and> Coinbase hdr \<in> set (validators vs) \<and>
    (distinct (validators vs) \<longrightarrow> MinMajority vs \<le> int (card (commit_signers en vs hdr)))"
proof -
  obtain vs te where vs: "getValSetFromChain en chain hdr parents = Done (Inr vs)" "MixDigest hdr = TendermintDigest"
      "verifyProposalSeal en hdr vs = None" "verifyCommittedSeals en hdr vs = Done None"
    using verifyHeader_accepts [OF assms] .
  then show ?thesis
    using verifyProposalSeal_None [of en hdr vs] verifyCommittedSeals_signers [OF vs(4)] by blast
qed


section \<open>The epoch block\<close>

lemma GetCheckpointNumber_Suc:
  assumes "0 < e"
  shows "GetCheckpointNumber e (Suc n) = Done (n - n mod e)"
proof -
  have "n - n mod e = e * (n div e)"
    by (simp add: minus_mod_eq_mult_div)
  then show ?thesis
    using assms by (auto simp: GetCheckpointNumber_def)
qed

text \<open>
  The ancestors of a header: \<open>A k\<close> is the one with number \<open>k\<close>; those from \<open>m\<close> on are in the batch, the
  earlier ones are in the chain.
\<close>

definition linked :: "engine \<Rightarrow> chain \<Rightarrow> (nat \<Rightarrow> header) \<Rightarrow> nat \<Rightarrow> nat \<Rightarrow> bool" where
  "linked en chain A m n \<longleftrightarrow>
     (\<forall>k \<le> n. Number (A k) = Some (int k)) \<and>
     (\<forall>k < n. ParentHash (A (Suc k)) = Header_Hash (en_kec en) (A k)) \<and>
     (\<forall>k \<le> n. k < m \<longrightarrow> ch_GetHeader chain (Header_Hash (en_kec en) (A k)) k = Some (A k))"

definition epoch_set :: "engine \<Rightarrow> nat \<Rightarrow> header \<Rightarrow> (error + defaultSet) outcome" where
  "epoch_set en blockNumber hdr =
    (case GetValSetAddresses hdr of
       Inl err \<Rightarrow> Done (Inl err)
     | Inr adds \<Rightarrow>
         obind (newDefaultSet (en_kec en) adds (en_ProposerPolicy en) (i64 (int blockNumber))) (\<lambda>vs. Done (Inr vs)))"

lemma walk_back_linked:
  assumes "0 < en_Epoch en"
  shows "linked en chain A m n \<Longrightarrow> n < 2 ^ 64 \<Longrightarrow>
    walk_back en chain blockNumber (map A [m..<Suc n]) (Header_Hash (en_kec en) (A n)) n =
    epoch_set en blockNumber (A (n - n mod en_Epoch en))"
proof (induction n)
  case 0
  then show ?case
    using assms
    by (subst walk_back.simps)
      (cases "m = 0", auto simp: Let_def linked_def header_number_def Uint64_id epoch_set_def)
next
  case (Suc n)
  let ?ps = "map A [m..<Suc (Suc n)]"
  have n: "linked en chain A m n" "n < 2 ^ 64" "ParentHash (A (Suc n)) = Header_Hash (en_kec en) (A n)"
      "Number (A (Suc n)) = Some (int (Suc n))"
    using Suc.prems by (auto simp: linked_def)
  have number: "header_number (A (Suc n)) = Done (Suc n)"
    using n(4) Suc.prems(2) by (simp add: header_number_def Uint64_id nat_add_distrib)
  have step: "walk_back en chain blockNumber ?ps (Header_Hash (en_kec en) (A (Suc n))) (Suc n) =
      (if Suc n mod en_Epoch en = 0 then epoch_set en blockNumber (A (Suc n))
       else walk_back en chain blockNumber (map A [m..<Suc n]) (Header_Hash (en_kec en) (A n)) n)"
  proof (cases "m \<le> Suc n")
    case True
    then have "?ps \<noteq> []" "last ?ps = A (Suc n)" "butlast ?ps = map A [m..<Suc n]"
      by (simp_all add: butlast_append)
    then show ?thesis
      using assms number n(3) by (subst walk_back.simps) (simp add: Let_def epoch_set_def)
  next
    case False
    then have "?ps = []" "map A [m..<Suc n] = []" "ch_GetHeader chain (Header_Hash (en_kec en) (A (Suc n))) (Suc n) = Some (A (Suc n))"
      using Suc.prems(1) by (auto simp: linked_def)
    then show ?thesis
      using assms n(3) by (subst walk_back.simps) (simp add: Let_def epoch_set_def)
  qed
  show ?case
    unfolding step using Suc.IH [OF n(1,2)] assms by (simp add: mod_Suc)
qed

text \<open>
  C29. Verifying a batch of headers finds the validators of its height whether or not the epoch block
  is already in the chain: walking back through the batch and the chain gives the set that
  \<open>GetValSet\<close> reads from the epoch block once it is imported.
\<close>

theorem getValSetFromChain_agrees:
  assumes "0 < en_Epoch en" "en_FixedValidators en = []" "Number hdr = Some (int (Suc n))" "Suc n < 2 ^ 64"
    and "linked en chain A m n" "ParentHash hdr = Header_Hash (en_kec en) (A n)"
    and "ch_CurrentNumber chain < n - n mod en_Epoch en"
    and "ch_GetHeaderByNumber chain' (n - n mod en_Epoch en) = Some (A (n - n mod en_Epoch en))"
    and "Header_Hash (en_kec en) (A (n - n mod en_Epoch en)) \<noteq> 0"
  shows "getValSetFromChain en chain hdr (map A [m..<Suc n]) = GetValSet en chain' (int (Suc n))"
proof -
  have n: "Uint64 (int (Suc n)) = Suc n" "u64_sub (Suc n) 1 = n"
    using assms(4) u64_sub_le [of 1 "Suc n"] by (simp_all add: Uint64_id nat_add_distrib)
  have "getValSetFromChain en chain hdr (map A [m..<Suc n]) = epoch_set en (Suc n) (A (n - n mod en_Epoch en))"
    using assms(2,3,6,7) walk_back_linked [OF assms(1,5)] assms(4) n
    by (simp add: getValSetFromChain_def header_number_def GetCheckpointNumber_Suc [OF assms(1)] del: of_nat_Suc upt_Suc)
  also have "\<dots> = GetValSet en chain' (int (Suc n))"
    using assms(2,8,9) n
    by (simp add: GetValSet_def staking_GetValSet_def epoch_set_def GetCheckpointNumber_Suc [OF assms(1)] del: of_nat_Suc)
  finally show ?thesis .
qed

section \<open>From preparing to accepting\<close>

lemma prepareExtra_extract:
  assumes "Extra h = prepareExtra hdr"
  shows "ExtractTendermintExtra h = Inr \<lparr>Seal = [], CommittedSeal = [], ValidatorAdds = []\<rparr>"
proof -
  let ?te = "\<lparr>Seal = [], CommittedSeal = [], ValidatorAdds = []\<rparr>"
  have enc: "TendermintExtra_EncodeRLP ?te = rlp (extra_item ?te)" "length (rlp (extra_item ?te)) = 4"
    by (simp_all add: TendermintExtra_EncodeRLP_rlp extra_item_def puthead_def)
  then show ?thesis
    using assms by (subst ExtractTendermintExtra_iff) (auto simp: prepareExtra_def Let_def)
qed

text \<open>The fields of a prepared header that are checked later.\<close>

definition prepared :: "engine \<Rightarrow> header \<Rightarrow> bool" where
  "prepared en hdr \<longleftrightarrow>
     Coinbase hdr = en_address en \<and> MixDigest hdr = TendermintDigest \<and> Difficulty hdr = Some defaultDifficulty \<and>
     (\<exists>te. ExtractTendermintExtra hdr = Inr te \<and> CommittedSeal te = [])"

lemma WriteValSet_prepared:
  assumes "prepared en hdr" "WriteValSet hdr adds = Inr hdr'" "length (Extra hdr') < 2 ^ 64"
  shows "prepared en hdr' \<and> Number hdr' = Number hdr \<and> ParentHash hdr' = ParentHash hdr"
proof -
  obtain te where te: "ExtractTendermintExtra hdr = Inr te" "CommittedSeal te = []"
      "hdr' = put_extra hdr (te\<lparr>ValidatorAdds := EncodeToBytes (Lst (map (\<lambda>a. Str (Address_Bytes a)) adds))\<rparr>)"
    using WriteValSet_put [OF assms(2)] assms(1) by (auto simp: prepared_def)
  then have "ExtractTendermintExtra hdr' = Inr (te\<lparr>ValidatorAdds := EncodeToBytes (Lst (map (\<lambda>a. Str (Address_Bytes a)) adds))\<rparr>)"
    using extract_put [OF ExtractTendermintExtra_length [OF te(1)]] assms(3) by blast
  then show ?thesis
    using assms(1) te by (auto simp: prepared_def put_extra_def)
qed

lemma Prepare_prepared:
  assumes "Prepare en chain hdr cache = Done (None, h1, cache')" "length (Extra h1) < 2 ^ 64"
  shows "prepared en h1 \<and> Number h1 = Number hdr \<and> ParentHash h1 = ParentHash hdr"
proof -
  let ?h = "hdr\<lparr>Coinbase := en_address en, MixDigest := TendermintDigest, Difficulty := Some defaultDifficulty\<rparr>"
  obtain parent err where run: "addValSetToHeader en chain (?h\<lparr>Extra := prepareExtra ?h, Time := header_time en parent\<rparr>)
      parent cache = Done (err, h1, cache')"
    using assms(1) by (auto simp: Prepare_def Let_def case_eqs)
  let ?h1 = "?h\<lparr>Extra := prepareExtra ?h, Time := header_time en parent\<rparr>"
  have "prepared en ?h1"
    using prepareExtra_extract [of ?h1 ?h] by (simp add: prepared_def)
  moreover have "h1 = ?h1 \<or> (\<exists>adds. WriteValSet ?h1 adds = Inr h1)"
    using run by (auto simp: addValSetToHeader_def case_eqs split: if_splits)
  ultimately show ?thesis
    using WriteValSet_prepared assms(2) by fastforce
qed

text \<open>What may be filled in between preparing and sealing.\<close>

definition assembled :: "header \<Rightarrow> header \<Rightarrow> bool" where
  "assembled h h' \<longleftrightarrow> (\<exists>root txs rcpts bloom gas us.
     h' = h\<lparr>Root := root, TxHash := txs, ReceiptHash := rcpts, Bloom := bloom, GasUsed := gas, UncleHash := us\<rparr>)"

lemma assembled_refl: "assembled h h"
  unfolding assembled_def
  by (rule exI [of _ "Root h"], rule exI [of _ "TxHash h"], rule exI [of _ "ReceiptHash h"], rule exI [of _ "Bloom h"],
      rule exI [of _ "GasUsed h"], rule exI [of _ "UncleHash h"]) simp

lemma assembled_fields:
  assumes "assembled h h'"
  shows "Number h' = Number h" "ParentHash h' = ParentHash h" "Extra h' = Extra h" "Time h' = Time h"
    "prepared en h \<Longrightarrow> prepared en h'"
  using assms by (auto simp: assembled_def prepared_def ExtractTendermintExtra_def)

text \<open>Another node's engine differs in its key and its clock.\<close>

definition peer :: "engine \<Rightarrow> address \<Rightarrow> (signed_data \<Rightarrow> byte list option) \<Rightarrow> nat \<Rightarrow> engine" where
  "peer en a sign t = en\<lparr>en_address := a, en_Sign := sign, en_now := t\<rparr>"

lemma peer_fields [simp]:
  "en_kec (peer en a sign t) = en_kec en" "en_sha (peer en a sign t) = en_sha en" "en_now (peer en a sign t) = t"
  "en_Epoch (peer en a sign t) = en_Epoch en" "en_FixedValidators (peer en a sign t) = en_FixedValidators en"
  "en_ProposerPolicy (peer en a sign t) = en_ProposerPolicy en" "en_recover (peer en a sign t) = en_recover en"
  by (simp_all add: peer_def)

lemma peer_simps [simp]:
  "GetValSet (peer en a sign t) = GetValSet en" "blockProposer (peer en a sign t) = blockProposer en"
  by (simp_all add: GetValSet_def fixed_GetValSet_def staking_GetValSet_def GetSignatureAddress_def blockProposer_def
        fun_eq_iff cong: option.case_cong sum.case_cong if_cong)

lemma seal_block_seals:
  assumes "seal_block en chain b = Done (Inr b')" "prepared en (block_header b)" "length (Extra (block_header b')) < 2 ^ 64"
    and "\<forall>d s. en_Sign en d = Some s \<longrightarrow> en_recover en d s = Some (en_address en)"
  shows "blockProposer en (block_header b') = Inr (en_address en) \<and>
    (\<exists>te. ExtractTendermintExtra (block_header b') = Inr te \<and> CommittedSeal te = [])"
proof -
  let ?h = "Block_Header b" and ?h' = "block_header b'"
  obtain te where te: "ExtractTendermintExtra ?h = Inr te" "CommittedSeal te = []"
    using assms(2) by (auto simp: prepared_def Block_Header_def)
  obtain seal where seal: "en_Sign en (Signed_Bytes (Hash_Bytes (SigHash (en_sha en) ?h))) = Some seal" "WriteSeal ?h seal = Inr ?h'"
    using assms(1) by (auto simp: seal_block_def addProposalSeal_def Let_def case_eqs WithSeal_def split: if_splits)
  have h': "?h' = put_extra ?h (te\<lparr>Seal := seal\<rparr>)"
    using WriteSeal_put [OF seal(2)] te(1) by simp
  then have extra: "ExtractTendermintExtra ?h' = Inr (te\<lparr>Seal := seal\<rparr>)"
    using extract_put [OF ExtractTendermintExtra_length [OF te(1)]] assms(3) by simp
  have "TendermintFilteredHeader ?h' False = TendermintFilteredHeader ?h False"
    unfolding h' using te(1) assms(3) h' by (intro filtered_put) (auto simp: clear_extra_def)
  then have "SigHash (en_sha en) ?h' = SigHash (en_sha en) ?h"
    by (simp add: SigHash_def)
  then show ?thesis
    using extra te(2) seal(1) assms(4) by (simp add: blockProposer_def GetSignatureAddress_def)
qed

text \<open>
  C11. What the engine of a validator prepares, the miner fills in and the engine seals, the engine of
  every other node accepts as a proposal: verifying it finds nothing missing but the committed
  seals, provided signatures recover to their signer, the chain finds a header under its own hash and
  number, and the other node's clock has reached the time of the block.
\<close>

theorem sealed_proposal_verifies:
  assumes "Prepare en chain hdr cache = Done (None, h1, cache')" "assembled h1 (block_header b)"
    and "seal_block en chain b = Done (Inr b')" "length (Extra h1) < 2 ^ 64" "length (Extra (block_header b')) < 2 ^ 64"
    and "\<forall>d s. en_Sign en d = Some s \<longrightarrow> en_recover en d s = Some (en_address en)"
    and "\<forall>h k p. ch_GetHeader chain h k = Some p \<longrightarrow> Header_Hash (en_kec en) p = h \<and> header_number p = Done k"
    and "Number hdr = Some n" "Uint64 n \<le> Suc (ch_CurrentNumber chain)" "0 < en_Epoch en" "Time h1 \<le> t"
  shows "verifyHeader (peer en a sign t) chain (block_header b') [] = Done (Some ErrEmptyCommittedSeals)"
proof -
  let ?h = "Block_Header b" and ?h' = "block_header b'"
  have prep: "prepared en (block_header b)" "Number (block_header b) = Some n" "Time (block_header b) = Time h1"
    using Prepare_prepared [OF assms(1,4)] assembled_fields [OF assms(2)] assms(8) by auto
  obtain te where signer: "blockProposer en ?h' = Inr (en_address en)" "ExtractTendermintExtra ?h' = Inr te" "CommittedSeal te = []"
    using seal_block_seals [OF assms(3) prep(1) assms(5,6)] by blast
  obtain vs te' parent where run: "Uint64 n \<noteq> 0" "GetValSet en chain (i64 (int (Uint64 n))) = Done (Inr vs)"
      "en_address en \<in> set (validators vs)" "?h' = put_extra ?h te'" "ch_GetHeader chain (ParentHash ?h) (Uint64 n - 1) = Some parent"
    using assms(3) prep(2) WriteSeal_put
    by (fastforce simp: seal_block_def addProposalSeal_def Let_def case_eqs WithSeal_def header_number_def Block_Header_def
          CopyHeader_def put_extra_def split: if_splits)
  have fields: "Number ?h' = Some n" "MixDigest ?h' = TendermintDigest" "Difficulty ?h' = Some defaultDifficulty"
      "Coinbase ?h' = en_address en" "Time ?h' \<le> t" "ParentHash ?h' = ParentHash ?h"
    using prep assms(11) run(4) by (auto simp: prepared_def Block_Header_def CopyHeader_def put_extra_def)
  have parent: "Header_Hash (en_kec en) parent = ParentHash ?h" "header_number parent = Done (Uint64 n - 1)"
    using assms(7) run(5) by auto
  obtain k where k: "Uint64 n = Suc k"
    using run(1) by (cases "Uint64 n") auto
  have "getValSetFromChain (peer en a sign t) chain ?h' [] = Done (Inr vs)"
    using run(2) assms(9) fields(1) k le_trans [OF diff_le_self [of k "k mod en_Epoch en"]]
    by (simp add: getValSetFromChain_def header_number_def GetCheckpointNumber_Suc [OF assms(10)])
  then show ?thesis
    using fields signer run(1,3,5) parent
    by (simp add: verifyHeader_def verifyCascadingFields_def header_number_def verifyCommittedSeals_def verifyProposalSeal_def)
qed

section \<open>Examples\<close>

text \<open>
  A chain with the one fixed validator 1, whose block 1 has seals of sixty-five zero bytes.  The hash
  of some bytes is their number, so two headers differ by a gas limit of another size.
\<close>

definition ex_kec :: "byte list \<Rightarrow> hash" where
  "ex_kec b = of_nat (length b)"

definition ex_engine :: engine where
  "ex_engine =
    \<lparr>en_Epoch = 10, en_BlockPeriod = 1, en_FixedValidators = [1], en_ProposerPolicy = RoundRobin, en_UseEVMCaller = False,
     en_IndexStateVariables = DefaultIndexConfig, en_stakingContractAddr = 0, en_contract = (\<lambda>_ _. staking_example),
     en_address = 1, en_kec = ex_kec, en_sha = ex_kec, en_Sign = (\<lambda>_. Some (replicate 65 0)),
     en_recover = (\<lambda>_ _. Some 1), en_now = 5, en_cache_add = (\<lambda>n v m. m(n \<mapsto> v))\<rparr>"

definition ex_parent :: header where
  "ex_parent = extra_header\<lparr>Number := Some 0\<rparr>"

definition ex_chain :: chain where
  "ex_chain =
    \<lparr>ch_GetHeader = (\<lambda>h n. if h = Header_Hash ex_kec ex_parent \<and> n = 0 then Some ex_parent else None),
     ch_GetHeaderByNumber = (\<lambda>n. if n = 0 then Some ex_parent else None), ch_CurrentNumber = 0,
     ch_StateAt = (\<lambda>_. Inl ErrNoCode)\<rparr>"

definition ex_header :: "nat \<Rightarrow> header" where
  "ex_header limit =
    put_extra (extra_header\<lparr>ParentHash := Header_Hash ex_kec ex_parent, Coinbase := 1, GasLimit := limit\<rparr>)
      \<lparr>Seal = replicate 65 0, CommittedSeal = [replicate 65 0], ValidatorAdds = []\<rparr>"

definition ex_valset :: defaultSet where
  "ex_valset = \<lparr>validators = [1], policy = RoundRobin, proposer = Some 1, setHeight = 1\<rparr>"

lemma ex_simps [simp]:
  "en_kec ex_engine = ex_kec" "en_now ex_engine = 5" "en_recover ex_engine = (\<lambda>_ _. Some 1)"
  "ch_GetHeader ex_chain (Header_Hash ex_kec ex_parent) 0 = Some ex_parent" "header_number ex_parent = Done 0"
  by (simp_all add: ex_engine_def ex_chain_def header_number_def Uint64_def)
    (simp add: ex_parent_def Uint64_def)

lemma ex_header_fields [simp]:
  "Number (ex_header l) = Some 1" "MixDigest (ex_header l) = TendermintDigest" "Difficulty (ex_header l) = Some 1"
  "Time (ex_header l) = 0" "Coinbase (ex_header l) = 1" "ParentHash (ex_header l) = Header_Hash ex_kec ex_parent"
  by (simp_all add: ex_header_def put_extra_def extra_header_def TendermintDigest_def)

lemma ex_header_number: "header_number (ex_header l) = Done 1"
  by (simp add: header_number_def Uint64_def)

lemma ex_header_extra:
  "ExtractTendermintExtra (ex_header l) = Inr \<lparr>Seal = replicate 65 0, CommittedSeal = [replicate 65 0], ValidatorAdds = []\<rparr>"
  unfolding ex_header_def
  by (rule extract_put) (simp_all add: extra_header_def put_extra_def TendermintExtra_EncodeRLP_def length_EncodeToBytes puthead_def putint_def)

lemma ex_valset_found: "getValSetFromChain ex_engine ex_chain (ex_header l) [] = Done (Inr ex_valset)"
  by (simp add: getValSetFromChain_def header_number_def Uint64_def GetCheckpointNumber_def ex_engine_def GetValSet_def
        fixed_GetValSet_def newDefaultSet_nonempty in_i64_def ex_valset_def)

lemma ex_verified: "verifyHeader ex_engine ex_chain (ex_header l) [] = Done None"
proof -
  have "verifyCommittedSeals ex_engine (ex_header l) ex_valset = Done None"
    by (rule verifyCommittedSeals_complete [OF ex_header_extra, where signers = "[1]"])
      (simp_all add: ex_valset_def GetSignatureAddress_def ex_engine_def MinMajority_def valF_def Size_def)
  moreover have "verifyProposalSeal ex_engine (ex_header l) ex_valset = None"
    by (simp add: verifyProposalSeal_None blockProposer_def ex_header_extra GetSignatureAddress_def ex_valset_def)
  ultimately show ?thesis
    by (simp add: verifyHeader_def verifyCascadingFields_def ex_header_extra ex_header_number defaultDifficulty_def
          ex_valset_found)
qed

lemma ex_header_hash: "Header_Hash ex_kec (ex_header 0) \<noteq> Header_Hash ex_kec (ex_header 1000)"
  by (simp add: Header_Hash_def filtered_extract [OF ex_header_extra] rlpHash_def ex_kec_def header_bytes_def
        clear_extra_def)
    (simp add: header_item_def bigint_item_def put_extra_def CopyHeader_def ex_header_def extra_header_def
      length_EncodeToBytes uint_item_def big_bytes_def big_bytes_rev.simps TendermintExtra_EncodeRLP_def
      Hash_Bytes_def Address_Bytes_def puthead_def putint_def)

theorem verified_header_quorum_witness:
  "verifyHeader ex_engine ex_chain (ex_header 0) [] = Done None \<and>
   MinMajority ex_valset \<le> int (card (commit_signers ex_engine ex_valset (ex_header 0)))"
  using verified_header_quorum [OF ex_verified, of 0 1] ex_valset_found [of 0] ex_verified [of 0]
  by (auto simp: ex_valset_def Uint64_def)


text \<open>A batch with the blocks 1 to 4 of a chain with epochs of two blocks, which has only block 0.\<close>

definition batch_engine :: engine where
  "batch_engine = ex_engine\<lparr>en_Epoch := 2, en_FixedValidators := [], en_kec := \<lambda>_. 1\<rparr>"

definition batch_header :: "nat \<Rightarrow> header" where
  "batch_header k = extra_header\<lparr>Number := Some (int k), ParentHash := 1\<rparr>"

definition batch_chain :: "nat \<Rightarrow> chain" where
  "batch_chain n = ex_chain
    \<lparr>ch_GetHeader := \<lambda>h k. if k \<le> n then Some (batch_header k) else None,
     ch_GetHeaderByNumber := \<lambda>k. if k \<le> n then Some (batch_header k) else None, ch_CurrentNumber := n\<rparr>"

lemma const_Header_Hash [simp]: "Header_Hash (\<lambda>_. 1) h = 1"
  by (simp add: Header_Hash_def rlpHash_def split: option.split)

theorem getValSetFromChain_agrees_witness:
  "getValSetFromChain batch_engine (batch_chain 0) (batch_header 5) (map batch_header [1..<5]) =
   GetValSet batch_engine (batch_chain 4) 5"
  using getValSetFromChain_agrees [of batch_engine "batch_header 5" 4 "batch_chain 0" batch_header 1 "batch_chain 4"]
  by (simp add: linked_def batch_engine_def batch_header_def batch_chain_def)

text \<open>The validator prepares and seals block 1.\<close>

definition ex_prepared :: header where
  "ex_prepared =
    (let h = extra_header\<lparr>ParentHash := Header_Hash ex_kec ex_parent, Coinbase := 1, MixDigest := TendermintDigest, Difficulty := Some 1\<rparr>
     in h\<lparr>Extra := prepareExtra h, Time := 5\<rparr>)"

lemma ex_Prepare:
  "Prepare ex_engine ex_chain (extra_header\<lparr>ParentHash := Header_Hash ex_kec ex_parent\<rparr>) Map.empty =
     Done (None, ex_prepared, Map.empty)"
proof -
  have "u64_sub 1 1 = 0" "Uint64 1 = 1" "header_time ex_engine ex_parent = 5"
    by (simp_all add: u64_sub_def Uint64_def header_time_def ex_engine_def ex_parent_def extra_header_def in_i64_def)
  moreover have "en_Epoch ex_engine = 10" "en_address ex_engine = 1" "Number extra_header = Some 1"
    by (simp_all add: ex_engine_def extra_header_def)
  ultimately show ?thesis
    by (simp add: Prepare_def header_number_def addValSetToHeader_def ex_prepared_def Let_def defaultDifficulty_def)
qed

theorem sealed_proposal_verifies_witness:
  "\<exists>b'. seal_block ex_engine ex_chain \<lparr>block_header = ex_prepared, uncles = [], transactions = []\<rparr> = Done (Inr b') \<and>
     verifyHeader (peer ex_engine 2 (\<lambda>_. None) 7) ex_chain (block_header b') [] = Done (Some ErrEmptyCommittedSeals)"
proof -
  let ?b = "\<lparr>block_header = ex_prepared, uncles = [], transactions = []\<rparr>" and ?te = "\<lparr>Seal = [], CommittedSeal = [], ValidatorAdds = []\<rparr>"
  have extra: "ExtractTendermintExtra (CopyHeader ex_prepared) = Inr ?te"
    by (rule prepareExtra_extract) (simp add: ex_prepared_def Let_def CopyHeader_def)
  have valset: "GetValSet ex_engine ex_chain 1 = Done (Inr ex_valset)"
    by (simp add: ex_engine_def GetValSet_def fixed_GetValSet_def newDefaultSet_nonempty in_i64_def ex_valset_def)
  define h' where "h' = put_extra (CopyHeader ex_prepared) (?te\<lparr>Seal := replicate 65 0\<rparr>)"
  have number: "Number (CopyHeader ex_prepared) = Some 1" "ParentHash h' = Header_Hash ex_kec ex_parent" "Uint64 1 = 1"
      "Extra ex_prepared = prepareExtra (extra_header\<lparr>ParentHash := Header_Hash ex_kec ex_parent, Coinbase := 1, MixDigest := TendermintDigest, Difficulty := Some 1\<rparr>)"
    by (simp_all add: h'_def ex_prepared_def Let_def CopyHeader_def put_extra_def extra_header_def Uint64_def)
  have "addProposalSeal ex_engine (CopyHeader ex_prepared) = Inr h'" "en_address ex_engine = 1"
    using extra by (simp_all add: addProposalSeal_def WriteSeal_def ex_engine_def h'_def)
  then have seal: "seal_block ex_engine ex_chain ?b = Done (Inr (WithSeal ?b h'))"
    using valset number by (simp add: seal_block_def header_number_def Block_Header_def in_i64_def ex_valset_def)
  have len: "length (Extra ex_prepared) < 2 ^ 64" "length (Extra h') < 2 ^ 64"
    using number(4) by (simp_all add: h'_def put_extra_def prepareExtra_def Let_def TendermintExtra_EncodeRLP_def
        length_EncodeToBytes puthead_def putint_def)
  have "verifyHeader (peer ex_engine 2 (\<lambda>_. None) 7) ex_chain (block_header (WithSeal ?b h')) [] = Done (Some ErrEmptyCommittedSeals)"
  proof (rule sealed_proposal_verifies [where n = 1, OF ex_Prepare _ seal len(1)])
    show "assembled ex_prepared (block_header ?b)"
      by (simp add: assembled_refl)
    show "\<forall>h k p. ch_GetHeader ex_chain h k = Some p \<longrightarrow> Header_Hash (en_kec ex_engine) p = h \<and> header_number p = Done k"
      by (simp add: ex_chain_def)
  qed (use len number(3) in \<open>simp_all add: WithSeal_def ex_engine_def ex_chain_def extra_header_def ex_prepared_def Let_def\<close>)
  then show ?thesis
    using seal by blast
qed

end
