(* ===== verification/Rewards.thy ===== *)
theory Rewards
  imports Engine_Verify
begin

text \<open>
  Block rewards: \<^verbatim>\<open>consensus/tendermint/backend/reward.go\<close> and the finalising functions of
  \<^verbatim>\<open>engine.go\<close>.  At the end of an epoch the rewards of its blocks are split between the owner and the
  voters of each validator.  A Go map that is iterated is a list of its entries in the order of the
  iteration, so that the order the run time happens to choose is visible; a map that is only looked
  up is a function.  The balances of the state are a function from addresses.

  The main facts: nothing is created or lost by the split, the result does not depend on any
  iteration order, and the owner gets at least half.
\<close>

section \<open>The split\<close>

record chain_config =
  cfg_FixedValidators :: "address list option"
  cfg_BlockReward :: int
  cfg_Epoch :: nat
  cfg_GasPrice :: int

type_synonym rewards = "address \<rightharpoonup> int"

definition addReward :: "address \<Rightarrow> int \<Rightarrow> rewards \<Rightarrow> rewards" where
  "addReward addr v m = (case m addr of Some current \<Rightarrow> m(addr \<mapsto> current + v) | None \<Rightarrow> m(addr \<mapsto> v))"

definition block_reward :: "chain_config \<Rightarrow> header \<Rightarrow> int" where
  "block_reward cfg hdr = cfg_BlockReward cfg + i64 (int (GasUsed hdr)) * cfg_GasPrice cfg"

fun rewards_of :: "chain_config \<Rightarrow> chain \<Rightarrow> header \<Rightarrow> nat \<Rightarrow> nat list \<Rightarrow> rewards \<Rightarrow> rewards outcome" where
  "rewards_of cfg chain hdr currentBlock [] m = Done m"
| "rewards_of cfg chain hdr currentBlock (i # is) m =
    (case (if i \<noteq> currentBlock then ch_GetHeaderByNumber chain i else Some hdr) of
       None \<Rightarrow> Panic ''nil pointer dereference''
     | Some h \<Rightarrow> rewards_of cfg chain hdr currentBlock is (addReward (Coinbase h) (block_reward cfg h) m))"

text \<open>The loop from \<^verbatim>\<open>currentBlock - epoch + 1\<close> to \<^verbatim>\<open>currentBlock\<close>.\<close>

definition calculateTotalValidatorsRewards ::
    "chain_config \<Rightarrow> chain \<Rightarrow> nat \<Rightarrow> header \<Rightarrow> rewards outcome" where
  "calculateTotalValidatorsRewards cfg chain epoch hdr =
    obind (header_number hdr) (\<lambda>currentBlock.
      rewards_of cfg chain hdr currentBlock [(u64_sub currentBlock epoch + 1) mod 2 ^ 64..<Suc currentBlock] Map.empty)"

definition voterRewardPercentage :: int where
  "voterRewardPercentage = 50"

text \<open>The loop over the voters of a validator: the rewards so far and what remains.\<close>

fun reward_voters :: "int \<Rightarrow> int \<Rightarrow> (address \<times> int) list \<Rightarrow> rewards \<Rightarrow> int \<Rightarrow> (rewards \<times> int) outcome" where
  "reward_voters totalVoterReward totalStake [] finalReward remainder = Done (finalReward, remainder)"
| "reward_voters totalVoterReward totalStake ((voter, voterStake) # rest) finalReward remainder =
    (if totalStake = 0 then Panic ''division by zero''
     else let voterReward = totalVoterReward * voterStake div totalStake
          in reward_voters totalVoterReward totalStake rest (addReward voter voterReward finalReward)
               (remainder - voterReward))"

fun reward_validators ::
    "(address \<times> CandidateData) list \<Rightarrow> rewards \<Rightarrow> rewards \<Rightarrow> rewards outcome" where
  "reward_validators [] validatorsReward finalReward = Done finalReward"
| "reward_validators ((addr, validatorData) # rest) validatorsReward finalReward =
    (case validatorsReward addr of
       None \<Rightarrow> reward_validators rest validatorsReward finalReward
     | Some totalReward \<Rightarrow>
         let totalVoterReward = totalReward * voterRewardPercentage div 100
         in obind (reward_voters totalVoterReward (TotalStake validatorData) (VoterStakes validatorData) finalReward totalReward)
              (\<lambda>(finalReward, remainingReward).
                 reward_validators rest validatorsReward (addReward (Owner validatorData) remainingReward finalReward)))"

definition calculateReward :: "(address \<times> CandidateData) list \<Rightarrow> rewards \<Rightarrow> rewards outcome" where
  "calculateReward validatorsData validatorsReward = reward_validators validatorsData validatorsReward Map.empty"

section \<open>Finalising a block\<close>

type_synonym balances = "address \<Rightarrow> int"

definition AddBalance :: "address \<Rightarrow> int \<Rightarrow> balances \<Rightarrow> balances" where
  "AddBalance a v bal = bal(a := bal a + v)"

text \<open>The loop over the final rewards; adding to different accounts commutes.\<close>

definition pay_rewards :: "rewards \<Rightarrow> balances \<Rightarrow> balances" where
  "pay_rewards m bal = (\<lambda>a. bal a + (case m a of Some v \<Rightarrow> v | None \<Rightarrow> 0))"

definition validatorsData ::
    "engine \<Rightarrow> stateDB \<Rightarrow> header \<Rightarrow> address list \<Rightarrow> error + (address \<times> CandidateData) list" where
  "validatorsData en db hdr adds =
    (if en_UseEVMCaller en then evm_GetValidatorsData (en_contract en db hdr) adds []
     else Inr (GetValidatorsData \<lparr>sc_stateDB = db, sc_config = en_IndexStateVariables en, sc_kec = en_kec en\<rparr>
                (en_stakingContractAddr en) adds))"

definition accumulateRewards ::
    "engine \<Rightarrow> chain_config \<Rightarrow> chain \<Rightarrow> header \<Rightarrow> balances \<Rightarrow> (error option \<times> balances) outcome" where
  "accumulateRewards en cfg chain hdr bal =
    (if cfg_FixedValidators cfg \<noteq> None then Done (None, AddBalance (Coinbase hdr) (cfg_BlockReward cfg) bal)
     else obind (header_number hdr) (\<lambda>currentBlock.
       if currentBlock = 0 then Done (Some ErrFinalizeZeroBlock, bal)
       else if cfg_Epoch cfg = 0 then Panic ''integer divide by zero''
       else if currentBlock mod cfg_Epoch cfg \<noteq> 0 then Done (None, bal)
       else obind (calculateTotalValidatorsRewards cfg chain (cfg_Epoch cfg) hdr) (\<lambda>validatorsRewards.
         case ch_GetHeaderByNumber chain (u64_sub currentBlock (cfg_Epoch cfg)) of
           None \<Rightarrow> Panic ''nil pointer dereference''
         | Some transitionHeader \<Rightarrow>
             (case GetValSetAddresses transitionHeader of
                Inl err \<Rightarrow> Done (Some err, bal)
              | Inr validatorAdds \<Rightarrow>
                  (case ch_StateAt chain (Root transitionHeader) of
                     Inl err \<Rightarrow> Done (Some err, bal)
                   | Inr db \<Rightarrow>
                       (case validatorsData en db hdr validatorAdds of
                          Inl err \<Rightarrow> Done (Some err, bal)
                        | Inr data \<Rightarrow>
                            obind (calculateReward data validatorsRewards) (\<lambda>finalReward.
                              Done (None, pay_rewards finalReward bal))))))))"

text \<open>\<open>IntermediateRoot\<close> is the root hash the state gets with these balances.\<close>

definition Finalize ::
    "(balances \<Rightarrow> hash) \<Rightarrow> engine \<Rightarrow> chain_config \<Rightarrow> chain \<Rightarrow> header \<Rightarrow> balances \<Rightarrow> (error option \<times> header \<times> balances) outcome" where
  "Finalize IntermediateRoot en cfg chain hdr bal =
    obind (accumulateRewards en cfg chain hdr bal) (\<lambda>(err, bal).
      case err of
        Some e \<Rightarrow> Done (Some e, hdr, bal)
      | None \<Rightarrow> Done (None, hdr\<lparr>Root := IntermediateRoot bal\<rparr>, bal))"

text \<open>
  \<^verbatim>\<open>types.NewBlock\<close> without uncles; the roots of the lists of transactions and receipts and the bloom
  filter are functions of those.
\<close>

record derived =
  d_TxHash :: hash
  d_ReceiptHash :: hash
  d_Bloom :: "byte list option"
  d_EmptyUncleHash :: hash

definition NewBlock :: "derived \<Rightarrow> header \<Rightarrow> item list \<Rightarrow> block" where
  "NewBlock d hdr txs =
    (let h = CopyHeader hdr;
         h = h\<lparr>TxHash := d_TxHash d\<rparr>;
         h = h\<lparr>ReceiptHash := d_ReceiptHash d\<rparr>;
         h = (case d_Bloom d of None \<Rightarrow> h | Some bl \<Rightarrow> h\<lparr>Bloom := bl\<rparr>);
         h = h\<lparr>UncleHash := d_EmptyUncleHash d\<rparr>
     in \<lparr>block_header = h, uncles = [], transactions = txs\<rparr>)"

definition FinalizeAndAssemble ::
    "(balances \<Rightarrow> hash) \<Rightarrow> derived \<Rightarrow> engine \<Rightarrow> chain_config \<Rightarrow> chain \<Rightarrow> header \<Rightarrow> item list \<Rightarrow> balances \<Rightarrow>
     ((error + block) \<times> balances) outcome" where
  "FinalizeAndAssemble IntermediateRoot d en cfg chain hdr txs bal =
    obind (accumulateRewards en cfg chain hdr bal) (\<lambda>(err, bal).
      case err of
        Some e \<Rightarrow> Done (Inl e, bal)
      | None \<Rightarrow>
          let hdr = hdr\<lparr>Root := IntermediateRoot bal, UncleHash := d_EmptyUncleHash d\<rparr>
          in Done (Inr (NewBlock d hdr txs), bal))"

text \<open>Finalising fills in only what may be filled in between preparing and sealing.\<close>

lemma FinalizeAndAssemble_assembled:
  assumes "FinalizeAndAssemble IntermediateRoot d en cfg chain hdr txs bal = Done (Inr b, bal')" "Number hdr \<noteq> None" "Difficulty hdr \<noteq> None"
  shows "assembled hdr (block_header b)"
proof -
  obtain bal1 where b: "b = NewBlock d (hdr\<lparr>Root := IntermediateRoot bal1, UncleHash := d_EmptyUncleHash d\<rparr>) txs"
    using assms(1) by (auto simp: FinalizeAndAssemble_def Let_def case_eqs)
  let ?bloom = "case d_Bloom d of None \<Rightarrow> Bloom hdr | Some bl \<Rightarrow> bl"
  have "block_header b = hdr\<lparr>Root := IntermediateRoot bal1, TxHash := d_TxHash d, ReceiptHash := d_ReceiptHash d,
      Bloom := ?bloom, GasUsed := GasUsed hdr, UncleHash := d_EmptyUncleHash d\<rparr>"
    using assms(2,3) by (auto simp: b NewBlock_def CopyHeader_def Let_def split: option.split intro: header.equality)
  then show ?thesis
    unfolding assembled_def by blast
qed

section \<open>Payments\<close>

text \<open>What the nested loops pay, as a list in the order of the loops.\<close>

definition shares :: "int \<Rightarrow> CandidateData \<Rightarrow> (address \<times> int) list" where
  "shares r data = map (\<lambda>(voter, stake). (voter, (r * voterRewardPercentage div 100) * stake div TotalStake data)) (VoterStakes data)"

definition payments_of :: "int \<Rightarrow> CandidateData \<Rightarrow> (address \<times> int) list" where
  "payments_of r data = shares r data @ [(Owner data, r - sum_list (map snd (shares r data)))]"

definition payments :: "(address \<times> CandidateData) list \<Rightarrow> rewards \<Rightarrow> (address \<times> int) list" where
  "payments data R = concat (map (\<lambda>(a, d). case R a of None \<Rightarrow> [] | Some r \<Rightarrow> payments_of r d) data)"

abbreviation pay :: "(address \<times> int) list \<Rightarrow> rewards \<Rightarrow> rewards" where
  "pay ps m \<equiv> fold (\<lambda>(a, v). addReward a v) ps m"

definition divisible :: "(address \<times> CandidateData) list \<Rightarrow> rewards \<Rightarrow> bool" where
  "divisible data R \<longleftrightarrow>
     (\<forall>(a, d) \<in> set data. R a \<noteq> None \<and> VoterStakes d \<noteq> [] \<longrightarrow> TotalStake d \<noteq> 0)"

lemma reward_voters_run:
  assumes "vs \<noteq> [] \<longrightarrow> ts \<noteq> 0"
  shows "reward_voters r ts vs m k =
    Done (pay (map (\<lambda>(v, s). (v, r * s div ts)) vs) m, k - sum_list (map (\<lambda>(v, s). r * s div ts) vs))"
  using assms by (induction vs arbitrary: m k) (auto simp: Let_def)

lemma calculateReward_run:
  assumes "divisible data R"
  shows "calculateReward data R = Done (pay (payments data R) Map.empty)"
proof -
  have "reward_validators data R m = Done (pay (payments data R) m)" for m
    using assms
  proof (induction data arbitrary: m)
    case (Cons x data)
    obtain a d where x: "x = (a, d)"
      by (cases x)
    have rest: "divisible data R" and d: "R a \<noteq> None \<Longrightarrow> VoterStakes d \<noteq> [] \<Longrightarrow> TotalStake d \<noteq> 0"
      using Cons.prems x by (auto simp: divisible_def)
    show ?case
    proof (cases "R a")
      case None
      then show ?thesis
        using Cons.IH [OF rest] x by (simp add: payments_def)
    next
      case (Some r)
      then show ?thesis
        using Cons.IH [OF rest] x reward_voters_run [of "VoterStakes d" "TotalStake d"] d
        by (simp add: Let_def payments_def payments_of_def shares_def case_prod_unfold o_def)
    qed
  qed (simp add: payments_def)
  then show ?thesis
    by (simp add: calculateReward_def)
qed

lemma calculateReward_panics:
  assumes "\<not> divisible data R"
  shows "calculateReward data R = Panic ''division by zero''"
proof -
  have voters: "reward_voters r 0 vs m k = Panic ''division by zero''" if "vs \<noteq> []" for r vs m k
    using that by (cases vs) auto
  have "reward_validators data R m = Panic ''division by zero''" for m
    using assms
  proof (induction data arbitrary: m)
    case (Cons x data)
    obtain a d where x: "x = (a, d)"
      by (cases x)
    show ?case
    proof (cases "R a \<noteq> None \<and> VoterStakes d \<noteq> [] \<and> TotalStake d = 0")
      case True
      then show ?thesis
        using voters x by auto
    next
      case False
      then have "\<not> divisible data R"
        using Cons.prems x by (auto simp: divisible_def)
      then show ?thesis
        using Cons.IH x False reward_voters_run [of "VoterStakes d" "TotalStake d"]
        by (auto simp: Let_def split: option.split)
    qed
  qed (simp add: divisible_def)
  then show ?thesis
    by (simp add: calculateReward_def)
qed

section \<open>Conservation\<close>

definition reward_sum :: "rewards \<Rightarrow> int" where
  "reward_sum m = (\<Sum>a \<in> dom m. the (m a))"

lemma addReward_eq: "addReward a v m = m(a \<mapsto> (case m a of Some c \<Rightarrow> c | None \<Rightarrow> 0) + v)"
  by (simp add: addReward_def split: option.split)

lemma reward_sum_addReward:
  assumes "finite (dom m)"
  shows "reward_sum (addReward a v m) = reward_sum m + v"
proof -
  have rest: "(\<Sum>x \<in> dom m - {a}. the (addReward a v m x)) = (\<Sum>x \<in> dom m - {a}. the (m x))"
    by (intro sum.cong) (auto simp: addReward_eq)
  have "dom (addReward a v m) = insert a (dom m)"
    by (auto simp: addReward_eq)
  then have "reward_sum (addReward a v m) = the (addReward a v m a) + (\<Sum>x \<in> dom m - {a}. the (m x))"
    using assms rest by (simp add: reward_sum_def sum.insert_remove)
  moreover have "reward_sum m = (case m a of Some c \<Rightarrow> c | None \<Rightarrow> 0) + (\<Sum>x \<in> dom m - {a}. the (m x))"
    using assms by (cases "m a") (auto simp: reward_sum_def sum.remove [of "dom m" a] domIff)
  ultimately show ?thesis
    by (simp add: addReward_eq)
qed

lemma pay_sum:
  "finite (dom m) \<Longrightarrow> finite (dom (pay ps m)) \<and> reward_sum (pay ps m) = reward_sum m + sum_list (map snd ps)"
proof (induction ps arbitrary: m)
  case (Cons x ps)
  have "finite (dom (addReward (fst x) (snd x) m))"
    using Cons.prems by (simp add: addReward_eq)
  then show ?case
    using Cons.IH reward_sum_addReward [OF Cons.prems] by (cases x) simp
qed simp

lemma payments_of_sum: "sum_list (map snd (payments_of r d)) = r"
  by (simp add: payments_of_def)

lemma payments_sum: "sum_list (map snd (payments data R)) = sum_list (map (\<lambda>(a, _). case R a of Some r \<Rightarrow> r | None \<Rightarrow> 0) data)"
  by (induction data) (auto simp: payments_def payments_of_sum split: option.split)

text \<open>
  C30. Rewards are conserved: whatever the stakes, the amounts the split pays add up to the rewards the
  rewarded validators have earned, rounding included, and the balances of the state grow by
  exactly that; only a validator that has voters but no stake at all makes the split panic.
\<close>

theorem rewards_conserved:
  "calculateReward data R =
     (if divisible data R then Done (pay (payments data R) Map.empty) else Panic ''division by zero'') \<and>
   (divisible data R \<longrightarrow>
     (\<forall>F A. calculateReward data R = Done F \<and> finite A \<and> dom F \<subseteq> A \<longrightarrow>
       (\<Sum>a \<in> A. pay_rewards F bal a) = (\<Sum>a \<in> A. bal a) + sum_list (map (\<lambda>(a, _). case R a of Some r \<Rightarrow> r | None \<Rightarrow> 0) data)))"
proof -
  have "(\<Sum>a \<in> A. pay_rewards F bal a) = (\<Sum>a \<in> A. bal a) + sum_list (map (\<lambda>(a, _). case R a of Some r \<Rightarrow> r | None \<Rightarrow> 0) data)"
    if "F = pay (payments data R) Map.empty" "finite A" "dom F \<subseteq> A" for F A
  proof -
    have "(\<Sum>a \<in> A. case F a of Some v \<Rightarrow> v | None \<Rightarrow> 0) = (\<Sum>a \<in> dom F. case F a of Some v \<Rightarrow> v | None \<Rightarrow> 0)"
      using that(2,3) by (intro sum.mono_neutral_right) (auto simp: domIff)
    also have "\<dots> = reward_sum F"
      unfolding reward_sum_def by (intro sum.cong) auto
    also have "\<dots> = sum_list (map snd (payments data R))"
      using pay_sum [of Map.empty "payments data R"] that(1) by (simp add: reward_sum_def)
    finally show ?thesis
      by (simp add: pay_rewards_def sum.distrib payments_sum)
  qed
  then show ?thesis
    using calculateReward_run calculateReward_panics by auto
qed

section \<open>Iteration order\<close>

text \<open>What the maps contain, without the order of their entries.\<close>

definition content :: "(address \<times> CandidateData) list \<Rightarrow> (address \<times> address \<times> int \<times> (address \<times> int) multiset) multiset" where
  "content data = mset (map (\<lambda>(a, d). (a, Owner d, TotalStake d, mset (VoterStakes d))) data)"

definition pays :: "rewards \<Rightarrow> address \<times> address \<times> int \<times> (address \<times> int) multiset \<Rightarrow> (address \<times> int) multiset" where
  "pays R = (\<lambda>(a, owner, ts, M).
     case R a of
       None \<Rightarrow> {#}
     | Some r \<Rightarrow>
         (let S = image_mset (\<lambda>(voter, stake). (voter, (r * voterRewardPercentage div 100) * stake div ts)) M
          in add_mset (owner, r - sum_mset (image_mset snd S)) S))"

lemma mset_payments: "mset (payments data R) = \<Sum>\<^sub># (image_mset (pays R) (content data))"
proof (induction data)
  case (Cons x data)
  obtain a d where x: "x = (a, d)"
    by (cases x)
  have "mset (payments_of r d) = pays [a \<mapsto> r] (a, Owner d, TotalStake d, mset (VoterStakes d))" for r
    by (simp add: payments_of_def shares_def pays_def Let_def sum_mset_sum_list [symmetric] multiset.map_comp)
  then show ?case
    using Cons x by (auto simp: payments_def content_def pays_def split: option.split)
qed (simp add: payments_def content_def)

lemma addReward_commute: "addReward a v (addReward b w m) = addReward b w (addReward a v m)"
  by (auto simp: addReward_eq fun_eq_iff)

lemma divisible_content: "content data = content data' \<Longrightarrow> divisible data R = divisible data' R"
proof -
  have "divisible data R \<longleftrightarrow> (\<forall>(a, _, ts, M) \<in># content data. R a \<noteq> None \<and> M \<noteq> {#} \<longrightarrow> ts \<noteq> 0)" for data
    by (force simp: divisible_def content_def)
  then show "content data = content data' \<Longrightarrow> divisible data R = divisible data' R"
    by simp
qed

text \<open>
  C31. The split does not depend on the order in which the run time iterates over the maps of
  validators and voters: every node computes the same rewards.
\<close>

theorem rewards_order_independent:
  assumes "content data = content data'"
  shows "calculateReward data R = calculateReward data' R"
proof -
  have "pay (payments data R) = pay (payments data' R)"
  proof (rule fold_multiset_equiv)
    show "mset (payments data R) = mset (payments data' R)"
      using assms by (simp add: mset_payments)
  qed (auto simp: addReward_commute fun_eq_iff)
  then show ?thesis
    using divisible_content [OF assms] calculateReward_run calculateReward_panics by metis
qed

section \<open>Bounds\<close>

definition amount :: "rewards \<Rightarrow> address \<Rightarrow> int" where
  "amount m a = (case m a of Some v \<Rightarrow> v | None \<Rightarrow> 0)"

lemma amount_pay: "amount (pay ps m) a = amount m a + sum_list (map snd (filter (\<lambda>(b, _). b = a) ps))"
  by (induction ps arbitrary: m) (auto simp: addReward_eq amount_def split: option.split)

lemma sum_div_le:
  assumes "0 < (t :: int)"
  shows "sum_list (map (\<lambda>(_, s). h * s div t) xs) \<le> h * sum_list (map snd xs) div t"
proof (induction xs)
  case (Cons x xs)
  have "p div t + q div t \<le> (p + q) div t" for p q
    using assms div_add1_eq [of p q t] by (simp add: pos_imp_zdiv_nonneg_iff)
  then have "h * snd x div t + h * sum_list (map snd xs) div t \<le> (h * snd x + h * sum_list (map snd xs)) div t" .
  then show ?case
    using Cons by (simp add: distrib_left case_prod_unfold)
qed simp

text \<open>Stakes are unsigned, and the voters of a candidate have not staked more than its total.\<close>

definition stakes_ok :: "(address \<times> CandidateData) list \<Rightarrow> bool" where
  "stakes_ok data \<longleftrightarrow>
     (\<forall>(_, d) \<in> set data. (\<forall>(_, s) \<in> set (VoterStakes d). 0 \<le> s) \<and> sum_list (map snd (VoterStakes d)) \<le> TotalStake d)"

lemma shares_bounds:
  assumes "\<forall>(_, s) \<in> set (VoterStakes d). 0 \<le> s" "sum_list (map snd (VoterStakes d)) \<le> TotalStake d"
    and "VoterStakes d \<noteq> [] \<longrightarrow> TotalStake d \<noteq> 0" "0 \<le> r"
  shows "\<forall>(_, v) \<in> set (shares r d). 0 \<le> v" "sum_list (map snd (shares r d)) \<le> r div 2"
proof -
  have half: "r * voterRewardPercentage div 100 = r div 2" "0 \<le> r div 2"
    using assms(4) zdiv_zmult2_eq [of 2 "r * 50" 50] by (simp_all add: voterRewardPercentage_def)
  have nonneg: "0 \<le> sum_list (map snd (VoterStakes d))"
    using assms(1) by (intro sum_list_nonneg) auto
  show "\<forall>(_, v) \<in> set (shares r d). 0 \<le> v"
    using assms(1,2) nonneg half(2) by (auto simp: shares_def half(1) div_int_pos_iff zero_le_mult_iff)
  show "sum_list (map snd (shares r d)) \<le> r div 2"
  proof (cases "VoterStakes d = []")
    case False
    then have t: "0 < TotalStake d"
      using assms(2,3) nonneg by linarith
    have "sum_list (map snd (shares r d)) \<le> (r div 2) * sum_list (map snd (VoterStakes d)) div TotalStake d"
      using sum_div_le [OF t, of "r div 2" "VoterStakes d"] by (simp add: shares_def half(1) case_prod_unfold o_def)
    also have "\<dots> \<le> (r div 2) * TotalStake d div TotalStake d"
      using t half(2) assms(2) by (intro zdiv_mono1 mult_left_mono)
    finally show ?thesis
      using t by simp
  qed (use half in \<open>simp add: shares_def\<close>)
qed

lemma payments_in:
  assumes "(a, d) \<in> set data" "R a = Some r"
  shows "set (payments_of r d) \<subseteq> set (payments data R)"
  using assms split_list [OF assms(1)] by (auto simp: payments_def)


section \<open>An epoch with one validator and two voters\<close>

definition reward_data :: "(address \<times> CandidateData) list" where
  "reward_data = [(1, \<lparr>Owner = 9, VoterStakes = [(2, 1), (3, 2)], TotalStake = 3\<rparr>)]"

lemma reward_example: "calculateReward reward_data [1 \<mapsto> 101] = Done [2 \<mapsto> 16, 3 \<mapsto> 33, 9 \<mapsto> 52]"
  by (simp add: calculateReward_def reward_data_def Let_def voterRewardPercentage_def addReward_def)

theorem rewards_conserved_witness:
  "(\<Sum>a \<in> {2, 3, 9}. pay_rewards [2 \<mapsto> 16, 3 \<mapsto> 33, 9 \<mapsto> 52] (\<lambda>_. 0) a) = (\<Sum>a \<in> {2, 3, 9 :: address}. 0) + 101"
proof -
  have "divisible reward_data [1 \<mapsto> 101]" "dom [2 \<mapsto> 16 :: int, 3 \<mapsto> 33, 9 \<mapsto> 52] \<subseteq> {2, 3, 9 :: address}"
    by (simp_all add: divisible_def reward_data_def)
  then have "(\<Sum>a \<in> {2, 3, 9}. pay_rewards [2 \<mapsto> 16, 3 \<mapsto> 33, 9 \<mapsto> 52] (\<lambda>_. 0) a) = (\<Sum>a \<in> {2, 3, 9 :: address}. 0) +
      sum_list (map (\<lambda>(a, _). case [1 \<mapsto> 101] a of Some r \<Rightarrow> r | None \<Rightarrow> 0) reward_data)"
    using conjunct2 [OF rewards_conserved [of reward_data "[1 \<mapsto> 101]" "\<lambda>_. 0"], rule_format,
        of "[2 \<mapsto> 16, 3 \<mapsto> 33, 9 \<mapsto> 52]" "{2, 3, 9}"] reward_example by simp
  then show ?thesis
    by (simp add: reward_data_def)
qed

theorem rewards_order_independent_witness:
  "calculateReward [(1, \<lparr>Owner = 9, VoterStakes = [(3, 2), (2, 1)], TotalStake = 3\<rparr>)] [1 \<mapsto> 101] =
   Done [2 \<mapsto> 16, 3 \<mapsto> 33, 9 \<mapsto> 52]"
proof -
  have "content [(1, \<lparr>Owner = 9, VoterStakes = [(3, 2), (2, 1)], TotalStake = 3\<rparr>)] = content reward_data"
    by (simp add: content_def reward_data_def add_mset_commute)
  from rewards_order_independent [OF this, of "[1 \<mapsto> 101]"] show ?thesis
    unfolding reward_example .
qed


end
