(* ===== verification/Backend_State.thy ===== *)
theory Backend_State
  imports Engine Core "HOL-Library.Sublist"
begin

text \<open>
  The state the back end keeps between the network, the core and the miner:
  \<^verbatim>\<open>backend/commit_channels.go\<close>, \<^verbatim>\<open>backend/handler.go\<close>, the sending functions of
  \<^verbatim>\<open>backend/backend.go\<close> with \<^verbatim>\<open>byzantine_decide_sendmsg.go\<close>, and starting and stopping in
  \<^verbatim>\<open>engine.go\<close>.  A Go channel is a buffer with a closed flag, addressed by a number since a map entry
  and a waiting goroutine share it; sending on a closed channel and closing it twice panic.  The
  message queue is a third-party package: its operations are an argument, with the laws of a first-in
  first-out queue as a hypothesis.

  The main facts: the commit channels never panic and hand the miner at most one block for each sealing
  task, the message queue delivers in order and is bounded, and a gossiped message reaches each peer
  at most once.
\<close>

section \<open>Commit channels\<close>

record channel =
  buf :: "block option"
  closed :: bool

text \<open>The map is the list of its entries; its keys are decimal texts of numbers, here the numbers.\<close>

record commitChannels =
  chs :: "(int \<times> nat) list"
  store :: "nat \<Rightarrow> channel"
  fresh :: nat

definition newCommitChannels :: commitChannels where
  "newCommitChannels = \<lparr>chs = [], store = (\<lambda>_. \<lparr>buf = None, closed = False\<rparr>), fresh = 0\<rparr>"

definition close_chan :: "nat \<Rightarrow> commitChannels \<Rightarrow> commitChannels outcome" where
  "close_chan ch cc =
    (if closed (store cc ch) then Panic ''close of closed channel''
     else Done (cc\<lparr>store := (store cc)(ch := (store cc ch)\<lparr>closed := True\<rparr>)\<rparr>))"

definition sendBlock :: "block \<Rightarrow> commitChannels \<Rightarrow> (bool \<times> commitChannels) outcome" where
  "sendBlock b cc =
    (case map_of (chs cc) (Block_Number b) of
       None \<Rightarrow> Done (False, cc)
     | Some ch \<Rightarrow>
         if closed (store cc ch) then Panic ''send on closed channel''
         else if buf (store cc ch) = None
         then Done (True, cc\<lparr>store := (store cc)(ch := (store cc ch)\<lparr>buf := Some b\<rparr>)\<rparr>)
         else Done (True, cc))"

definition delete_key :: "int \<Rightarrow> (int \<times> nat) list \<Rightarrow> (int \<times> nat) list" where
  "delete_key n m = filter (\<lambda>(k, _). k \<noteq> n) m"

definition createCommitChannelAndCloseIfExist :: "int \<Rightarrow> commitChannels \<Rightarrow> (nat \<times> commitChannels) outcome" where
  "createCommitChannelAndCloseIfExist n cc =
    obind (case map_of (chs cc) n of Some ch \<Rightarrow> close_chan ch cc | None \<Rightarrow> Done cc) (\<lambda>cc.
      let ch = fresh cc
      in Done (ch, cc\<lparr>chs := (n, ch) # delete_key n (chs cc),
                      store := (store cc)(ch := \<lparr>buf = None, closed = False\<rparr>), fresh := Suc ch\<rparr>))"

definition closeAndRemoveCommitChannel :: "int \<Rightarrow> commitChannels \<Rightarrow> commitChannels outcome" where
  "closeAndRemoveCommitChannel n cc =
    (case map_of (chs cc) n of
       None \<Rightarrow> Done cc
     | Some ch \<Rightarrow> obind (close_chan ch cc) (\<lambda>cc. Done (cc\<lparr>chs := delete_key n (chs cc)\<rparr>)))"

fun close_entries :: "(int \<times> nat) list \<Rightarrow> commitChannels \<Rightarrow> commitChannels outcome" where
  "close_entries [] cc = Done cc"
| "close_entries ((n, ch) # rest) cc =
    obind (close_chan ch cc) (\<lambda>cc. close_entries rest (cc\<lparr>chs := delete_key n (chs cc)\<rparr>))"

definition closeAndRemoveAllChannels :: "commitChannels \<Rightarrow> commitChannels outcome" where
  "closeAndRemoveAllChannels cc = close_entries (chs cc) cc"

text \<open>\<^verbatim>\<open>Commit\<close>: a block no sealing task waits for goes to the fetcher.\<close>

definition Commit :: "block \<Rightarrow> commitChannels \<Rightarrow> (block option \<times> commitChannels) outcome" where
  "Commit b cc = obind (sendBlock b cc) (\<lambda>(isSent, cc). Done (if \<not> isSent then Some b else None, cc))"

definition Cancel :: "block \<Rightarrow> commitChannels \<Rightarrow> commitChannels outcome" where
  "Cancel b cc = closeAndRemoveCommitChannel (Block_Number b) cc"

text \<open>
  The goroutines of \<^verbatim>\<open>Seal\<close>: each waits for one channel, then removes the channel of the block's number
  and hands the block to the miner.  \<open>received\<close> are the goroutines between those two steps.
\<close>

record sealing =
  channels :: commitChannels
  waiting :: "nat list"
  received :: "(nat \<times> block) list"
  results :: "(nat \<times> block) list"
  fetcher :: "block list"

datatype sealing_op =
    Op_Create int
  | Op_Commit block
  | Op_Remove int
  | Op_RemoveAll
  | Op_Receive nat
  | Op_Deliver nat

definition seal_step :: "sealing_op \<Rightarrow> sealing \<Rightarrow> sealing outcome" where
  "seal_step x s =
    (case x of
       Op_Create n \<Rightarrow>
         obind (createCommitChannelAndCloseIfExist n (channels s)) (\<lambda>(ch, cc).
           Done (s\<lparr>channels := cc, waiting := ch # waiting s\<rparr>))
     | Op_Commit b \<Rightarrow>
         obind (Commit b (channels s)) (\<lambda>(fetch, cc).
           Done (s\<lparr>channels := cc, fetcher := fetcher s @ (case fetch of Some b \<Rightarrow> [b] | None \<Rightarrow> [])\<rparr>))
     | Op_Remove n \<Rightarrow> obind (closeAndRemoveCommitChannel n (channels s)) (\<lambda>cc. Done (s\<lparr>channels := cc\<rparr>))
     | Op_RemoveAll \<Rightarrow> obind (closeAndRemoveAllChannels (channels s)) (\<lambda>cc. Done (s\<lparr>channels := cc\<rparr>))
     | Op_Receive ch \<Rightarrow>
         if ch \<notin> set (waiting s) then Done s
         else (case buf (store (channels s) ch) of
                 Some b \<Rightarrow>
                   Done (s\<lparr>channels := (channels s)\<lparr>store := (store (channels s))
                              (ch := (store (channels s) ch)\<lparr>buf := None\<rparr>)\<rparr>,
                           waiting := filter (\<lambda>c. c \<noteq> ch) (waiting s), received := received s @ [(ch, b)]\<rparr>)
               | None \<Rightarrow>
                   if closed (store (channels s) ch) then Done (s\<lparr>waiting := filter (\<lambda>c. c \<noteq> ch) (waiting s)\<rparr>)
                   else Done s)
     | Op_Deliver ch \<Rightarrow>
         (case map_of (received s) ch of
            None \<Rightarrow> Done s
          | Some b \<Rightarrow>
              obind (closeAndRemoveCommitChannel (Block_Number b) (channels s)) (\<lambda>cc.
                Done (s\<lparr>channels := cc, received := filter (\<lambda>(c, _). c \<noteq> ch) (received s),
                         results := results s @ [(ch, b)]\<rparr>))))"

fun seal_run :: "sealing_op list \<Rightarrow> sealing \<Rightarrow> sealing outcome" where
  "seal_run [] s = Done s"
| "seal_run (x # xs) s = obind (seal_step x s) (seal_run xs)"

definition seal_init :: sealing where
  "seal_init = \<lparr>channels = newCommitChannels, waiting = [], received = [], results = [], fetcher = []\<rparr>"

section \<open>The commit channels are safe\<close>

text \<open>The block numbers of the sealing tasks, in the order of their channels.\<close>

fun created :: "sealing_op list \<Rightarrow> int list" where
  "created [] = []"
| "created (Op_Create n # xs) = n # created xs"
| "created (_ # xs) = created xs"

lemma created_append: "created (xs @ ys) = created xs @ created ys"
  by (induction xs rule: created.induct) simp_all

text \<open>A block that has been committed, in a channel that was made for its number.\<close>

definition genuine :: "sealing_op list \<Rightarrow> nat \<times> block \<Rightarrow> bool" where
  "genuine hist = (\<lambda>(ch, b). Op_Commit b \<in> set hist \<and> ch < length (created hist) \<and> created hist ! ch = Block_Number b)"

lemma genuine_append: "genuine hist x \<Longrightarrow> genuine (hist @ [op]) x"
  by (auto simp: genuine_def created_append nth_append)

definition cc_ok :: "sealing_op list \<Rightarrow> commitChannels \<Rightarrow> bool" where
  "cc_ok hist cc \<longleftrightarrow> fresh cc = length (created hist) \<and> distinct (map fst (chs cc)) \<and>
     (\<forall>n ch. (n, ch) \<in> set (chs cc) \<longrightarrow> \<not> closed (store cc ch) \<and> ch < fresh cc \<and> created hist ! ch = n) \<and>
     (\<forall>ch b. buf (store cc ch) = Some b \<longrightarrow> genuine hist (ch, b))"

lemma cc_ok_append: "cc_ok hist cc \<Longrightarrow> created [op] = [] \<Longrightarrow> cc_ok (hist @ [op]) cc"
  unfolding cc_ok_def created_append by (auto simp: genuine_append)

lemma set_delete_key: "set (delete_key n m) = {x \<in> set m. fst x \<noteq> n}"
  by (auto simp: delete_key_def)

lemma distinct_delete_key: "distinct (map fst m) \<Longrightarrow> distinct (map fst (delete_key n m))"
  by (simp add: delete_key_def distinct_map_filter)

lemma close_chan_ok:
  assumes "cc_ok hist cc" "(n, ch) \<in> set (chs cc)"
  shows "\<exists>cc'. close_chan ch cc = Done cc' \<and> chs cc' = chs cc \<and>
    cc_ok hist (cc'\<lparr>chs := delete_key n (chs cc)\<rparr>)"
proof -
  have "ch' \<noteq> ch" if "(m, ch') \<in> set (chs cc)" "m \<noteq> n" for m ch'
    using assms that unfolding cc_ok_def by blast
  then show ?thesis
    using assms by (auto simp: close_chan_def cc_ok_def set_delete_key distinct_delete_key)
qed

lemma closeAndRemoveCommitChannel_ok:
  assumes "cc_ok hist cc"
  shows "\<exists>cc'. closeAndRemoveCommitChannel n cc = Done cc' \<and> cc_ok hist cc'"
proof (cases "map_of (chs cc) n")
  case None
  then show ?thesis using assms by (simp add: closeAndRemoveCommitChannel_def)
next
  case (Some ch)
  from close_chan_ok [OF assms map_of_SomeD [OF this]] Some show ?thesis
    by (auto simp: closeAndRemoveCommitChannel_def)
qed

lemma close_entries_ok: "cc_ok hist cc \<Longrightarrow> chs cc = m \<Longrightarrow> \<exists>cc'. close_entries m cc = Done cc' \<and> cc_ok hist cc'"
proof (induction m arbitrary: cc)
  case Nil
  then show ?case by simp
next
  case (Cons x m)
  obtain n ch where x: "x = (n, ch)" by force
  have "n \<notin> fst ` set m" using Cons.prems by (simp add: cc_ok_def x)
  then have "delete_key n (chs cc) = m"
    using Cons.prems(2) by (force simp: delete_key_def x filter_id_conv)
  moreover obtain cc' where "close_chan ch cc = Done cc'" "chs cc' = chs cc" "cc_ok hist (cc'\<lparr>chs := delete_key n (chs cc)\<rparr>)"
    using close_chan_ok [OF Cons.prems(1), of n ch] Cons.prems(2) x by auto
  ultimately show ?case using Cons.IH [of "cc'\<lparr>chs := m\<rparr>"] by (simp add: x)
qed

lemma createCommitChannel_ok:
  assumes "cc_ok hist cc"
  shows "\<exists>cc'. createCommitChannelAndCloseIfExist n cc = Done (length (created hist), cc') \<and>
    cc_ok (hist @ [Op_Create n]) cc'"
proof -
  obtain cc1 where one: "(case map_of (chs cc) n of Some ch \<Rightarrow> close_chan ch cc | None \<Rightarrow> Done cc) = Done cc1"
    and del: "cc_ok hist (cc1\<lparr>chs := delete_key n (chs cc1)\<rparr>)"
  proof (cases "map_of (chs cc) n")
    case None
    then have "delete_key n (chs cc) = chs cc"
      by (force simp: delete_key_def map_of_eq_None_iff filter_id_conv)
    with None assms that [of cc] show thesis by simp
  next
    case (Some ch)
    with close_chan_ok [OF assms map_of_SomeD [OF Some]] that show thesis by auto
  qed
  have "fresh cc1 \<notin> snd ` set (delete_key n (chs cc1))" "n \<notin> fst ` set (delete_key n (chs cc1))"
    using del by (force simp: cc_ok_def set_delete_key)+
  with one del show ?thesis
    by (fastforce simp: createCommitChannelAndCloseIfExist_def Let_def cc_ok_def created_append nth_append
        genuine_append)
qed

lemma Commit_ok:
  assumes "cc_ok hist cc"
  shows "\<exists>r cc'. Commit b cc = Done (r, cc') \<and> cc_ok (hist @ [Op_Commit b]) cc'"
proof -
  have ok: "cc_ok (hist @ [Op_Commit b]) cc" using cc_ok_append [OF assms] by simp
  show ?thesis
  proof (cases "map_of (chs cc) (Block_Number b)")
    case None
    with ok show ?thesis
      by (cases "buf (store cc ch)") (auto simp: Commit_def sendBlock_def)
  next
    case (Some ch)
    then have "(Block_Number b, ch) \<in> set (chs cc)" by (rule map_of_SomeD)
    then have "\<not> closed (store cc ch)" "genuine (hist @ [Op_Commit b]) (ch, b)"
      using ok by (auto simp: cc_ok_def genuine_def)
    with ok have "cc_ok (hist @ [Op_Commit b]) (cc\<lparr>store := (store cc)(ch := (store cc ch)\<lparr>buf := Some b\<rparr>)\<rparr>)"
      by (auto simp: cc_ok_def)
    with Some ok \<open>\<not> closed (store cc ch)\<close> show ?thesis
      by (cases "buf (store cc ch)") (auto simp: Commit_def sendBlock_def)
  qed
qed

definition sealing_ok :: "sealing_op list \<Rightarrow> sealing \<Rightarrow> bool" where
  "sealing_ok hist s \<longleftrightarrow> cc_ok hist (channels s) \<and>
     distinct (waiting s @ map fst (received s) @ map fst (results s)) \<and>
     (\<forall>ch \<in> set (waiting s @ map fst (received s) @ map fst (results s)). ch < length (created hist)) \<and>
     (\<forall>x \<in> set (received s @ results s). genuine hist x)"

text \<open>The claims of the tasks stay, and a task may move on to the next stage or give up.\<close>

lemma sealing_okI:
  assumes "sealing_ok hist s" "created [op] = []" "cc_ok hist (channels s') \<or> cc_ok (hist @ [op]) (channels s')"
    "distinct (waiting s' @ map fst (received s') @ map fst (results s'))"
    "set (waiting s' @ map fst (received s') @ map fst (results s')) \<subseteq>
     set (waiting s @ map fst (received s) @ map fst (results s))"
    "\<forall>x \<in> set (received s' @ results s'). genuine hist x"
  shows "sealing_ok (hist @ [op]) s'"
proof -
  have same: "created (hist @ [op]) = created hist" using assms(2) by (simp add: created_append)
  have "cc_ok (hist @ [op]) (channels s')" using assms(2,3) cc_ok_append by blast
  moreover have "\<forall>ch \<in> set (waiting s' @ map fst (received s') @ map fst (results s')). ch < length (created hist)"
    using assms(1,5) unfolding sealing_ok_def by blast
  moreover have "\<forall>x \<in> set (received s' @ results s'). genuine (hist @ [op]) x"
    using assms(6) genuine_append by blast
  ultimately show ?thesis using assms(4) same unfolding sealing_ok_def by simp
qed

lemma sealing_ok_channels:
  assumes "sealing_ok hist s" "created [op] = []" "cc_ok hist cc \<or> cc_ok (hist @ [op]) cc"
  shows "sealing_ok (hist @ [op]) (s\<lparr>channels := cc, fetcher := f\<rparr>)"
  by (rule sealing_okI [OF assms(1,2)]) (use assms(1,3) in \<open>simp_all add: sealing_ok_def\<close>)

lemma seal_receive_ok:
  assumes "sealing_ok hist s"
  shows "\<exists>s'. seal_step (Op_Receive ch) s = Done s' \<and> sealing_ok (hist @ [Op_Receive ch]) s'"
proof -
  let ?op = "Op_Receive ch" and ?cc = "channels s"
  have cc: "cc_ok hist ?cc" using assms by (simp add: sealing_ok_def)
  show ?thesis
  proof (cases "ch \<in> set (waiting s)")
    case False
    then show ?thesis using sealing_okI [OF assms, of ?op s] assms by (simp add: seal_step_def sealing_ok_def)
  next
    case waits: True
    show ?thesis
    proof (cases "buf (store ?cc ch)")
      case None
      let ?s = "s\<lparr>waiting := filter (\<lambda>c. c \<noteq> ch) (waiting s)\<rparr>"
      have "sealing_ok (hist @ [?op]) s"
        by (rule sealing_okI [OF assms]) (use assms in \<open>simp_all add: sealing_ok_def\<close>)
      moreover have "sealing_ok (hist @ [?op]) ?s"
        by (rule sealing_okI [OF assms]) (use assms in \<open>auto simp: sealing_ok_def\<close>)
      ultimately show ?thesis using waits None by (simp add: seal_step_def)
    next
      case (Some b)
      let ?s = "s\<lparr>channels := ?cc\<lparr>store := (store ?cc)(ch := (store ?cc ch)\<lparr>buf := None\<rparr>)\<rparr>,
        waiting := filter (\<lambda>c. c \<noteq> ch) (waiting s), received := received s @ [(ch, b)]\<rparr>"
      have "genuine hist (ch, b)" using cc Some by (simp add: cc_ok_def)
      moreover have "cc_ok hist (channels ?s)" using cc by (auto simp: cc_ok_def)
      ultimately have "sealing_ok (hist @ [?op]) ?s"
        by (intro sealing_okI [OF assms]) (use assms waits in \<open>auto simp: sealing_ok_def\<close>)
      then show ?thesis using waits Some by (simp add: seal_step_def)
    qed
  qed
qed

lemma seal_deliver_ok:
  assumes "sealing_ok hist s"
  shows "\<exists>s'. seal_step (Op_Deliver ch) s = Done s' \<and> sealing_ok (hist @ [Op_Deliver ch]) s'"
proof (cases "map_of (received s) ch")
  case None
  have "sealing_ok (hist @ [Op_Deliver ch]) s"
    by (rule sealing_okI [OF assms]) (use assms in \<open>simp_all add: sealing_ok_def\<close>)
  with None show ?thesis by (simp add: seal_step_def)
next
  case (Some b)
  obtain cc where cc: "closeAndRemoveCommitChannel (Block_Number b) (channels s) = Done cc" "cc_ok hist cc"
    using closeAndRemoveCommitChannel_ok [of hist "channels s" "Block_Number b"] assms
    by (auto simp: sealing_ok_def)
  let ?s = "s\<lparr>channels := cc, received := filter (\<lambda>(c, _). c \<noteq> ch) (received s), results := results s @ [(ch, b)]\<rparr>"
  have mem: "(ch, b) \<in> set (received s)" using Some by (rule map_of_SomeD)
  then have ch: "ch \<in> set (map fst (received s))" by force
  have gen: "genuine hist (ch, b)" "\<forall>x \<in> set (received ?s @ results ?s). genuine hist x"
    using mem assms unfolding sealing_ok_def by auto
  have "map fst (received ?s) = filter (\<lambda>c. c \<noteq> ch) (map fst (received s))"
    by (simp add: filter_map comp_def case_prod_unfold)
  with ch have "distinct (waiting ?s @ map fst (received ?s) @ map fst (results ?s))"
    "set (waiting ?s @ map fst (received ?s) @ map fst (results ?s)) \<subseteq>
     set (waiting s @ map fst (received s) @ map fst (results s))"
    using assms unfolding sealing_ok_def by auto
  with gen(2) cc(2) have "sealing_ok (hist @ [Op_Deliver ch]) ?s"
    by (intro sealing_okI [OF assms]) simp_all
  then show ?thesis using Some cc by (simp add: seal_step_def)
qed

lemma seal_step_ok:
  assumes "sealing_ok hist s"
  shows "\<exists>s'. seal_step op s = Done s' \<and> sealing_ok (hist @ [op]) s'"
proof (cases op)
  case (Op_Create n)
  obtain cc where cc: "createCommitChannelAndCloseIfExist n (channels s) = Done (length (created hist), cc)"
    "cc_ok (hist @ [op]) cc"
    using createCommitChannel_ok [of hist "channels s" n] assms Op_Create by (auto simp: sealing_ok_def)
  have "length (created hist) \<notin> set (waiting s @ map fst (received s) @ map fst (results s))"
    using assms by (auto simp: sealing_ok_def)
  then have "sealing_ok (hist @ [op]) (s\<lparr>channels := cc, waiting := length (created hist) # waiting s\<rparr>)"
    using assms cc(2) unfolding sealing_ok_def
    by (simp add: Op_Create created_append genuine_append ball_Un less_SucI)
  then show ?thesis using cc(1) Op_Create by (simp add: seal_step_def)
next
  case (Op_Commit b)
  obtain r cc where "Commit b (channels s) = Done (r, cc)" "cc_ok (hist @ [op]) cc"
    using Commit_ok [of hist "channels s" b] assms Op_Commit by (auto simp: sealing_ok_def)
  then show ?thesis using sealing_ok_channels [OF assms, of op cc] Op_Commit by (simp add: seal_step_def)
next
  case (Op_Remove n)
  obtain cc where "closeAndRemoveCommitChannel n (channels s) = Done cc" "cc_ok hist cc"
    using closeAndRemoveCommitChannel_ok [of hist "channels s" n] assms by (auto simp: sealing_ok_def)
  then show ?thesis
    using sealing_ok_channels [OF assms, of op cc "fetcher s"] Op_Remove by (simp add: seal_step_def)
next
  case Op_RemoveAll
  obtain cc where "closeAndRemoveAllChannels (channels s) = Done cc" "cc_ok hist cc"
    using close_entries_ok [of hist "channels s"] assms by (auto simp: sealing_ok_def closeAndRemoveAllChannels_def)
  then show ?thesis
    using sealing_ok_channels [OF assms, of op cc "fetcher s"] Op_RemoveAll by (simp add: seal_step_def)
qed (use assms seal_receive_ok seal_deliver_ok in simp_all)

lemma seal_run_ok:
  "sealing_ok hist s \<Longrightarrow> \<exists>s'. seal_run ops s = Done s' \<and> sealing_ok (hist @ ops) s'"
proof (induction ops arbitrary: hist s)
  case Nil
  then show ?case by simp
next
  case (Cons op ops)
  then obtain s1 where "seal_step op s = Done s1" "sealing_ok (hist @ [op]) s1"
    using seal_step_ok by blast
  with Cons.IH [of "hist @ [op]" s1] show ?case by simp
qed

lemma seal_init_ok: "sealing_ok [] seal_init"
  by (simp add: sealing_ok_def seal_init_def cc_ok_def newCommitChannels_def)

text \<open>
  C33.  Whatever the order in which sealing tasks start, blocks are committed, channels are removed and
  the waiting goroutines run, no operation sends on a closed channel or closes one twice; the miner gets
  at most one block for each sealing task, and that block was committed by the core and has the number
  the task was started for.
\<close>

theorem commit_channels_safe:
  "\<exists>s. seal_run ops seal_init = Done s \<and> distinct (map fst (results s)) \<and>
     list_all (\<lambda>(ch, b). Op_Commit b \<in> set ops \<and> ch < length (created ops) \<and>
       created ops ! ch = Block_Number b) (results s)"
  using seal_run_ok [OF seal_init_ok, of ops]
  by (auto simp: sealing_ok_def genuine_def list_all_iff)

section \<open>The message queue\<close>

definition maxNumberMessages :: nat where
  "maxNumberMessages = 64 * 128 * 6"

abbreviation TendermintMsg :: nat where
  "TendermintMsg \<equiv> 0x11"

abbreviation RandomlyStopSendingMsg :: nat where
  "RandomlyStopSendingMsg \<equiv> 2"

text \<open>The operations of the queue package that the back end calls.\<close>

record 'q fifo_ops =
  GetLen :: "'q \<Rightarrow> nat"
  Get :: "'q \<Rightarrow> nat \<Rightarrow> error + byte list"
  Enqueue :: "byte list \<Rightarrow> 'q \<Rightarrow> error + 'q"
  Dequeue :: "'q \<Rightarrow> error + 'q"
  emptyQueueErr :: "error \<Rightarrow> bool"

text \<open>\<open>posted\<close> are the messages the core has been given.\<close>

record 'q msg_queue =
  coreStarted :: bool
  storingMsgs :: 'q
  posted :: "byte list list"

definition decode_msg :: "byte list \<Rightarrow> error + byte list" where
  "decode_msg data =
    (case fst (decodeByteSlice (Stream_Reset data (length data))) of
       Inl _ \<Rightarrow> Inl (ErrOther ''fail to decode istanbul message'')
     | Inr m \<Rightarrow> Inr m)"

primrec free_slots :: "'q fifo_ops \<Rightarrow> nat \<Rightarrow> 'q \<Rightarrow> error option \<times> 'q" where
  "free_slots ops 0 q = (None, q)"
| "free_slots ops (Suc n) q =
    (case Dequeue ops q of Inl err \<Rightarrow> (Some err, q) | Inr q \<Rightarrow> free_slots ops n q)"

definition HandleMsg ::
    "'q fifo_ops \<Rightarrow> nat \<Rightarrow> byte list \<Rightarrow> 'q msg_queue \<Rightarrow> (bool \<times> error option) \<times> 'q msg_queue" where
  "HandleMsg ops code data s =
    (if code = TendermintMsg then
       (case decode_msg data of
          Inl err \<Rightarrow> ((True, Some err), s)
        | Inr decodedMsg \<Rightarrow>
            (case (if GetLen ops (storingMsgs s) \<ge> maxNumberMessages
                   then free_slots ops (GetLen ops (storingMsgs s) - maxNumberMessages) (storingMsgs s)
                   else (None, storingMsgs s)) of
               (Some err, q) \<Rightarrow> ((True, Some err), s\<lparr>storingMsgs := q\<rparr>)
             | (None, q) \<Rightarrow>
                 (case Enqueue ops decodedMsg q of
                    Inl err \<Rightarrow> ((True, Some err), s\<lparr>storingMsgs := q\<rparr>)
                  | Inr q \<Rightarrow> ((True, None), s\<lparr>storingMsgs := q\<rparr>))))
     else ((False, Some (ErrOther ''unknown message code for Tendermint's protocol'')), s))"

text \<open>
  \<^verbatim>\<open>checkAndSendMsg\<close>: \<open>coin\<close> is what \<^verbatim>\<open>rand.Intn(2)\<close> decides in the faulty mode; \<open>post\<close> is the answer of the
  event multiplexer, which refuses messages once it is stopped.
\<close>

definition checkAndSendMsg ::
    "nat \<Rightarrow> bool \<Rightarrow> (byte list \<Rightarrow> error option) \<Rightarrow> byte list \<Rightarrow> 'q msg_queue \<Rightarrow> error option \<times> 'q msg_queue" where
  "checkAndSendMsg faultyMode coin post data s =
    (let decidedSendMsg = (if faultyMode = RandomlyStopSendingMsg then coin else True)
     in if decidedSendMsg
        then (case post data of
                Some err \<Rightarrow> (Some err, s)
              | None \<Rightarrow> (None, s\<lparr>posted := posted s @ [data]\<rparr>))
        else (None, s))"

text \<open>
  \<^verbatim>\<open>replayTendermintMsg\<close> up to sending the first message, and its last step.  \<^verbatim>\<open>HandleMsg\<close> does not take the
  lock that this function holds, so it may run between the two.  An answer ends the call early.
\<close>

definition replay_send ::
    "'q fifo_ops \<Rightarrow> nat \<Rightarrow> bool \<Rightarrow> (byte list \<Rightarrow> error option) \<Rightarrow> 'q msg_queue \<Rightarrow>
     (bool \<times> error option) option \<times> 'q msg_queue" where
  "replay_send ops faultyMode coin post s =
    (if \<not> coreStarted s then (Some (True, None), s)
     else if GetLen ops (storingMsgs s) = 0 then (Some (True, None), s)
     else (case Get ops (storingMsgs s) 0 of
             Inl err \<Rightarrow> if emptyQueueErr ops err then (Some (True, None), s) else (Some (False, Some err), s)
           | Inr stored \<Rightarrow>
               (case checkAndSendMsg faultyMode coin post stored s of
                  (Some err, s) \<Rightarrow> (Some (False, Some err), s)
                | (None, s) \<Rightarrow> (None, s))))"

definition replay_pop :: "'q fifo_ops \<Rightarrow> 'q msg_queue \<Rightarrow> 'q msg_queue" where
  "replay_pop ops s = (case Dequeue ops (storingMsgs s) of Inl _ \<Rightarrow> s | Inr q \<Rightarrow> s\<lparr>storingMsgs := q\<rparr>)"

definition replayTendermintMsg ::
    "'q fifo_ops \<Rightarrow> nat \<Rightarrow> bool \<Rightarrow> (byte list \<Rightarrow> error option) \<Rightarrow> 'q msg_queue \<Rightarrow>
     (bool \<times> error option) \<times> 'q msg_queue" where
  "replayTendermintMsg ops faultyMode coin post s =
    (case replay_send ops faultyMode coin post s of
       (Some r, s) \<Rightarrow> (r, s)
     | (None, s) \<Rightarrow> ((False, None), replay_pop ops s))"

text \<open>The replay loop of \<^verbatim>\<open>dequeueMsgLoop\<close> for one trigger; the coins are drawn in turn.\<close>

partial_function (option) replayLoop ::
    "'q fifo_ops \<Rightarrow> nat \<Rightarrow> (nat \<Rightarrow> bool) \<Rightarrow> nat \<Rightarrow> (byte list \<Rightarrow> error option) \<Rightarrow> 'q msg_queue \<Rightarrow> 'q msg_queue option" where
  "replayLoop ops faultyMode coins i post s =
    (case replayTendermintMsg ops faultyMode (coins i) post s of
       ((stop, err), s') \<Rightarrow>
         if err \<noteq> None then Some s' else if stop then Some s'
         else replayLoop ops faultyMode coins (Suc i) post s')"

section \<open>Starting and stopping\<close>

text \<open>\<^verbatim>\<open>FindExistingPeers\<close>: \<^verbatim>\<open>FindPeers\<close> keeps the targets that are connected.\<close>

definition other_validators :: "address \<Rightarrow> defaultSet \<Rightarrow> address list" where
  "other_validators self vs = remdups (filter (\<lambda>a. a \<noteq> self) (validators vs))"

definition FindExistingPeers :: "address \<Rightarrow> (address \<Rightarrow> bool) \<Rightarrow> defaultSet \<Rightarrow> address list" where
  "FindExistingPeers self connected vs = filter connected (other_validators self vs)"

text \<open>\<open>startErr\<close> is what starting the core answers.\<close>

definition tryStartCore ::
    "address \<Rightarrow> (address \<Rightarrow> bool) \<Rightarrow> defaultSet \<Rightarrow> error option \<Rightarrow> 'q msg_queue \<Rightarrow> bool \<times> 'q msg_queue" where
  "tryStartCore self connected vs startErr s =
    (if coreStarted s then (True, s)
     else if int (length (FindExistingPeers self connected vs)) < MinPeers vs then (False, s)
     else if startErr \<noteq> None then (False, s)
     else (True, s\<lparr>coreStarted := True\<rparr>))"

text \<open>The start loop, event by event; \<open>None\<close> means that it is still waiting.\<close>

datatype start_event =
    Tick "address \<Rightarrow> bool" defaultSet "error option"
  | Interrupt

fun start_loop ::
    "address \<Rightarrow> start_event list \<Rightarrow> 'q msg_queue \<Rightarrow> error option option \<times> 'q msg_queue" where
  "start_loop self [] s = (None, s)"
| "start_loop self (Interrupt # evs) s = (Some (Some (ErrOther ''start miner interrupted'')), s)"
| "start_loop self (Tick connected vs startErr # evs) s =
    (case tryStartCore self connected vs startErr s of
       (True, s) \<Rightarrow> (Some None, s)
     | (False, s) \<Rightarrow> start_loop self evs s)"

definition backend_Start ::
    "address \<Rightarrow> start_event list \<Rightarrow> commitChannels \<Rightarrow> 'q msg_queue \<Rightarrow>
     ((error option option \<times> 'q msg_queue) \<times> commitChannels) outcome" where
  "backend_Start self evs cc s =
    (if coreStarted s then Done ((Some (Some ErrStartedEngine), s), cc)
     else obind (closeAndRemoveAllChannels cc) (\<lambda>cc. Done (start_loop self evs s, cc)))"

definition backend_Stop :: "error option \<Rightarrow> 'q msg_queue \<Rightarrow> error option \<times> 'q msg_queue" where
  "backend_Stop stopErr s =
    (if \<not> coreStarted s then (None, s)
     else case stopErr of
            Some err \<Rightarrow> (Some err, s)
          | None \<Rightarrow> (None, s\<lparr>coreStarted := False\<rparr>))"

text \<open>The answer, and the event posted to the core.\<close>

definition HandleNewChainHead ::
    "int \<Rightarrow> 'q msg_queue \<Rightarrow> commitChannels \<Rightarrow> ((error option \<times> event option) \<times> commitChannels) outcome" where
  "HandleNewChainHead n s cc =
    (if \<not> coreStarted s then Done ((Some ErrStoppedEngine, None), cc)
     else obind (closeAndRemoveCommitChannel n cc) (\<lambda>cc. Done ((None, Some (FinalCommittedEvent n)), cc)))"

definition VerifyProposalBlock :: "address \<Rightarrow> (block \<Rightarrow> error option) option \<Rightarrow> block \<Rightarrow> error option" where
  "VerifyProposalBlock self verifyAndSubmitBlock b =
    (if Coinbase (Block_Header b) = self then None
     else case verifyAndSubmitBlock of
            None \<Rightarrow> Some (ErrOther ''no verify block hook'')
          | Some verify \<Rightarrow> verify b)"

section \<open>The message queue keeps the order\<close>

text \<open>
  What the package documents: a queue that is not locked holds a list of messages, \<^verbatim>\<open>Enqueue\<close> adds at its end,
  \<^verbatim>\<open>Get\<close> reads by index and \<^verbatim>\<open>Dequeue\<close> removes its head, failing only when there is none.
\<close>

definition fifo :: "'q fifo_ops \<Rightarrow> ('q \<Rightarrow> byte list list) \<Rightarrow> bool" where
  "fifo ops contents \<longleftrightarrow>
     (\<forall>q. GetLen ops q = length (contents q)) \<and>
     (\<forall>q i. i < length (contents q) \<longrightarrow> Get ops q i = Inr (contents q ! i)) \<and>
     (\<forall>q m. \<exists>q'. Enqueue ops m q = Inr q' \<and> contents q' = contents q @ [m]) \<and>
     (\<forall>q. contents q \<noteq> [] \<longrightarrow> (\<exists>q'. Dequeue ops q = Inr q' \<and> contents q' = tl (contents q))) \<and>
     (\<forall>q. contents q = [] \<longrightarrow> (\<exists>err. Dequeue ops q = Inl err))"

definition list_fifo :: "byte list list fifo_ops" where
  "list_fifo = \<lparr>GetLen = length,
     Get = (\<lambda>q i. if i < length q then Inr (q ! i) else Inl (ErrOther ''index out of bounds'')),
     Enqueue = (\<lambda>m q. Inr (q @ [m])),
     Dequeue = (\<lambda>q. if q = [] then Inl (ErrOther ''empty queue'') else Inr (tl q)),
     emptyQueueErr = (\<lambda>err. err = ErrOther ''empty queue'')\<rparr>"

lemma fifo_list_fifo: "fifo list_fifo (\<lambda>q. q)"
  by (simp add: fifo_def list_fifo_def)

lemma fifo_nonempty:
  assumes "fifo ops contents" "contents q \<noteq> []"
  shows "Get ops q 0 = Inr (hd (contents q))" "\<exists>q'. Dequeue ops q = Inr q' \<and> contents q' = tl (contents q)"
  using assms by (auto simp: fifo_def hd_conv_nth)

lemma free_slots_fifo:
  "fifo ops contents \<Longrightarrow> n \<le> length (contents q) \<Longrightarrow>
   \<exists>q'. free_slots ops n q = (None, q') \<and> contents q' = drop n (contents q)"
proof (induction n arbitrary: q)
  case 0
  then show ?case by simp
next
  case (Suc n)
  then obtain q1 where "Dequeue ops q = Inr q1" "contents q1 = tl (contents q)"
    using fifo_nonempty(2) [of ops contents q] by force
  with Suc.IH [of q1] Suc.prems show ?case by (auto simp: drop_Suc)
qed

lemma HandleMsg_fifo:
  assumes "fifo ops contents" "decode_msg data = Inr m"
  shows "\<exists>q. HandleMsg ops TendermintMsg data s = ((True, None), s\<lparr>storingMsgs := q\<rparr>) \<and>
    contents q = drop (length (contents (storingMsgs s)) - maxNumberMessages) (contents (storingMsgs s)) @ [m]"
proof -
  let ?q = "storingMsgs s" and ?n = "length (contents (storingMsgs s)) - maxNumberMessages"
  obtain q1 where q1: "free_slots ops ?n ?q = (None, q1)" "contents q1 = drop ?n (contents ?q)"
    using free_slots_fifo [OF assms(1), of ?n ?q] by auto
  have len: "GetLen ops ?q = length (contents ?q)"
    and enq: "\<exists>q'. Enqueue ops m q = Inr q' \<and> contents q' = contents q @ [m]" for q
    using assms(1) by (simp_all add: fifo_def)
  obtain q2 where "Enqueue ops m q1 = Inr q2" "contents q2 = contents q1 @ [m]" using enq by blast
  moreover obtain q3 where "Enqueue ops m ?q = Inr q3" "contents q3 = contents ?q @ [m]" using enq by blast
  ultimately show ?thesis
    using q1 len assms(2)
    by (cases "length (contents ?q) \<ge> maxNumberMessages") (simp_all add: HandleMsg_def, blast+)
qed

lemma HandleMsg_refused:
  "code \<noteq> TendermintMsg \<or> decode_msg data = Inl err \<Longrightarrow> snd (HandleMsg ops code data s) = s"
  by (auto simp: HandleMsg_def)

text \<open>
  The run of the queue: messages arrive, the replaying goroutine sends the head and later removes it, and
  the core starts and stops.  \<open>sending\<close> is true between the two steps of the goroutine.
\<close>

record 'q replay =
  mq :: "'q msg_queue"
  sending :: bool

datatype queue_op =
    Q_Handle nat "byte list"
  | Q_Send bool "byte list \<Rightarrow> error option"
  | Q_Pop
  | Q_Start "error option" "address \<Rightarrow> bool" defaultSet address
  | Q_Stop "error option"

definition queue_step :: "'q fifo_ops \<Rightarrow> nat \<Rightarrow> queue_op \<Rightarrow> 'q replay \<Rightarrow> 'q replay" where
  "queue_step ops faultyMode x r =
    (case x of
       Q_Handle code data \<Rightarrow> r\<lparr>mq := snd (HandleMsg ops code data (mq r))\<rparr>
     | Q_Send coin post \<Rightarrow>
         if sending r then r
         else (case replay_send ops faultyMode coin post (mq r) of
                 (Some _, s) \<Rightarrow> r\<lparr>mq := s\<rparr>
               | (None, s) \<Rightarrow> r\<lparr>mq := s, sending := True\<rparr>)
     | Q_Pop \<Rightarrow> if sending r then r\<lparr>mq := replay_pop ops (mq r), sending := False\<rparr> else r
     | Q_Start startErr connected vs self \<Rightarrow>
         if sending r then r else r\<lparr>mq := snd (tryStartCore self connected vs startErr (mq r))\<rparr>
     | Q_Stop stopErr \<Rightarrow> if sending r then r else r\<lparr>mq := snd (backend_Stop stopErr (mq r))\<rparr>)"

fun queue_run :: "'q fifo_ops \<Rightarrow> nat \<Rightarrow> queue_op list \<Rightarrow> 'q replay \<Rightarrow> 'q replay" where
  "queue_run ops faultyMode [] r = r"
| "queue_run ops faultyMode (x # xs) r = queue_run ops faultyMode xs (queue_step ops faultyMode x r)"

text \<open>The messages that arrived and could be decoded.\<close>

fun arrived :: "queue_op list \<Rightarrow> byte list list" where
  "arrived [] = []"
| "arrived (Q_Handle code data # xs) =
    (case decode_msg data of
       Inr m \<Rightarrow> if code = TendermintMsg then m # arrived xs else arrived xs
     | Inl _ \<Rightarrow> arrived xs)"
| "arrived (_ # xs) = arrived xs"

lemma arrived_append: "arrived (xs @ ys) = arrived xs @ arrived ys"
  by (induction xs rule: arrived.induct) (simp_all split: sum.splits)

definition ordered :: "('q \<Rightarrow> byte list list) \<Rightarrow> byte list list \<Rightarrow> 'q replay \<Rightarrow> bool" where
  "ordered contents ms r \<longleftrightarrow>
     subseq (posted (mq r) @ (if sending r then tl (contents (storingMsgs (mq r))) else contents (storingMsgs (mq r)))) ms \<and>
     length (contents (storingMsgs (mq r))) \<le> maxNumberMessages + 1"

lemma replay_send_fifo:
  assumes "fifo ops contents"
  shows "replay_send ops faultyMode coin post s =
    (if \<not> coreStarted s \<or> contents (storingMsgs s) = [] then (Some (True, None), s)
     else if faultyMode = RandomlyStopSendingMsg \<and> \<not> coin then (None, s)
     else case post (hd (contents (storingMsgs s))) of
            Some err \<Rightarrow> (Some (False, Some err), s)
          | None \<Rightarrow> (None, s\<lparr>posted := posted s @ [hd (contents (storingMsgs s))]\<rparr>))"
proof -
  have "GetLen ops (storingMsgs s) = length (contents (storingMsgs s))" using assms by (simp add: fifo_def)
  then show ?thesis
    using fifo_nonempty(1) [OF assms]
    by (simp add: replay_send_def checkAndSendMsg_def split: option.split)
qed

lemma replay_pop_fifo:
  assumes "fifo ops contents"
  shows "\<exists>q. replay_pop ops s = s\<lparr>storingMsgs := q\<rparr> \<and> contents q = tl (contents (storingMsgs s))"
proof (cases "contents (storingMsgs s) = []")
  case True
  moreover obtain err where "Dequeue ops (storingMsgs s) = Inl err" using assms True by (auto simp: fifo_def)
  ultimately show ?thesis by (intro exI [of _ "storingMsgs s"]) (simp add: replay_pop_def)
next
  case False
  from fifo_nonempty(2) [OF assms this] show ?thesis by (auto simp: replay_pop_def)
qed

lemma start_stop_queue:
  "storingMsgs (snd (tryStartCore self connected vs err s)) = storingMsgs s"
  "posted (snd (tryStartCore self connected vs err s)) = posted s"
  "storingMsgs (snd (backend_Stop err s)) = storingMsgs s"
  "posted (snd (backend_Stop err s)) = posted s"
  by (auto simp: tryStartCore_def backend_Stop_def split: option.splits)

lemma subseq_append_drop: "subseq (p @ xs) ms \<Longrightarrow> subseq (p @ drop n xs) ms"
  by (rule subseq_order.order_trans [of _ "p @ xs"])
    (intro list_emb_append_mono subseq_order.order_refl suffix_imp_subseq suffix_drop)

lemma subseq_append_left: "subseq (p @ xs) ms \<Longrightarrow> subseq p ms"
  using subseq_append_drop [of p xs ms "length xs"] by simp

lemma subseq_drop_snoc: "subseq (p @ xs) ms \<Longrightarrow> subseq (p @ drop n xs @ [m]) (ms @ [m])"
  using list_emb_append_mono [OF subseq_append_drop, of p xs ms "[m]" "[m]" n] by simp

lemma subseq_tl_snoc:
  assumes "subseq (p @ tl xs) ms"
  shows "subseq (p @ tl (drop n xs @ [m])) (ms @ [m])"
proof (cases "drop n xs")
  case Nil
  have "subseq p ms" using assms by (rule subseq_append_left)
  then show ?thesis using list_emb_append_mono [of _ p ms "[]" "[m]"] by (simp add: Nil)
next
  case (Cons y ys)
  then have "ys = drop n (tl xs)" by (metis drop_tl list.sel(3))
  then show ?thesis using subseq_drop_snoc [OF assms, of n m] Cons by simp
qed

lemma queue_step_ordered:
  assumes "fifo ops contents" "ordered contents ms r"
  shows "ordered contents (ms @ arrived [x]) (queue_step ops faultyMode x r)"
proof (cases x)
  case (Q_Handle code data)
  show ?thesis
  proof (cases "code = TendermintMsg \<and> (\<exists>m. decode_msg data = Inr m)")
    case True
    then obtain m where m: "decode_msg data = Inr m" "code = TendermintMsg" by blast
    obtain q where "HandleMsg ops TendermintMsg data (mq r) = ((True, None), (mq r)\<lparr>storingMsgs := q\<rparr>)"
      "contents q = drop (length (contents (storingMsgs (mq r))) - maxNumberMessages) (contents (storingMsgs (mq r))) @ [m]"
      using HandleMsg_fifo [OF assms(1) m(1)] by blast
    with m Q_Handle assms(2) show ?thesis
      by (auto simp: queue_step_def ordered_def intro: subseq_drop_snoc subseq_tl_snoc)
  next
    case False
    then have "snd (HandleMsg ops code data (mq r)) = mq r" "arrived [x] = []"
      using Q_Handle HandleMsg_refused [of code data _ ops "mq r"]
      by (cases "decode_msg data"; auto)+
    then show ?thesis using Q_Handle assms(2) by (simp add: queue_step_def)
  qed
next
  case (Q_Send coin post)
  show ?thesis
    using Q_Send assms(2) subseq_append_drop [of "posted (mq r)" "contents (storingMsgs (mq r))" ms 1]
    by (auto simp: queue_step_def ordered_def replay_send_fifo [OF assms(1)] drop_Suc
        split: option.split if_splits)
next
  case Q_Pop
  obtain q where "replay_pop ops (mq r) = (mq r)\<lparr>storingMsgs := q\<rparr>" "contents q = tl (contents (storingMsgs (mq r)))"
    using replay_pop_fifo [OF assms(1)] by blast
  with Q_Pop assms(2) show ?thesis by (auto simp: queue_step_def ordered_def)
qed (use assms(2) in \<open>auto simp: queue_step_def ordered_def start_stop_queue split: if_splits\<close>)

lemma queue_run_ordered:
  "fifo ops contents \<Longrightarrow> ordered contents ms r \<Longrightarrow>
   ordered contents (ms @ arrived xs) (queue_run ops faultyMode xs r)"
proof (induction xs arbitrary: ms r)
  case Nil
  then show ?case by simp
next
  case (Cons x xs)
  have "ordered contents (ms @ arrived [x]) (queue_step ops faultyMode x r)"
    using Cons.prems by (rule queue_step_ordered)
  from Cons.IH [OF Cons.prems(1) this] show ?case
    using arrived_append [of "[x]" xs] by simp
qed

text \<open>
  Without the faulty mode, as long as no more messages have arrived than the queue keeps, none is lost.
\<close>

definition lossless :: "('q \<Rightarrow> byte list list) \<Rightarrow> byte list list \<Rightarrow> 'q replay \<Rightarrow> bool" where
  "lossless contents ms r \<longleftrightarrow>
     posted (mq r) @ (if sending r then tl (contents (storingMsgs (mq r))) else contents (storingMsgs (mq r))) = ms \<and>
     length (contents (storingMsgs (mq r))) \<le> length ms \<and>
     (sending r \<longrightarrow> contents (storingMsgs (mq r)) \<noteq> [])"

lemma queue_step_lossless:
  assumes "fifo ops contents" "lossless contents ms r" "faultyMode \<noteq> RandomlyStopSendingMsg"
    "length ms \<le> maxNumberMessages"
  shows "lossless contents (ms @ arrived [x]) (queue_step ops faultyMode x r)"
proof (cases x)
  case (Q_Handle code data)
  show ?thesis
  proof (cases "code = TendermintMsg \<and> (\<exists>m. decode_msg data = Inr m)")
    case True
    then obtain m where m: "decode_msg data = Inr m" "code = TendermintMsg" by blast
    have "length (contents (storingMsgs (mq r))) - maxNumberMessages = 0"
      using assms(2,4) by (simp add: lossless_def)
    then obtain q where "HandleMsg ops TendermintMsg data (mq r) = ((True, None), (mq r)\<lparr>storingMsgs := q\<rparr>)"
      "contents q = contents (storingMsgs (mq r)) @ [m]"
      using HandleMsg_fifo [OF assms(1) m(1), of "mq r"] by auto
    with m Q_Handle assms(2) show ?thesis by (auto simp: queue_step_def lossless_def)
  next
    case False
    then have "snd (HandleMsg ops code data (mq r)) = mq r" "arrived [x] = []"
      using Q_Handle HandleMsg_refused [of code data _ ops "mq r"]
      by (cases "decode_msg data"; auto)+
    then show ?thesis using Q_Handle assms(2) by (simp add: queue_step_def)
  qed
next
  case (Q_Send coin post)
  then show ?thesis
    using assms(2,3)
    by (auto simp: queue_step_def lossless_def replay_send_fifo [OF assms(1)] split: option.split if_splits)
next
  case Q_Pop
  obtain q where "replay_pop ops (mq r) = (mq r)\<lparr>storingMsgs := q\<rparr>" "contents q = tl (contents (storingMsgs (mq r)))"
    using replay_pop_fifo [OF assms(1)] by blast
  with Q_Pop assms(2) show ?thesis by (auto simp: queue_step_def lossless_def)
qed (use assms(2) in \<open>auto simp: queue_step_def lossless_def start_stop_queue split: if_splits\<close>)

lemma queue_run_lossless:
  "fifo ops contents \<Longrightarrow> lossless contents ms r \<Longrightarrow> faultyMode \<noteq> RandomlyStopSendingMsg \<Longrightarrow>
   length (ms @ arrived xs) \<le> maxNumberMessages \<Longrightarrow>
   lossless contents (ms @ arrived xs) (queue_run ops faultyMode xs r)"
proof (induction xs arbitrary: ms r)
  case Nil
  then show ?case by simp
next
  case (Cons x xs)
  have split: "arrived (x # xs) = arrived [x] @ arrived xs" using arrived_append [of "[x]" xs] by simp
  then have "lossless contents (ms @ arrived [x]) (queue_step ops faultyMode x r)"
    using Cons.prems by (intro queue_step_lossless) auto
  from Cons.IH [OF Cons.prems(1) this Cons.prems(3)] show ?case
    using Cons.prems(4) split by simp
qed

definition replay_init :: "'q \<Rightarrow> 'q replay" where
  "replay_init q = \<lparr>mq = \<lparr>coreStarted = False, storingMsgs = q, posted = []\<rparr>, sending = False\<rparr>"


lemma decode_msg_example: "decode_msg [0x83, 1, 2, 3] = Inr [1, 2, 3]"
  by code_simp

definition ex_queue_ops :: "queue_op list" where
  "ex_queue_ops =
    [Q_Handle TendermintMsg [0x83, 1, 2, 3], Q_Handle 7 [0x83, 1, 2, 3], Q_Send True (\<lambda>_. None),
     Q_Start None (\<lambda>_. False) \<lparr>validators = [1], policy = RoundRobin, proposer = None, setHeight = 1\<rparr> 1,
     Q_Send True (\<lambda>_. None), Q_Handle TendermintMsg [0x83, 1, 2, 3], Q_Pop]"

lemma ex_queue_run:
  "arrived ex_queue_ops = [[1, 2, 3], [1, 2, 3]]"
  "posted (mq (queue_run list_fifo 0 ex_queue_ops (replay_init []))) = [[1, 2, 3]]"
  "sending (queue_run list_fifo 0 ex_queue_ops (replay_init [])) = False"
  by (simp_all add: ex_queue_ops_def queue_step_def HandleMsg_def decode_msg_example list_fifo_def
      replay_init_def maxNumberMessages_def replay_send_def checkAndSendMsg_def replay_pop_def
      tryStartCore_def FindExistingPeers_def other_validators_def MinPeers_def Size_def valF_def)


text \<open>
  C35.  When the queue holds exactly its limit of messages, an arriving message frees no slot, although
  the code announces that it does: the queue then holds one message more than the limit.
\<close>

theorem queue_exceeds_limit:
  assumes "fifo ops contents" "decode_msg data = Inr m"
    "length (contents (storingMsgs s)) = maxNumberMessages"
  shows "fst (HandleMsg ops TendermintMsg data s) = (True, None) \<and>
    contents (storingMsgs (snd (HandleMsg ops TendermintMsg data s))) = contents (storingMsgs s) @ [m] \<and>
    length (contents (storingMsgs (snd (HandleMsg ops TendermintMsg data s)))) = maxNumberMessages + 1"
  using HandleMsg_fifo [OF assms(1,2), of s] assms(3) by auto

theorem queue_exceeds_limit_witness:
  "length (storingMsgs (snd (HandleMsg list_fifo TendermintMsg [0x83, 1, 2, 3]
     \<lparr>coreStarted = False, storingMsgs = replicate maxNumberMessages [], posted = []\<rparr>))) = maxNumberMessages + 1"
  using queue_exceeds_limit [OF fifo_list_fifo decode_msg_example,
    of "\<lparr>coreStarted = False, storingMsgs = replicate maxNumberMessages [], posted = []\<rparr>"]
  by simp

section \<open>The replay loop ends\<close>

text \<open>One pass either ends the loop, or removes the head of the queue.\<close>

lemma replay_pass_ends:
  assumes "fifo ops contents" "\<not> coreStarted s \<or> contents (storingMsgs s) = []"
  shows "replayTendermintMsg ops faultyMode coin post s = ((True, None), s)"
  using assms(2) by (simp add: replayTendermintMsg_def replay_send_fifo [OF assms(1)])

lemma replay_pass_goes:
  assumes "fifo ops contents" "coreStarted s" "contents (storingMsgs s) \<noteq> []"
  shows "(\<exists>err. replayTendermintMsg ops faultyMode coin post s = ((False, Some err), s) \<and>
      post (hd (contents (storingMsgs s))) = Some err) \<or>
    (\<exists>p q. replayTendermintMsg ops faultyMode coin post s = ((False, None), s\<lparr>posted := p, storingMsgs := q\<rparr>) \<and>
      contents q = tl (contents (storingMsgs s)) \<and>
      (faultyMode \<noteq> RandomlyStopSendingMsg \<longrightarrow> p = posted s @ [hd (contents (storingMsgs s))]))"
proof -
  let ?h = "hd (contents (storingMsgs s))"
  have pop: "\<exists>q. replay_pop ops (s\<lparr>posted := p\<rparr>) = s\<lparr>posted := p, storingMsgs := q\<rparr> \<and>
      contents q = tl (contents (storingMsgs s))" for p
    using replay_pop_fifo [OF assms(1), of "s\<lparr>posted := p\<rparr>"] by simp
  consider "faultyMode = RandomlyStopSendingMsg" "\<not> coin"
    | "\<not> (faultyMode = RandomlyStopSendingMsg \<and> \<not> coin)" "post ?h = None"
    | err where "\<not> (faultyMode = RandomlyStopSendingMsg \<and> \<not> coin)" "post ?h = Some err"
    by blast
  then show ?thesis
  proof cases
    case 1
    then have "replay_send ops faultyMode coin post s = (None, s\<lparr>posted := posted s\<rparr>)"
      using assms(2,3) by (simp add: replay_send_fifo [OF assms(1)])
    moreover obtain q where "replay_pop ops s = s\<lparr>posted := posted s, storingMsgs := q\<rparr>"
      "contents q = tl (contents (storingMsgs s))"
      using pop [of "posted s"] by auto
    ultimately show ?thesis
      using 1 by (intro disjI2 exI [of _ "posted s"] exI [of _ q]) (simp add: replayTendermintMsg_def)
  next
    case 2
    then have "replay_send ops faultyMode coin post s = (None, s\<lparr>posted := posted s @ [?h]\<rparr>)"
      using assms(2,3) by (auto simp: replay_send_fifo [OF assms(1)])
    with pop [of "posted s @ [?h]"] show ?thesis unfolding replayTendermintMsg_def by auto
  next
    case (3 err)
    then have "replay_send ops faultyMode coin post s = (Some (False, Some err), s)"
      using assms(2,3) by (auto simp: replay_send_fifo [OF assms(1)])
    with 3 show ?thesis unfolding replayTendermintMsg_def by auto
  qed
qed



section \<open>Sending\<close>

text \<open>Durations in milliseconds.\<close>

definition maxBroadcastSleepTime :: nat where
  "maxBroadcastSleepTime = 5 * 60 * 1000"

definition initialBroadcastSleepTime :: nat where
  "initialBroadcastSleepTime = 100"

definition broadcastSleepTimeIncreament :: nat where
  "broadcastSleepTimeIncreament = 100"

text \<open>
  What one round of \<^verbatim>\<open>gossip\<close> meets: which targets are connected, to which of them sending succeeds, and
  whether the task is aborted, while it waits for the sends or while it sleeps.  Sends that are under
  way at an abort still complete.
\<close>

datatype abort = No_Abort | Abort_Sending | Abort_Sleeping

datatype gossip_round = Round "address \<Rightarrow> bool" "address \<Rightarrow> bool" abort

datatype gossip_end = Sent | Aborted | Retrying

record gossip_state =
  Targets :: "address list"
  delivered :: "address list"
  timeSleep :: nat

fun gossip :: "int \<Rightarrow> gossip_round list \<Rightarrow> gossip_state \<Rightarrow> gossip_end \<times> gossip_state" where
  "gossip minPeers [] g = (Retrying, g)"
| "gossip minPeers (Round connected sends ab # rounds) g =
    (let ps = filter connected (Targets g);
         reached = filter sends ps;
         g = g\<lparr>Targets := filter (\<lambda>a. a \<notin> set reached) (Targets g), delivered := delivered g @ reached\<rparr>
     in if ab = Abort_Sending then (Aborted, g)
        else if int (length (delivered g)) \<ge> minPeers then (Sent, g)
        else if ab = Abort_Sleeping then (Aborted, g)
        else gossip minPeers rounds
               (g\<lparr>timeSleep := if timeSleep g < maxBroadcastSleepTime
                               then timeSleep g + broadcastSleepTimeIncreament else timeSleep g\<rparr>))"

text \<open>\<open>None\<close> when no task is started.\<close>

definition Gossip ::
    "bool \<Rightarrow> address \<Rightarrow> defaultSet \<Rightarrow> gossip_round list \<Rightarrow> error option \<times> (gossip_end \<times> gossip_state) option" where
  "Gossip hasBroadcaster self vs rounds =
    (let targets = other_validators self vs
     in if \<not> hasBroadcaster then (Some ErrNoBroadcaster, None)
        else if targets = [] then (None, None)
        else (None, Some (gossip (MinPeers vs) rounds
               \<lparr>Targets = targets, delivered = [], timeSleep = initialBroadcastSleepTime\<rparr>)))"

text \<open>\<^verbatim>\<open>Broadcast\<close>: the error of \<^verbatim>\<open>Gossip\<close>, or the message is also posted to the node itself.\<close>

definition Broadcast ::
    "bool \<Rightarrow> address \<Rightarrow> defaultSet \<Rightarrow> gossip_round list \<Rightarrow> nat \<Rightarrow> bool \<Rightarrow> (byte list \<Rightarrow> error option) \<Rightarrow> byte list \<Rightarrow>
     'q msg_queue \<Rightarrow> (error option \<times> (gossip_end \<times> gossip_state) option) \<times> 'q msg_queue" where
  "Broadcast hasBroadcaster self vs rounds faultyMode coin post data s =
    (case Gossip hasBroadcaster self vs rounds of
       (Some err, r) \<Rightarrow> ((Some err, r), s)
     | (None, r) \<Rightarrow> ((None, r), snd (checkAndSendMsg faultyMode coin post data s)))"

text \<open>\<open>targets\<close> are the distinct keys of the map of targets.\<close>

definition Multicast ::
    "bool \<Rightarrow> (address \<Rightarrow> bool) \<Rightarrow> (address \<Rightarrow> bool) \<Rightarrow> address list \<Rightarrow> error option \<times> address list" where
  "Multicast hasBroadcaster connected sends targets =
    (if \<not> hasBroadcaster then (Some ErrNoBroadcaster, [])
     else if targets = [] then (None, [])
     else let ps = filter connected targets;
              notFound = length targets - length ps;
              failed = length (filter (\<lambda>a. \<not> sends a) ps)
          in (if failed \<noteq> 0 \<or> notFound \<noteq> 0 then Some (ErrOther ''failed to multicast'') else None, filter sends ps))"

section \<open>Gossip reaches each validator once\<close>

text \<open>The targets still to be reached, and those reached, are together the targets of the start.\<close>

definition gossip_ok :: "address list \<Rightarrow> gossip_state \<Rightarrow> bool" where
  "gossip_ok ts g \<longleftrightarrow> distinct (Targets g @ delivered g) \<and> set (Targets g @ delivered g) = set ts \<and>
     100 dvd timeSleep g \<and> timeSleep g \<le> maxBroadcastSleepTime"

lemma gossip_ok_deliver:
  assumes "gossip_ok ts g"
  shows "gossip_ok ts (g\<lparr>Targets := filter (\<lambda>a. a \<notin> set (filter P (Targets g))) (Targets g),
    delivered := delivered g @ filter P (Targets g)\<rparr>)"
  using assms by (auto simp: gossip_ok_def)

lemma gossip_ok_sleep:
  assumes "gossip_ok ts g"
  shows "gossip_ok ts (g\<lparr>timeSleep := if timeSleep g < maxBroadcastSleepTime
    then timeSleep g + broadcastSleepTimeIncreament else timeSleep g\<rparr>)"
proof -
  have "100 dvd timeSleep g" using assms by (simp add: gossip_ok_def)
  then have "timeSleep g + 100 \<le> maxBroadcastSleepTime" if "timeSleep g < maxBroadcastSleepTime"
    using that unfolding maxBroadcastSleepTime_def by presburger
  then show ?thesis using assms by (simp add: gossip_ok_def broadcastSleepTimeIncreament_def)
qed

lemma gossip_keeps:
  "gossip_ok ts g \<Longrightarrow> gossip minPeers rounds g = (e, g') \<Longrightarrow>
   gossip_ok ts g' \<and> (e = Sent \<longrightarrow> minPeers \<le> int (length (delivered g')))"
proof (induction minPeers rounds g rule: gossip.induct)
  case (1 minPeers g)
  then show ?case by simp
next
  case (2 minPeers connected sends ab rounds g)
  let ?reached = "filter sends (filter connected (Targets g))"
  let ?g = "g\<lparr>Targets := filter (\<lambda>a. a \<notin> set ?reached) (Targets g), delivered := delivered g @ ?reached\<rparr>"
  have ok: "gossip_ok ts ?g"
    using gossip_ok_deliver [OF 2(2), of "\<lambda>a. connected a \<and> sends a"] by (simp add: conj_commute)
  show ?case
  proof (cases "ab = Abort_Sending \<or> minPeers \<le> int (length (delivered ?g)) \<or> ab = Abort_Sleeping")
    case True
    with ok 2(3) show ?thesis by (auto simp: Let_def split: if_splits)
  next
    case False
    with 2(1) [OF refl refl refl _ _ _ gossip_ok_sleep [OF ok]] 2(3) show ?thesis by (simp add: Let_def)
  qed
qed

lemma gossip_completes:
  "\<forall>r \<in> set before. case r of Round _ _ ab \<Rightarrow> ab = No_Abort \<Longrightarrow>
   \<forall>a. connected a \<and> sends a \<Longrightarrow>
   minPeers \<le> int (length (delivered g) + length (Targets g)) \<Longrightarrow> distinct (Targets g) \<Longrightarrow>
   fst (gossip minPeers (before @ Round connected sends No_Abort # rest) g) = Sent"
proof (induction "before" arbitrary: g)
  case Nil
  then show ?case by (simp add: Let_def)
next
  case (Cons r bef)
  obtain c s where r: "r = Round c s No_Abort" using Cons.prems(1) by (cases r) auto
  have "length (filter (\<lambda>a. c a \<and> s a) (Targets g)) + length (filter (\<lambda>a. a \<notin> set (filter s (filter c (Targets g)))) (Targets g)) =
      length (Targets g)"
    using sum_length_filter_compl [of "\<lambda>a. c a \<and> s a" "Targets g"]
    by (simp cong: filter_cong)
  with Cons.prems Cons.IH show ?case by (auto simp: r Let_def)
qed

lemma other_validators_length:
  assumes "distinct (validators vs)" "self \<in> set (validators vs)"
  shows "MinPeers vs \<le> int (length (other_validators self vs))"
proof -
  have "set (other_validators self vs) = set (validators vs) - {self}" "distinct (other_validators self vs)"
    by (auto simp: other_validators_def)
  then have "length (other_validators self vs) = card (set (validators vs) - {self})"
    using distinct_card by metis
  also have "\<dots> = length (validators vs) - 1"
    using assms by (simp add: distinct_card)
  finally show ?thesis
    using assms(2) length_pos_if_in_set [OF assms(2)] by (simp add: MinPeers_def Size_def valF_def)
qed

text \<open>
  C25.  A gossiped message is never sent to the node itself nor to anyone outside the validator set, and
  reaches each validator at most once however often the task retries; the task ends by itself only after
  reaching the peers that with the node make a majority; it never sleeps longer than five minutes; and for a
  validator's own set it ends in the first round in which all validators are connected and take the
  message, unless it has been aborted before.
\<close>

theorem gossip_once:
  assumes "Gossip True self vs rounds = (None, Some (e, g))"
  shows "distinct (delivered g) \<and> set (delivered g) \<subseteq> set (validators vs) - {self} \<and>
    timeSleep g \<le> maxBroadcastSleepTime \<and>
    (e = Sent \<longrightarrow> MinPeers vs \<le> int (length (delivered g))) \<and>
    (\<forall>before rest connected sends.
       rounds = before @ Round connected sends No_Abort # rest \<and> (\<forall>a. connected a \<and> sends a) \<and>
       (\<forall>r \<in> set before. case r of Round _ _ ab \<Rightarrow> ab = No_Abort) \<and>
       distinct (validators vs) \<and> self \<in> set (validators vs) \<longrightarrow> e = Sent)"
proof -
  let ?ts = "other_validators self vs"
  let ?g = "\<lparr>Targets = ?ts, delivered = [], timeSleep = initialBroadcastSleepTime\<rparr>"
  have run: "gossip (MinPeers vs) rounds ?g = (e, g)"
    using assms unfolding Gossip_def Let_def by (simp split: if_splits)
  have "gossip_ok ?ts ?g"
    by (simp add: gossip_ok_def other_validators_def initialBroadcastSleepTime_def maxBroadcastSleepTime_def)
  from gossip_keeps [OF this run] have kept: "distinct (delivered g)" "set (delivered g) \<subseteq> set ?ts"
    "timeSleep g \<le> maxBroadcastSleepTime" "e = Sent \<longrightarrow> MinPeers vs \<le> int (length (delivered g))"
    unfolding gossip_ok_def by auto
  have ends: "e = Sent"
    if "rounds = before @ Round connected sends No_Abort # rest" "\<forall>a. connected a \<and> sends a"
      "\<forall>r \<in> set before. case r of Round _ _ ab \<Rightarrow> ab = No_Abort"
      "distinct (validators vs)" "self \<in> set (validators vs)" for "before" rest connected sends
  proof -
    have "MinPeers vs \<le> int (length (delivered ?g) + length (Targets ?g))" "distinct (Targets ?g)"
      using other_validators_length [OF that(4,5)] by (simp_all add: other_validators_def)
    from gossip_completes [OF that(3,2) this, of rest] show ?thesis
      unfolding that(1) [symmetric] run by simp
  qed
  have "set ?ts = set (validators vs) - {self}" by (auto simp: other_validators_def)
  with kept(2) have "set (delivered g) \<subseteq> set (validators vs) - {self}" by simp
  with kept(1,3,4) show ?thesis
    by (intro conjI allI impI) (assumption | elim conjE, rule ends, assumption+ | simp)+
qed

definition ex_gossip_set :: defaultSet where
  "ex_gossip_set = \<lparr>validators = [1, 2, 3, 4], policy = RoundRobin, proposer = None, setHeight = 1\<rparr>"

definition ex_gossip_rounds :: "gossip_round list" where
  "ex_gossip_rounds = [Round (\<lambda>a. a = 2) (\<lambda>a. True) No_Abort, Round (\<lambda>a. True) (\<lambda>a. True) No_Abort]"

lemma ex_gossip_run:
  "Gossip True 1 ex_gossip_set ex_gossip_rounds =
    (None, Some (Sent, \<lparr>Targets = [], delivered = [2, 3, 4], timeSleep = 200\<rparr>))"
  by (simp add: Gossip_def other_validators_def ex_gossip_set_def ex_gossip_rounds_def MinPeers_def Size_def
      valF_def initialBroadcastSleepTime_def maxBroadcastSleepTime_def broadcastSleepTimeIncreament_def)

theorem gossip_once_witness:
  "distinct [2, 3, 4 :: address] \<and> MinPeers ex_gossip_set \<le> 3 \<and> (200 :: nat) \<le> maxBroadcastSleepTime"
  using gossip_once [OF ex_gossip_run] by simp

end
