(* ===== verification/Clique.thy ===== *)
theory Clique
  imports Engine "HOL-Library.AList"
begin

text \<open>
  The voting of the proof-of-authority engine, \<^verbatim>\<open>consensus/clique/snapshot.go\<close>: how the headers of a chain
  add and drop signers.  The recent signers are an association list, the set of signers a set, the
  tally a map; recovering the signer of a header is an argument.

  The main facts: the tally always counts the votes that are kept, each from a different current
  signer, and the signers only change when more than half of them have voted for it.
\<close>

section \<open>Snapshots\<close>

record clique_Vote =
  v_Signer :: address
  v_Block :: nat
  v_Address :: address
  v_Authorize :: bool

record Tally =
  t_Authorize :: bool
  t_Votes :: nat

record Snapshot =
  s_Epoch :: nat
  s_Number :: nat
  s_Hash :: hash
  s_Signers :: "address set"
  s_Recents :: "(nat \<times> address) list"
  s_Votes :: "clique_Vote list"
  s_Tally :: "address \<rightharpoonup> Tally"

abbreviation nonceAuthVote :: "64 word" where
  "nonceAuthVote \<equiv> 0xffffffffffffffff"

abbreviation nonceDropVote :: "64 word" where
  "nonceDropVote \<equiv> 0"

abbreviation "errInvalidVotingChain \<equiv> ErrOther ''invalid voting chain''"
abbreviation "errUnauthorizedSigner \<equiv> ErrOther ''unauthorized signer''"
abbreviation "errRecentlySigned \<equiv> ErrOther ''recently signed''"
abbreviation "errInvalidVote \<equiv> ErrOther ''vote nonce not 0x00..0 or 0xff..f''"

definition newSnapshot :: "nat \<Rightarrow> nat \<Rightarrow> hash \<Rightarrow> address list \<Rightarrow> Snapshot" where
  "newSnapshot epoch number h signers =
    \<lparr>s_Epoch = epoch, s_Number = number, s_Hash = h, s_Signers = set signers, s_Recents = [], s_Votes = [], s_Tally = Map.empty\<rparr>"

definition validVote :: "Snapshot \<Rightarrow> address \<Rightarrow> bool \<Rightarrow> bool" where
  "validVote s addr authorize =
    (let signer = addr \<in> s_Signers s in (signer \<and> \<not> authorize) \<or> (\<not> signer \<and> authorize))"

definition cast_vote :: "address \<Rightarrow> bool \<Rightarrow> Snapshot \<Rightarrow> bool \<times> Snapshot" where
  "cast_vote addr authorize s =
    (if \<not> validVote s addr authorize then (False, s)
     else case s_Tally s addr of
            Some old \<Rightarrow> (True, s\<lparr>s_Tally := (s_Tally s)(addr \<mapsto> old\<lparr>t_Votes := t_Votes old + 1\<rparr>)\<rparr>)
          | None \<Rightarrow> (True, s\<lparr>s_Tally := (s_Tally s)(addr \<mapsto> \<lparr>t_Authorize = authorize, t_Votes = 1\<rparr>)\<rparr>))"

definition uncast :: "address \<Rightarrow> bool \<Rightarrow> Snapshot \<Rightarrow> bool \<times> Snapshot" where
  "uncast addr authorize s =
    (case s_Tally s addr of
       None \<Rightarrow> (False, s)
     | Some tally \<Rightarrow>
         if t_Authorize tally \<noteq> authorize then (False, s)
         else if t_Votes tally > 1
         then (True, s\<lparr>s_Tally := (s_Tally s)(addr \<mapsto> tally\<lparr>t_Votes := t_Votes tally - 1\<rparr>)\<rparr>)
         else (True, s\<lparr>s_Tally := (s_Tally s)(addr := None)\<rparr>))"

section \<open>Applying headers\<close>

text \<open>The loop that discards the previous vote of a signer on an account: only the first one.\<close>

fun discard_previous :: "address \<Rightarrow> address \<Rightarrow> clique_Vote list \<Rightarrow> clique_Vote list \<Rightarrow> Snapshot \<Rightarrow> Snapshot" where
  "discard_previous signer addr pre [] s = s"
| "discard_previous signer addr pre (v # vs) s =
    (if v_Signer v = signer \<and> v_Address v = addr
     then (snd (uncast (v_Address v) (v_Authorize v) s))\<lparr>s_Votes := pre @ vs\<rparr>
     else discard_previous signer addr (pre @ [v]) vs s)"

text \<open>The loop that discards every vote a dropped signer has cast.\<close>

fun discard_cast_by :: "address \<Rightarrow> clique_Vote list \<Rightarrow> clique_Vote list \<Rightarrow> Snapshot \<Rightarrow> Snapshot" where
  "discard_cast_by addr pre [] s = s\<lparr>s_Votes := pre\<rparr>"
| "discard_cast_by addr pre (v # vs) s =
    (if v_Signer v = addr
     then discard_cast_by addr pre vs (snd (uncast (v_Address v) (v_Authorize v) s))
     else discard_cast_by addr (pre @ [v]) vs s)"

definition delete_recent :: "nat \<Rightarrow> Snapshot \<Rightarrow> Snapshot" where
  "delete_recent number s =
    (let limit = card (s_Signers s) div 2 + 1
     in if number \<ge> limit then s\<lparr>s_Recents := AList.delete (number - limit) (s_Recents s)\<rparr> else s)"

text \<open>What a vote that has passed changes.\<close>

definition pass_vote :: "nat \<Rightarrow> address \<Rightarrow> Snapshot \<Rightarrow> Snapshot" where
  "pass_vote number addr s =
    (case s_Tally s addr of
       None \<Rightarrow> s
     | Some tally \<Rightarrow>
         if t_Votes tally > card (s_Signers s) div 2 then
           let s = (if t_Authorize tally then s\<lparr>s_Signers := insert addr (s_Signers s)\<rparr>
                    else let s = s\<lparr>s_Signers := s_Signers s - {addr}\<rparr>;
                             s = delete_recent number s
                         in discard_cast_by addr [] (s_Votes s) s);
               s = s\<lparr>s_Votes := filter (\<lambda>v. v_Address v \<noteq> addr) (s_Votes s)\<rparr>
           in s\<lparr>s_Tally := (s_Tally s)(addr := None)\<rparr>
         else s)"

definition cast_new :: "address \<Rightarrow> nat \<Rightarrow> address \<Rightarrow> bool \<Rightarrow> Snapshot \<Rightarrow> Snapshot" where
  "cast_new signer number addr authorize s =
    (case cast_vote addr authorize s of
       (True, s) \<Rightarrow>
         s\<lparr>s_Votes := s_Votes s @ [\<lparr>v_Signer = signer, v_Block = number, v_Address = addr, v_Authorize = authorize\<rparr>]\<rparr>
     | (False, s) \<Rightarrow> s)"

definition apply_header ::
    "(header \<Rightarrow> error + address) \<Rightarrow> header \<Rightarrow> Snapshot \<Rightarrow> (error + Snapshot) outcome" where
  "apply_header ecrecover hdr s =
    obind (header_number hdr) (\<lambda>number.
      if s_Epoch s = 0 then Panic ''integer divide by zero''
      else
        let s = (if number mod s_Epoch s = 0 then s\<lparr>s_Votes := [], s_Tally := Map.empty\<rparr> else s);
            s = delete_recent number s
        in case ecrecover hdr of
             Inl err \<Rightarrow> Done (Inl err)
           | Inr signer \<Rightarrow>
               if signer \<notin> s_Signers s then Done (Inl errUnauthorizedSigner)
               else if signer \<in> snd ` set (s_Recents s) then Done (Inl errRecentlySigned)
               else
                 let s = s\<lparr>s_Recents := AList.update number signer (s_Recents s)\<rparr>;
                     s = discard_previous signer (Coinbase hdr) [] (s_Votes s) s
                 in if Nonce hdr \<noteq> nonceAuthVote \<and> Nonce hdr \<noteq> nonceDropVote then Done (Inl errInvalidVote)
                    else Done (Inr (pass_vote number (Coinbase hdr)
                           (cast_new signer number (Coinbase hdr) (Nonce hdr = nonceAuthVote) s))))"

fun apply_headers ::
    "(header \<Rightarrow> error + address) \<Rightarrow> header list \<Rightarrow> Snapshot \<Rightarrow> (error + Snapshot) outcome" where
  "apply_headers ecrecover [] s = Done (Inr s)"
| "apply_headers ecrecover (h # hs) s =
    obind (apply_header ecrecover h s) (\<lambda>r.
      case r of Inl err \<Rightarrow> Done (Inl err) | Inr s \<Rightarrow> apply_headers ecrecover hs s)"

fun consecutive :: "header list \<Rightarrow> bool outcome" where
  "consecutive (h # h' # hs) =
    obind (header_number h') (\<lambda>n'. obind (header_number h) (\<lambda>n.
      if n' \<noteq> (n + 1) mod 2 ^ 64 then Done False else consecutive (h' # hs)))"
| "consecutive _ = Done True"

definition snapshot_apply ::
    "(byte list \<Rightarrow> hash) \<Rightarrow> (header \<Rightarrow> error + address) \<Rightarrow> header list \<Rightarrow> Snapshot \<Rightarrow> (error + Snapshot) outcome" where
  "snapshot_apply kec ecrecover headers s =
    (if headers = [] then Done (Inr s)
     else obind (consecutive headers) (\<lambda>ok.
       if \<not> ok then Done (Inl errInvalidVotingChain)
       else obind (header_number (hd headers)) (\<lambda>first.
         if first \<noteq> (s_Number s + 1) mod 2 ^ 64 then Done (Inl errInvalidVotingChain)
         else obind (apply_headers ecrecover headers s) (\<lambda>r.
                case r of
                  Inl err \<Rightarrow> Done (Inl err)
                | Inr s \<Rightarrow> Done (Inr (s\<lparr>s_Number := (s_Number s + length headers) mod 2 ^ 64,
                                        s_Hash := Header_Hash kec (last headers)\<rparr>))))))"

definition signers :: "Snapshot \<Rightarrow> address list" where
  "signers s = sorted_list_of_set (s_Signers s)"

definition inturn :: "Snapshot \<Rightarrow> nat \<Rightarrow> address \<Rightarrow> bool outcome" where
  "inturn s number signer =
    (let sigs = signers s;
         off = (case index_of signer sigs of Some i \<Rightarrow> i | None \<Rightarrow> length sigs)
     in if sigs = [] then Panic ''integer divide by zero'' else Done (number mod length sigs = off))"

section \<open>The tally counts the votes\<close>

definition votes_on :: "address \<Rightarrow> clique_Vote list \<Rightarrow> nat" where
  "votes_on a vs = length (filter (\<lambda>v. v_Address v = a) vs)"

lemma votes_on_simps [simp]:
  "votes_on a [] = 0" "votes_on a (v # vs) = (if v_Address v = a then 1 else 0) + votes_on a vs"
  "votes_on a (vs @ ws) = votes_on a vs + votes_on a ws"
  by (simp_all add: votes_on_def)

text \<open>Every account with votes has a tally with their number and the direction \<open>auth\<close> gives.\<close>

definition tallied :: "(address \<Rightarrow> bool) \<Rightarrow> clique_Vote list \<Rightarrow> (address \<rightharpoonup> Tally) \<Rightarrow> bool" where
  "tallied auth vs t \<longleftrightarrow>
     (\<forall>a. t a = (if votes_on a vs = 0 then None else Some \<lparr>t_Authorize = auth a, t_Votes = votes_on a vs\<rparr>))"

definition votes_ok :: "address set \<Rightarrow> clique_Vote list \<Rightarrow> bool" where
  "votes_ok S vs \<longleftrightarrow> (\<forall>v \<in> set vs. v_Signer v \<in> S \<and> (v_Authorize v \<longleftrightarrow> v_Address v \<notin> S)) \<and>
     distinct (map (\<lambda>v. (v_Signer v, v_Address v)) vs)"

definition snap_ok :: "Snapshot \<Rightarrow> bool" where
  "snap_ok s \<longleftrightarrow> finite (s_Signers s) \<and> votes_ok (s_Signers s) (s_Votes s) \<and>
     tallied (\<lambda>a. a \<notin> s_Signers s) (s_Votes s) (s_Tally s)"

lemma uncast_tallied:
  assumes "tallied auth (pre @ v # vs) (s_Tally s)" "v_Authorize v = auth (v_Address v)"
  shows "\<exists>t. snd (uncast (v_Address v) (v_Authorize v) s) = s\<lparr>s_Tally := t\<rparr> \<and> tallied auth (pre @ vs) t"
proof -
  let ?a = "v_Address v" and ?n = "votes_on (v_Address v) (pre @ vs)"
  have t: "s_Tally s ?a = Some \<lparr>t_Authorize = auth ?a, t_Votes = Suc ?n\<rparr>"
    using assms(1) by (simp add: tallied_def)
  have "tallied auth (pre @ vs) ((s_Tally s)(?a := if ?n = 0 then None else Some \<lparr>t_Authorize = auth ?a, t_Votes = ?n\<rparr>))"
    using assms(1) by (auto simp: tallied_def)
  with t assms(2) show ?thesis by (cases "?n = 0") (auto simp: uncast_def)
qed

lemma votes_ok_subseq: "votes_ok S (pre @ v # vs) \<Longrightarrow> votes_ok S (pre @ vs)"
  by (auto simp: votes_ok_def)

lemma discard_previous_ok:
  "s_Votes s = pre @ vs \<Longrightarrow> votes_ok S (pre @ vs) \<Longrightarrow> tallied (\<lambda>a. a \<notin> S) (pre @ vs) (s_Tally s) \<Longrightarrow>
   (signer, addr) \<notin> (\<lambda>v. (v_Signer v, v_Address v)) ` set pre \<Longrightarrow>
   \<exists>vs' t. discard_previous signer addr pre vs s = s\<lparr>s_Votes := vs', s_Tally := t\<rparr> \<and> votes_ok S vs' \<and>
     tallied (\<lambda>a. a \<notin> S) vs' t \<and> set vs' \<subseteq> set (pre @ vs) \<and>
     (signer, addr) \<notin> (\<lambda>v. (v_Signer v, v_Address v)) ` set vs'"
proof (induction vs arbitrary: pre)
  case Nil
  then show ?case by (intro exI [of _ pre] exI [of _ "s_Tally s"]) auto
next
  case (Cons v vs)
  show ?case
  proof (cases "v_Signer v = signer \<and> v_Address v = addr")
    case True
    have "v_Authorize v = (v_Address v \<notin> S)" using Cons.prems(2) by (simp add: votes_ok_def)
    then obtain t where "snd (uncast (v_Address v) (v_Authorize v) s) = s\<lparr>s_Tally := t\<rparr>" "tallied (\<lambda>a. a \<notin> S) (pre @ vs) t"
      using uncast_tallied [of "\<lambda>a. a \<notin> S" pre v vs s] Cons.prems(3) by auto
    moreover have "(signer, addr) \<notin> (\<lambda>v. (v_Signer v, v_Address v)) ` set (pre @ vs)"
      using Cons.prems(2) True by (auto simp: votes_ok_def)
    moreover have "votes_ok S (pre @ vs)" using Cons.prems(2) by (rule votes_ok_subseq)
    moreover have "discard_previous signer addr pre (v # vs) s =
        (snd (uncast (v_Address v) (v_Authorize v) s))\<lparr>s_Votes := pre @ vs\<rparr>"
      using True by simp
    ultimately show ?thesis by (intro exI [of _ "pre @ vs"] exI [of _ t]) auto
  next
    case False
    with Cons.IH [of "pre @ [v]"] Cons.prems show ?thesis by auto
  qed
qed

lemma discard_cast_by_ok:
  "tallied auth (pre @ vs) (s_Tally s) \<Longrightarrow> \<forall>v \<in> set vs. v_Authorize v = auth (v_Address v) \<Longrightarrow>
   \<exists>t. discard_cast_by addr pre vs s = s\<lparr>s_Votes := pre @ filter (\<lambda>v. v_Signer v \<noteq> addr) vs, s_Tally := t\<rparr> \<and>
     tallied auth (pre @ filter (\<lambda>v. v_Signer v \<noteq> addr) vs) t"
proof (induction vs arbitrary: pre s)
  case Nil
  then show ?case by (intro exI [of _ "s_Tally s"]) auto
next
  case (Cons v vs)
  show ?case
  proof (cases "v_Signer v = addr")
    case True
    obtain t where "snd (uncast (v_Address v) (v_Authorize v) s) = s\<lparr>s_Tally := t\<rparr>" "tallied auth (pre @ vs) t"
      using uncast_tallied [OF Cons.prems(1)] Cons.prems(2) by auto
    with Cons.IH [of pre "s\<lparr>s_Tally := t\<rparr>"] Cons.prems(2) True show ?thesis by auto
  next
    case False
    with Cons.IH [of "pre @ [v]" s] Cons.prems show ?thesis by auto
  qed
qed

lemma delete_recent_simps [simp]:
  "s_Signers (delete_recent n s) = s_Signers s" "s_Votes (delete_recent n s) = s_Votes s"
  "s_Tally (delete_recent n s) = s_Tally s" "s_Epoch (delete_recent n s) = s_Epoch s"
  by (simp_all add: delete_recent_def Let_def)

lemma cast_new_effect:
  assumes "snap_ok s"
  shows "s_Signers (cast_new signer n a auth s) = s_Signers s \<and>
    s_Votes (cast_new signer n a auth s) = s_Votes s @
      (if auth = (a \<notin> s_Signers s) then [\<lparr>v_Signer = signer, v_Block = n, v_Address = a, v_Authorize = auth\<rparr>] else []) \<and>
    tallied (\<lambda>a. a \<notin> s_Signers s) (s_Votes (cast_new signer n a auth s)) (s_Tally (cast_new signer n a auth s))"
  using assms
  by (cases "s_Tally s a") (auto simp: snap_ok_def cast_new_def cast_vote_def validVote_def tallied_def Let_def split: if_splits)

lemma cast_new_ok:
  assumes "snap_ok s" "signer \<in> s_Signers s" "(signer, a) \<notin> (\<lambda>v. (v_Signer v, v_Address v)) ` set (s_Votes s)"
  shows "snap_ok (cast_new signer n a auth s)"
  using assms cast_new_effect [OF assms(1), of signer n a auth]
  by (auto simp: snap_ok_def votes_ok_def)

text \<open>Votes on an account are from different signers, so the tally is the number of voters.\<close>

definition vote_signers :: "address \<Rightarrow> clique_Vote list \<Rightarrow> address set" where
  "vote_signers a vs = v_Signer ` {v \<in> set vs. v_Address v = a}"

lemma votes_on_signers:
  assumes "votes_ok S vs"
  shows "votes_on a vs = card (vote_signers a vs)"
proof -
  have "distinct (map v_Signer (filter (\<lambda>v. v_Address v = a) vs))"
    using assms by (auto simp: votes_ok_def distinct_map inj_on_def)
  from distinct_card [OF this] show ?thesis by (simp add: votes_on_def vote_signers_def)
qed

lemma filter_tallied:
  assumes "tallied auth vs t" "\<And>b. b \<noteq> a \<Longrightarrow> auth b = auth' b"
  shows "tallied auth' (filter (\<lambda>v. v_Address v \<noteq> a) vs) (t(a := None))"
proof -
  have "votes_on b (filter (\<lambda>v. v_Address v \<noteq> a) vs) = (if b = a then 0 else votes_on b vs)" for b
    by (induction vs) auto
  with assms show ?thesis by (auto simp: tallied_def)
qed

lemma pass_vote_stays:
  assumes "snap_ok s" "\<not> card (s_Signers s) div 2 < card (vote_signers a (s_Votes s))"
  shows "pass_vote n a s = s"
  using assms votes_on_signers [of "s_Signers s" "s_Votes s" a]
  by (auto simp: snap_ok_def pass_vote_def tallied_def split: option.splits)

lemma pass_vote_adds:
  assumes "snap_ok s" "card (s_Signers s) div 2 < card (vote_signers a (s_Votes s))" "a \<notin> s_Signers s"
  shows "pass_vote n a s = s\<lparr>s_Signers := insert a (s_Signers s), s_Votes := filter (\<lambda>v. v_Address v \<noteq> a) (s_Votes s),
    s_Tally := (s_Tally s)(a := None)\<rparr>"
  using assms votes_on_signers [of "s_Signers s" "s_Votes s" a]
  by (auto simp: snap_ok_def pass_vote_def tallied_def)

lemma pass_vote_drops:
  assumes ok: "snap_ok s" and maj: "card (s_Signers s) div 2 < card (vote_signers a (s_Votes s))" and a: "a \<in> s_Signers s"
  shows "\<exists>t. tallied (\<lambda>a. a \<notin> s_Signers s) (filter (\<lambda>v. v_Signer v \<noteq> a) (s_Votes s)) t \<and>
    s_Signers (pass_vote n a s) = s_Signers s - {a} \<and> s_Tally (pass_vote n a s) = t(a := None) \<and>
    s_Votes (pass_vote n a s) = filter (\<lambda>v. v_Address v \<noteq> a) (filter (\<lambda>v. v_Signer v \<noteq> a) (s_Votes s))"
proof -
  let ?s = "delete_recent n (s\<lparr>s_Signers := s_Signers s - {a}\<rparr>)"
  obtain t where d: "discard_cast_by a [] (s_Votes s) ?s =
      ?s\<lparr>s_Votes := [] @ filter (\<lambda>v. v_Signer v \<noteq> a) (s_Votes s), s_Tally := t\<rparr>"
    "tallied (\<lambda>a. a \<notin> s_Signers s) ([] @ filter (\<lambda>v. v_Signer v \<noteq> a) (s_Votes s)) t"
    using discard_cast_by_ok [of "\<lambda>a. a \<notin> s_Signers s" "[]" "s_Votes s" ?s a] ok
    by (auto simp: snap_ok_def votes_ok_def)
  have "s_Tally s a = Some \<lparr>t_Authorize = False, t_Votes = card (vote_signers a (s_Votes s))\<rparr>"
    using ok maj a votes_on_signers [of "s_Signers s" "s_Votes s" a] by (auto simp: snap_ok_def tallied_def)
  with d maj show ?thesis by (intro exI [of _ t]) (simp add: pass_vote_def)
qed

lemma pass_vote_ok:
  assumes ok: "snap_ok s"
  shows "snap_ok (pass_vote n a s) \<and> set (s_Votes (pass_vote n a s)) \<subseteq> set (s_Votes s)"
proof (cases "card (s_Signers s) div 2 < card (vote_signers a (s_Votes s))")
  case False
  with ok show ?thesis by (simp add: pass_vote_stays)
next
  case maj: True
  have v: "votes_ok (s_Signers s) (s_Votes s)" "finite (s_Signers s)" using ok by (simp_all add: snap_ok_def)
  show ?thesis
  proof (cases "a \<in> s_Signers s")
    case True
    obtain t where t: "tallied (\<lambda>a. a \<notin> s_Signers s) (filter (\<lambda>v. v_Signer v \<noteq> a) (s_Votes s)) t"
      and p: "s_Signers (pass_vote n a s) = s_Signers s - {a}" "s_Tally (pass_vote n a s) = t(a := None)"
        "s_Votes (pass_vote n a s) = filter (\<lambda>v. v_Address v \<noteq> a) (filter (\<lambda>v. v_Signer v \<noteq> a) (s_Votes s))"
      using pass_vote_drops [OF ok maj True] by blast
    have "votes_ok (s_Signers s - {a}) (filter (\<lambda>v. v_Address v \<noteq> a) (filter (\<lambda>v. v_Signer v \<noteq> a) (s_Votes s)))"
      using v(1) by (auto simp: votes_ok_def distinct_map inj_on_def)
    with filter_tallied [OF t, of a "\<lambda>b. b \<notin> s_Signers s - {a}"] p v(2) show ?thesis
      by (simp add: snap_ok_def)
  next
    case False
    have "votes_ok (insert a (s_Signers s)) (filter (\<lambda>v. v_Address v \<noteq> a) (s_Votes s))"
      using v(1) by (auto simp: votes_ok_def distinct_map inj_on_def)
    with filter_tallied [of "\<lambda>a. a \<notin> s_Signers s" "s_Votes s" "s_Tally s" a "\<lambda>b. b \<notin> insert a (s_Signers s)"]
      ok v(2) show ?thesis by (auto simp: pass_vote_adds [OF ok maj False] snap_ok_def)
  qed
qed

lemma pass_vote_signers:
  assumes "snap_ok s" "s_Signers (pass_vote n a s) \<noteq> s_Signers s"
  shows "s_Signers (pass_vote n a s) = (if a \<in> s_Signers s then s_Signers s - {a} else insert a (s_Signers s)) \<and>
    card (s_Signers s) < 2 * card (vote_signers a (s_Votes s))"
proof -
  have maj: "card (s_Signers s) div 2 < card (vote_signers a (s_Votes s))"
    using assms pass_vote_stays [OF assms(1)] by metis
  then have "card (s_Signers s) < 2 * card (vote_signers a (s_Votes s))" by linarith
  with pass_vote_drops [OF assms(1) maj] pass_vote_adds [OF assms(1) maj] show ?thesis
    by (cases "a \<in> s_Signers s") auto
qed

section \<open>Every vote was signed\<close>

text \<open>A vote stands for a header of \<open>hs\<close> that its signer has signed.\<close>

definition nonce_of :: "bool \<Rightarrow> 64 word" where
  "nonce_of auth = (if auth then nonceAuthVote else nonceDropVote)"

definition signed_vote :: "(header \<Rightarrow> error + address) \<Rightarrow> header list \<Rightarrow> clique_Vote \<Rightarrow> bool" where
  "signed_vote ecrecover hs v \<longleftrightarrow> (\<exists>h \<in> set hs. ecrecover h = Inr (v_Signer v) \<and> Coinbase h = v_Address v \<and>
     Nonce h = nonce_of (v_Authorize v))"

text \<open>The snapshot of a header just before its vote is counted.\<close>

lemma apply_header_parts:
  assumes ok: "snap_ok s" and run: "apply_header ecrecover h s = Done (Inr s')"
  shows "\<exists>n signer c. ecrecover h = Inr signer \<and> signer \<in> s_Signers s \<and> snap_ok c \<and> s_Signers c = s_Signers s \<and>
    set (s_Votes c) \<subseteq> set (s_Votes s) \<and> (signer, Coinbase h) \<notin> (\<lambda>v. (v_Signer v, v_Address v)) ` set (s_Votes c) \<and>
    Nonce h = nonce_of (Nonce h = nonceAuthVote) \<and>
    s' = pass_vote n (Coinbase h) (cast_new signer n (Coinbase h) (Nonce h = nonceAuthVote) c)"
proof -
  obtain n where n: "header_number h = Done n" and e: "s_Epoch s \<noteq> 0"
    using run by (auto simp: apply_header_def obind_Done_iff split: if_splits)
  let ?r = "delete_recent n (if n mod s_Epoch s = 0 then s\<lparr>s_Votes := [], s_Tally := Map.empty\<rparr> else s)"
  obtain signer where sg: "ecrecover h = Inr signer" "signer \<in> s_Signers s"
      and nonce: "Nonce h = nonce_of (Nonce h = nonceAuthVote)"
      and s': "s' = pass_vote n (Coinbase h) (cast_new signer n (Coinbase h) (Nonce h = nonceAuthVote)
        (discard_previous signer (Coinbase h) [] (s_Votes ?r) (?r\<lparr>s_Recents := AList.update n signer (s_Recents ?r)\<rparr>)))"
    using run n e by (auto simp: apply_header_def Let_def nonce_of_def split: sum.splits if_splits)
  let ?c = "?r\<lparr>s_Recents := AList.update n signer (s_Recents ?r)\<rparr>"
  have r: "finite (s_Signers s)" "votes_ok (s_Signers s) (s_Votes ?c)" "tallied (\<lambda>a. a \<notin> s_Signers s) (s_Votes ?c) (s_Tally ?c)"
    "set (s_Votes ?c) \<subseteq> set (s_Votes s)" "s_Signers ?c = s_Signers s"
    using ok by (auto simp: snap_ok_def votes_ok_def tallied_def)
  obtain vs t where d: "discard_previous signer (Coinbase h) [] (s_Votes ?c) ?c = ?c\<lparr>s_Votes := vs, s_Tally := t\<rparr>"
      "votes_ok (s_Signers s) vs" "tallied (\<lambda>a. a \<notin> s_Signers s) vs t" "set vs \<subseteq> set (s_Votes ?c)"
      "(signer, Coinbase h) \<notin> (\<lambda>v. (v_Signer v, v_Address v)) ` set vs"
    using discard_previous_ok [of ?c "[]" "s_Votes ?c" "s_Signers s" signer "Coinbase h"] r(2,3) by auto
  show ?thesis
  proof (intro exI conjI)
    show "snap_ok (?c\<lparr>s_Votes := vs, s_Tally := t\<rparr>)" using r(1,5) d(2,3) by (simp add: snap_ok_def)
    show "s' = pass_vote n (Coinbase h) (cast_new signer n (Coinbase h) (Nonce h = nonceAuthVote) (?c\<lparr>s_Votes := vs, s_Tally := t\<rparr>))"
      using s' d(1) by simp
    show "set (s_Votes (?c\<lparr>s_Votes := vs, s_Tally := t\<rparr>)) \<subseteq> set (s_Votes s)" using d(4) r(4) by simp
    show "(signer, Coinbase h) \<notin> (\<lambda>v. (v_Signer v, v_Address v)) ` set (s_Votes (?c\<lparr>s_Votes := vs, s_Tally := t\<rparr>))" using d(5) by simp
    show "s_Signers (?c\<lparr>s_Votes := vs, s_Tally := t\<rparr>) = s_Signers s" using r(5) by simp
  qed (use sg nonce in auto)
qed

lemma apply_header_step:
  assumes ok: "snap_ok s" and run: "apply_header ecrecover h s = Done (Inr s')"
    and b: "\<forall>v \<in> set (s_Votes s). signed_vote ecrecover hs v"
  shows "snap_ok s' \<and> (\<forall>v \<in> set (s_Votes s'). signed_vote ecrecover (hs @ [h]) v) \<and>
    (s_Signers s' \<noteq> s_Signers s \<longrightarrow>
      s_Signers s' = (if Coinbase h \<in> s_Signers s then s_Signers s - {Coinbase h} else insert (Coinbase h) (s_Signers s)) \<and>
      (\<exists>W \<subseteq> s_Signers s. card (s_Signers s) < 2 * card W \<and>
        (\<forall>w \<in> W. \<exists>g \<in> set (hs @ [h]). ecrecover g = Inr w \<and> Coinbase g = Coinbase h \<and>
           Nonce g = nonce_of (Coinbase h \<notin> s_Signers s))))"
proof -
  obtain n signer c where sg: "ecrecover h = Inr signer" "signer \<in> s_Signers s" and c: "snap_ok c" "s_Signers c = s_Signers s"
      "set (s_Votes c) \<subseteq> set (s_Votes s)" "(signer, Coinbase h) \<notin> (\<lambda>v. (v_Signer v, v_Address v)) ` set (s_Votes c)"
      and nonce: "Nonce h = nonce_of (Nonce h = nonceAuthVote)"
      and s': "s' = pass_vote n (Coinbase h) (cast_new signer n (Coinbase h) (Nonce h = nonceAuthVote) c)"
    using apply_header_parts [OF ok run] by blast
  let ?d = "cast_new signer n (Coinbase h) (Nonce h = nonceAuthVote) c"
  have d: "snap_ok ?d" using cast_new_ok [OF c(1) _ c(4)] sg(2) c(2) by simp
  have dS: "s_Signers ?d = s_Signers s" using cast_new_effect [OF c(1)] c(2) by simp
  have db: "\<forall>v \<in> set (s_Votes ?d). signed_vote ecrecover (hs @ [h]) v"
    using cast_new_effect [OF c(1), of signer n "Coinbase h" "Nonce h = nonceAuthVote"] b c(3) sg(1) nonce
    by (auto simp: signed_vote_def)
  have W: "vote_signers (Coinbase h) (s_Votes ?d) \<subseteq> s_Signers s \<and> (\<forall>w \<in> vote_signers (Coinbase h) (s_Votes ?d).
      \<exists>g \<in> set (hs @ [h]). ecrecover g = Inr w \<and> Coinbase g = Coinbase h \<and> Nonce g = nonce_of (Coinbase h \<notin> s_Signers s))"
    using d db dS unfolding snap_ok_def votes_ok_def vote_signers_def signed_vote_def by fastforce
  have ok': "snap_ok s'" and b': "\<forall>v \<in> set (s_Votes s'). signed_vote ecrecover (hs @ [h]) v"
    using pass_vote_ok [OF d, of n "Coinbase h"] db s' by auto
  show ?thesis
    using pass_vote_signers [OF d, of n "Coinbase h", folded s', unfolded dS] W
    by (intro conjI ok' b' impI exI [of _ "vote_signers (Coinbase h) (s_Votes ?d)"]) blast+
qed

lemma case_Done_Inr_iff:
  "(case r of Inl err \<Rightarrow> Done (Inl err) | Inr s \<Rightarrow> f s) = Done (Inr x) \<longleftrightarrow> (\<exists>s. r = Inr s \<and> f s = Done (Inr x))"
  by (cases r) auto

lemma apply_headers_append:
  "apply_headers ecrecover (hs @ gs) s = obind (apply_headers ecrecover hs s) (\<lambda>r.
     case r of Inl err \<Rightarrow> Done (Inl err) | Inr s \<Rightarrow> apply_headers ecrecover gs s)"
proof (induction hs arbitrary: s)
  case (Cons h hs)
  then show ?case by (cases "apply_header ecrecover h s") (auto split: sum.splits)
qed simp

lemma apply_headers_signed:
  "apply_headers ecrecover hs s = Done (Inr s') \<Longrightarrow> snap_ok s \<Longrightarrow> \<forall>v \<in> set (s_Votes s). signed_vote ecrecover pre v \<Longrightarrow>
   snap_ok s' \<and> (\<forall>v \<in> set (s_Votes s'). signed_vote ecrecover (pre @ hs) v)"
proof (induction hs arbitrary: s pre)
  case (Cons h hs)
  obtain m where m: "apply_header ecrecover h s = Done (Inr m)" "apply_headers ecrecover hs m = Done (Inr s')"
    using Cons.prems(1) by (auto simp: obind_Done_iff case_Done_Inr_iff)
  from apply_header_step [OF Cons.prems(2) m(1) Cons.prems(3)]
  have "snap_ok m" "\<forall>v \<in> set (s_Votes m). signed_vote ecrecover (pre @ [h]) v" by blast+
  from Cons.IH [OF m(2) this] show ?case by simp
qed auto

lemma newSnapshot_ok: "snap_ok (newSnapshot epoch number h sg)"
  by (simp add: newSnapshot_def snap_ok_def votes_ok_def tallied_def)

text \<open>
  C37.  Starting from a checkpoint, whatever headers a snapshot applies, the votes it keeps are from
  its current signers, one for each account, and the tally is their number.  A header changes the
  signers only by adding or dropping its \<^verbatim>\<open>Coinbase\<close>, and only when more than half of the signers have each
  signed a header of the chain that votes for just this change.
\<close>

theorem clique_majority:
  assumes "snapshot_apply kec ecrecover (hs @ h # rest) (newSnapshot epoch number h0 sg) = Done (Inr s'')"
  shows "snap_ok s'' \<and> (\<exists>s s'. apply_headers ecrecover hs (newSnapshot epoch number h0 sg) = Done (Inr s) \<and>
    apply_header ecrecover h s = Done (Inr s') \<and> snap_ok s' \<and>
    (s_Signers s' \<noteq> s_Signers s \<longrightarrow>
      s_Signers s' = (if Coinbase h \<in> s_Signers s then s_Signers s - {Coinbase h} else insert (Coinbase h) (s_Signers s)) \<and>
      (\<exists>W \<subseteq> s_Signers s. card (s_Signers s) < 2 * card W \<and>
        (\<forall>w \<in> W. \<exists>g \<in> set (hs @ [h]). ecrecover g = Inr w \<and> Coinbase g = Coinbase h \<and>
           Nonce g = nonce_of (Coinbase h \<notin> s_Signers s)))))"
proof -
  let ?s0 = "newSnapshot epoch number h0 sg"
  have v0: "\<forall>v \<in> set (s_Votes ?s0). signed_vote ecrecover [] v" by (simp add: newSnapshot_def)
  obtain r where r: "apply_headers ecrecover (hs @ h # rest) ?s0 = Done (Inr r)"
      and s'': "s'' = r\<lparr>s_Number := s_Number s'', s_Hash := s_Hash s''\<rparr>"
    using assms by (auto simp: snapshot_apply_def obind_Done_iff case_Done_Inr_iff split: if_splits)
  have "snap_ok r" using apply_headers_signed [OF r newSnapshot_ok v0] by blast
  then have ok: "snap_ok s''" by (subst s'') (simp add: snap_ok_def)
  obtain s s' where s: "apply_headers ecrecover hs ?s0 = Done (Inr s)" "apply_header ecrecover h s = Done (Inr s')"
    using r by (auto simp: apply_headers_append obind_Done_iff case_Done_Inr_iff)
  have "snap_ok s" "\<forall>v \<in> set (s_Votes s). signed_vote ecrecover hs v"
    using apply_headers_signed [OF s(1) newSnapshot_ok v0] by auto
  from apply_header_step [OF this(1) s(2) this(2)] ok s show ?thesis by blast
qed

definition vote_header :: "int \<Rightarrow> address \<Rightarrow> bool \<Rightarrow> byte list \<Rightarrow> header" where
  "vote_header n a auth ex = extra_header\<lparr>Number := Some n, Coinbase := a, Nonce := nonce_of auth, Extra := ex\<rparr>"

definition first_byte :: "header \<Rightarrow> error + address" where
  "first_byte h = (case Extra h of [] \<Rightarrow> Inl ErrEmptyCommittedSeals | b # _ \<Rightarrow> Inr (ucast b))"

lemma clique_example:
  "apply_headers first_byte [vote_header 1 9 True [1]] (newSnapshot 100 0 0 [1, 2, 3]) =
     Done (Inr \<lparr>s_Epoch = 100, s_Number = 0, s_Hash = 0, s_Signers = {1, 2, 3}, s_Recents = [(1, 1)],
       s_Votes = [\<lparr>v_Signer = 1, v_Block = 1, v_Address = 9, v_Authorize = True\<rparr>],
       s_Tally = [9 \<mapsto> \<lparr>t_Authorize = True, t_Votes = 1\<rparr>]\<rparr>)"
  by (simp add: apply_header_def header_number_def vote_header_def first_byte_def newSnapshot_def Let_def delete_recent_def
    nonce_of_def cast_new_def cast_vote_def validVote_def pass_vote_def card_insert_if Uint64_def)

theorem clique_majority_witness:
  "\<exists>s' (W :: address set). snapshot_apply (\<lambda>_. 0) first_byte [vote_header 1 9 True [1], vote_header 2 9 True [2]]
       (newSnapshot 100 0 0 [1, 2, 3]) = Done (Inr s') \<and> s_Signers s' = {1, 2, 3, 9} \<and> snap_ok s' \<and> W \<subseteq> {1, 2, 3} \<and> 3 < 2 * card W"
proof -
  let ?h = "vote_header 2 9 True [2]"
  obtain s'' where r: "snapshot_apply (\<lambda>_. 0) first_byte ([vote_header 1 9 True [1]] @ ?h # []) (newSnapshot 100 0 0 [1, 2, 3]) = Done (Inr s'')"
      and S: "s_Signers s'' = {1, 2, 3, 9}"
    by (simp add: snapshot_apply_def apply_header_def header_number_def vote_header_def first_byte_def newSnapshot_def Let_def
      delete_recent_def nonce_of_def cast_new_def cast_vote_def validVote_def pass_vote_def card_insert_if Uint64_def
      insert_commute)
  obtain s s' where s: "apply_headers first_byte [vote_header 1 9 True [1]] (newSnapshot 100 0 0 [1, 2, 3]) = Done (Inr s)"
      "apply_header first_byte ?h s = Done (Inr s')" and ok: "snap_ok s''"
      and ch: "s_Signers s' \<noteq> s_Signers s \<longrightarrow> (\<exists>W \<subseteq> s_Signers s. card (s_Signers s) < 2 * card W)"
    using clique_majority [OF r] by blast
  have "9 \<notin> {1, 2, 3 :: address}" by simp
  have "s_Signers s = {1, 2, 3}" using s(1) unfolding clique_example by auto
  moreover have "s_Signers s' = s_Signers s''"
    using r s by (auto simp: snapshot_apply_def obind_Done_iff case_Done_Inr_iff split: if_splits)
  ultimately obtain W where "W \<subseteq> {1, 2, 3 :: address}" "card {1, 2, 3 :: address} < 2 * card W"
    using ch S by (metis (no_types) \<open>9 \<notin> {1, 2, 3 :: address}\<close> insertCI)
  moreover have "card {1, 2, 3 :: address} = 3" by simp
  ultimately show ?thesis using r S ok by (intro exI [of _ s''] exI [of _ W]) simp
qed

section \<open>Whose turn it is\<close>

lemma index_of_eq_iff:
  assumes "distinct xs" "k < length xs"
  shows "k = (case index_of b xs of Some i \<Rightarrow> i | None \<Rightarrow> length xs) \<longleftrightarrow> b = xs ! k"
proof (cases "index_of b xs")
  case None
  moreover have "b \<noteq> xs ! k" using None assms(2) nth_mem by (auto simp: index_of_None_iff)
  ultimately show ?thesis using assms(2) by simp
next
  case (Some i)
  have "k = i \<longleftrightarrow> b = xs ! k"
  proof
    assume "b = xs ! k"
    with Some index_of_distinct [OF assms] show "k = i" by simp
  qed (simp add: index_of_SomeD(2) [OF Some])
  with Some show ?thesis by simp
qed

text \<open>
  C38.  At every height exactly one of the signers is in turn, and nobody else is; only without signers
  does the remainder by their number panic.
\<close>

theorem inturn_unique:
  "finite (s_Signers s) \<Longrightarrow>
   (if s_Signers s = {} then \<forall>a. inturn s number a = Panic ''integer divide by zero''
    else \<exists>a \<in> s_Signers s. \<forall>b. inturn s number b = Done (b = a))"
proof -
  assume fin: "finite (s_Signers s)"
  let ?xs = "sorted_list_of_set (s_Signers s)"
  show ?thesis
  proof (cases "s_Signers s = {}")
    case True
    then show ?thesis by (simp add: inturn_def signers_def)
  next
    case False
    with fin have ne: "?xs \<noteq> []" by simp
    have lt: "number mod length ?xs < length ?xs" using ne by (intro mod_less_divisor) (simp del: length_sorted_list_of_set)
    have "inturn s number b = Done (b = ?xs ! (number mod length ?xs))" for b
      using ne index_of_eq_iff [OF _ lt, of b] by (simp add: inturn_def signers_def Let_def del: length_sorted_list_of_set)
    moreover have "?xs ! (number mod length ?xs) \<in> s_Signers s" using nth_mem [OF lt] fin by simp
    ultimately show ?thesis using False by auto
  qed
qed

theorem inturn_unique_witness:
  "\<exists>a \<in> {1, 2, 3}. \<forall>b. inturn (newSnapshot 100 0 0 [1, 2, 3]) 7 b = Done (b = a)"
  using inturn_unique [of "newSnapshot 100 0 0 [1, 2, 3]" 7] by (simp add: newSnapshot_def)

end
