(* ===== verification/Trie_Encoding.thy ===== *)
theory Trie_Encoding
  imports Prelude
begin

text \<open>
  The three encodings of trie keys in \<^verbatim>\<open>trie/encoding.go\<close>: key bytes, one nibble per byte with an optional
  terminator, and the compact form that is stored on disk.  The main fact: the conversions are
  inverse to each other, so different keys never share an encoding.
\<close>

unbundle bit_operations_syntax

section \<open>Definitions\<close>

definition hasTerm :: "byte list \<Rightarrow> bool" where
  "hasTerm s \<longleftrightarrow> s \<noteq> [] \<and> last s = 16"

text \<open>
  \<^verbatim>\<open>decodeNibbles\<close> fills the front of a buffer that its callers allocate with half as many bytes as there
  are nibbles; an odd number of nibbles reads past the end.
\<close>

fun decodeNibbles :: "byte list \<Rightarrow> byte list outcome" where
  "decodeNibbles [] = Done []"
| "decodeNibbles [n] = Panic ''index out of range''"
| "decodeNibbles (m # n # ns) = obind (decodeNibbles ns) (\<lambda>bs. Done ((push_bit 4 m OR n) # bs))"

definition keybytesToHex :: "byte list \<Rightarrow> byte list" where
  "keybytesToHex str = concat (map (\<lambda>b. [b div 16, b mod 16]) str) @ [16]"

definition hexToKeybytes :: "byte list \<Rightarrow> byte list outcome" where
  "hexToKeybytes hex =
    (let hex = (if hasTerm hex then butlast hex else hex)
     in if odd (length hex) then Panic ''can't convert hex key of odd length'' else decodeNibbles hex)"

definition hexToCompact :: "byte list \<Rightarrow> byte list outcome" where
  "hexToCompact hex =
    (let terminator = (if hasTerm hex then 1 else 0);
         hex = (if hasTerm hex then butlast hex else hex);
         flag = push_bit 5 terminator
     in if odd (length hex)
        then obind (decodeNibbles (tl hex)) (\<lambda>bs. Done ((flag OR push_bit 4 1 OR hd hex) # bs))
        else obind (decodeNibbles hex) (\<lambda>bs. Done (flag # bs)))"

definition compactToHex :: "byte list \<Rightarrow> byte list" where
  "compactToHex compact =
    (if compact = [] then compact
     else let base = keybytesToHex compact;
              base = (if base ! 0 < 2 then butlast base else base);
              chop = 2 - (base ! 0 AND 1)
          in drop (unat chop) base)"

fun prefixLen :: "byte list \<Rightarrow> byte list \<Rightarrow> nat" where
  "prefixLen (x # xs) (y # ys) = (if x \<noteq> y then 0 else Suc (prefixLen xs ys))"
| "prefixLen _ _ = 0"

section \<open>Nibbles\<close>

abbreviation nibbles :: "byte list \<Rightarrow> bool" where
  "nibbles ns \<equiv> list_all (\<lambda>n. n < 16) ns"

definition all_nibbles :: "byte list" where
  "all_nibbles = map word_of_nat [0..<16]"

lemma in_all_nibbles: "(n :: byte) < 16 \<Longrightarrow> n \<in> set all_nibbles"
  unfolding all_nibbles_def set_map
  by (rule image_eqI [of _ _ "unat n"]) (simp_all add: word_less_nat_alt)

lemma nibble_table:
  "list_all (\<lambda>m. list_all (\<lambda>n. (push_bit 4 m OR n) div 16 = m \<and> (push_bit 4 m OR n) mod 16 = n) all_nibbles) all_nibbles"
  by code_simp

lemma nibble_join:
  "m < 16 \<Longrightarrow> n < 16 \<Longrightarrow> (push_bit 4 m OR n :: byte) div 16 = m"
  "m < 16 \<Longrightarrow> n < 16 \<Longrightarrow> (push_bit 4 m OR n :: byte) mod 16 = n"
  using nibble_table in_all_nibbles unfolding list_all_iff by blast+

lemma nibble_split:
  "(b :: byte) div 16 < 16" "(b :: byte) mod 16 < 16" "push_bit 4 (b div 16) OR b mod 16 = b"
proof -
  show "b mod 16 < 16" by (rule word_mod_less_divisor) simp
  have "unat b < 2 ^ LENGTH(8)" by (rule unsigned_less)
  then have "unat (b div 16) < 16" by (simp add: unat_div)
  then show "b div 16 < 16" by (simp add: word_less_nat_alt)
  have "b div 16 = drop_bit 4 b" "b mod 16 = take_bit 4 b"
    by (simp_all add: drop_bit_eq_div take_bit_eq_mod)
  then show "push_bit 4 (b div 16) OR b mod 16 = b"
    by (auto simp: bit_eq_iff bit_simps not_less)
qed

section \<open>Round trips\<close>

lemma decodeNibbles_keybytes: "decodeNibbles (concat (map (\<lambda>b. [b div 16, b mod 16]) k)) = Done k"
  by (induction k) (simp_all add: nibble_split)

lemma keybytes_decodeNibbles:
  "even (length ns) \<Longrightarrow> nibbles ns \<Longrightarrow>
   \<exists>bs. decodeNibbles ns = Done bs \<and> concat (map (\<lambda>b. [b div 16, b mod 16]) bs) = ns"
  by (induction ns rule: decodeNibbles.induct) (auto simp: nibble_join)

lemma hexToKeybytes_keybytesToHex: "hexToKeybytes (keybytesToHex k) = Done k"
proof -
  have "even (length (concat (map (\<lambda>b. [b div 16, b mod 16]) k)))" by (induction k) simp_all
  then show ?thesis by (simp add: hexToKeybytes_def keybytesToHex_def hasTerm_def decodeNibbles_keybytes)
qed

text \<open>A key in memory: nibbles, with the terminator or without.\<close>

definition hex_key :: "byte list \<Rightarrow> bool" where
  "hex_key hex \<longleftrightarrow> nibbles (if hasTerm hex then butlast hex else hex)"

lemma flag_table:
  "list_all (\<lambda>n. (16 OR n) div 16 = 1 \<and> (16 OR n) mod 16 = n \<and> (32 OR 16 OR n) div 16 = 3 \<and> (32 OR 16 OR n) mod 16 = n) all_nibbles"
  by code_simp

lemma flag_join:
  assumes "(n :: byte) < 16"
  shows "(16 OR n) div 16 = 1" "(16 OR n) mod 16 = n" "(32 OR 16 OR n) div 16 = 3" "(32 OR 16 OR n) mod 16 = n"
  using flag_table in_all_nibbles [OF assms] unfolding list_all_iff by blast+

lemma compactToHex_hexToCompact:
  assumes "hex_key hex"
  shows "\<exists>c. hexToCompact hex = Done c \<and> compactToHex c = hex"
proof -
  define ns where "ns = (if hasTerm hex then butlast hex else hex)"
  have ns: "nibbles ns" using assms by (simp add: hex_key_def ns_def)
  have hex: "hex = ns @ (if hasTerm hex then [16] else [])"
    unfolding ns_def by (auto simp: hasTerm_def dest: append_butlast_last_id [symmetric])
  show ?thesis
  proof (cases "odd (length ns)")
    case True
    then obtain n ms where n: "ns = n # ms" by (cases ns) auto
    with True ns obtain bs where "decodeNibbles ms = Done bs" "concat (map (\<lambda>b. [b div 16, b mod 16]) bs) = ms"
      using keybytes_decodeNibbles [of ms] by auto
    with True n ns flag_join [of n] hex show ?thesis
      by (cases "hasTerm hex") (simp_all add: hexToCompact_def compactToHex_def keybytesToHex_def Let_def flip: ns_def)
  next
    case False
    with ns obtain bs where "decodeNibbles ns = Done bs" "concat (map (\<lambda>b. [b div 16, b mod 16]) bs) = ns"
      using keybytes_decodeNibbles by blast
    with False hex show ?thesis
      by (cases "hasTerm hex") (simp_all add: hexToCompact_def compactToHex_def keybytesToHex_def Let_def flip: ns_def)
  qed
qed

lemma hex_key_keybytesToHex: "hex_key (keybytesToHex k)" "hasTerm (keybytesToHex k)"
  by (auto simp: hex_key_def keybytesToHex_def hasTerm_def list_all_iff nibble_split)

lemma prefixLen_take:
  "take (prefixLen xs ys) xs = take (prefixLen xs ys) ys" "prefixLen xs ys \<le> length xs" "prefixLen xs ys \<le> length ys"
  "prefixLen xs ys < length xs \<Longrightarrow> prefixLen xs ys < length ys \<Longrightarrow> xs ! prefixLen xs ys \<noteq> ys ! prefixLen xs ys"
  by (induction xs ys rule: prefixLen.induct) auto

text \<open>
  C39. The encodings of trie keys lose nothing: key bytes survive the way through nibbles, and the nibbles of
  a node, with or without terminator, survive the way through the compact form on disk, for odd
  and even numbers of nibbles; so two nodes with the same compact key have the same key.
\<close>

theorem trie_keys_roundtrip:
  assumes "hex_key hex" "hex_key hex'"
  shows "hexToKeybytes (keybytesToHex k) = Done k \<and>
    (\<exists>c. hexToCompact hex = Done c \<and> compactToHex c = hex) \<and>
    (\<exists>c. hexToCompact (keybytesToHex k) = Done c \<and> hexToKeybytes (compactToHex c) = Done k) \<and>
    (hexToCompact hex = hexToCompact hex' \<longrightarrow> hex = hex')"
proof -
  have "hex = hex'" if "hexToCompact hex = hexToCompact hex'"
    using compactToHex_hexToCompact [OF assms(1)] compactToHex_hexToCompact [OF assms(2)] that by auto
  then show ?thesis
    using compactToHex_hexToCompact [OF assms(1)] compactToHex_hexToCompact [OF hex_key_keybytesToHex(1), of k]
      hexToKeybytes_keybytesToHex [of k] by auto
qed

theorem trie_keys_roundtrip_witness:
  "\<exists>c. hexToCompact [1, 2, 15, 16] = Done c \<and> compactToHex c = [1, 2, 15, 16]"
  using trie_keys_roundtrip [of "[1, 2, 15, 16]" "[]" "[]"] by (simp add: hex_key_def hasTerm_def)

end
