(* ===== verification/Bit_Compress.thy ===== *)
theory Bit_Compress
  imports Prelude
begin

text \<open>
  The compression of sparse byte strings in \<^verbatim>\<open>common/bitutil/compress.go\<close>.  Encoding recurses on the bitset
  of the bytes that are not zero.  The main fact: decompressing what was compressed gives the
  original bytes.
\<close>

unbundle bit_operations_syntax

section \<open>Definitions\<close>

datatype compress_error = MissingData | UnreferencedData | ExceededTarget | ZeroContent

text \<open>The loop over the bytes: the bitset and the bytes that are not zero so far.\<close>

fun bitset_loop :: "nat \<Rightarrow> byte list \<Rightarrow> byte list \<Rightarrow> byte list \<Rightarrow> byte list \<times> byte list" where
  "bitset_loop i [] nonZeroBitset nonZeroBytes = (nonZeroBitset, nonZeroBytes)"
| "bitset_loop i (b # data) nonZeroBitset nonZeroBytes =
    (if b \<noteq> 0
     then bitset_loop (Suc i) data
            (nonZeroBitset[i div 8 := nonZeroBitset ! (i div 8) OR push_bit (7 - i mod 8) 1]) (nonZeroBytes @ [b])
     else bitset_loop (Suc i) data nonZeroBitset nonZeroBytes)"

lemma length_bitset_loop: "length (fst (bitset_loop i data bs nz)) = length bs"
  by (induction i data bs nz rule: bitset_loop.induct) simp_all

function bitsetEncodeBytes :: "byte list \<Rightarrow> byte list" where
  "bitsetEncodeBytes data =
    (if length data = 0 then []
     else if length data = 1 then (if data ! 0 = 0 then [] else data)
     else case bitset_loop 0 data (replicate ((length data + 7) div 8) 0) [] of
            (nonZeroBitset, nonZeroBytes) \<Rightarrow>
              if nonZeroBytes = [] then [] else bitsetEncodeBytes nonZeroBitset @ nonZeroBytes)"
  by pat_completeness auto
termination
proof (relation "measure length", goal_cases)
  case 1
  then show ?case by simp
next
  case (2 data bs nz)
  have "length bs = (length data + 7) div 8"
    using length_bitset_loop [of 0 data "replicate ((length data + 7) div 8) 0" "[]"] 2(3)
    by (metis fst_conv length_replicate)
  moreover have "2 \<le> length data" using 2(1,2) by linarith
  ultimately show ?case by simp
qed

declare bitsetEncodeBytes.simps [simp del]

definition CompressBytes :: "byte list \<Rightarrow> byte list" where
  "CompressBytes data =
    (let out = bitsetEncodeBytes data in if length out < length data then out else data)"

text \<open>The loop that distributes the bytes over the positions of the set bits.\<close>

primrec decode_loop ::
    "nat \<Rightarrow> nat \<Rightarrow> byte list \<Rightarrow> byte list \<Rightarrow> nat \<Rightarrow> byte list \<Rightarrow> compress_error + (byte list \<times> nat)" where
  "decode_loop 0 i bitset data ptr decomp = Inr (decomp, ptr)"
| "decode_loop (Suc n) i bitset data ptr decomp =
    (if bitset ! (i div 8) AND push_bit (7 - i mod 8) 1 \<noteq> 0 then
       (if ptr \<ge> length data then Inl MissingData
        else if i \<ge> length decomp then Inl ExceededTarget
        else if data ! ptr = 0 then Inl ZeroContent
        else decode_loop n (Suc i) bitset data (Suc ptr) (decomp[i := data ! ptr]))
     else decode_loop n (Suc i) bitset data ptr decomp)"

function bitsetDecodePartialBytes :: "byte list \<Rightarrow> nat \<Rightarrow> compress_error + (byte list \<times> nat)" where
  "bitsetDecodePartialBytes data target =
    (if target = 0 then Inr ([], 0)
     else if length data = 0 then Inr (replicate target 0, 0)
     else if target = 1 then (if data ! 0 \<noteq> 0 then Inr ([data ! 0], 1) else Inr ([data ! 0], 0))
     else case bitsetDecodePartialBytes data ((target + 7) div 8) of
            Inl err \<Rightarrow> Inl err
          | Inr (nonZeroBitset, ptr) \<Rightarrow>
              decode_loop (8 * length nonZeroBitset) 0 nonZeroBitset data ptr (replicate target 0))"
  by pat_completeness auto
termination
  by (relation "measure snd") auto

declare bitsetDecodePartialBytes.simps [simp del]

definition bitsetDecodeBytes :: "byte list \<Rightarrow> nat \<Rightarrow> compress_error + byte list" where
  "bitsetDecodeBytes data target =
    (case bitsetDecodePartialBytes data target of
       Inl err \<Rightarrow> Inl err
     | Inr (out, used) \<Rightarrow> if used \<noteq> length data then Inl UnreferencedData else Inr out)"

definition DecompressBytes :: "byte list \<Rightarrow> nat \<Rightarrow> compress_error + byte list" where
  "DecompressBytes data target =
    (if length data > target then Inl ExceededTarget
     else if length data = target then Inr data
     else bitsetDecodeBytes data target)"

section \<open>The bitset\<close>

text \<open>Bit \<open>i\<close> of a bitset, the most significant bit of a byte first.\<close>

definition flag_at :: "byte list \<Rightarrow> nat \<Rightarrow> bool" where
  "flag_at bs i \<longleftrightarrow> bit (bs ! (i div 8)) (7 - i mod 8)"

lemma test_flag: "bs ! (i div 8) AND push_bit (7 - i mod 8) 1 \<noteq> (0 :: byte) \<longleftrightarrow> flag_at bs i"
proof -
  have "7 - i mod 8 < LENGTH(8)" by simp
  then show ?thesis
    unfolding flag_at_def push_bit_of_1 by (simp add: and_exp_eq_0_iff_not_bit)
qed

lemma flag_at_set:
  assumes "j div 8 < length bs"
  shows "flag_at (bs[i div 8 := bs ! (i div 8) OR push_bit (7 - i mod 8) 1]) j \<longleftrightarrow> flag_at bs j \<or> i = j"
proof (cases "i div 8 = j div 8")
  case True
  then have "7 - i mod 8 = 7 - j mod 8 \<longleftrightarrow> i = j"
    using mod_less_divisor [of 8 i] mod_less_divisor [of 8 j] div_mult_mod_eq [of i 8] div_mult_mod_eq [of j 8] by linarith
  moreover have "7 - j mod 8 < LENGTH(8)" by simp
  ultimately show ?thesis using True assms by (auto simp: flag_at_def bit_or_iff push_bit_of_1 bit_exp_iff)
next
  case False
  then show ?thesis by (auto simp: flag_at_def)
qed

lemma bitset_loop_flags:
  "i + length data \<le> 8 * length bs \<Longrightarrow> j < 8 * length bs \<Longrightarrow>
   flag_at (fst (bitset_loop i data bs nz)) j \<longleftrightarrow> flag_at bs j \<or> (i \<le> j \<and> j < i + length data \<and> data ! (j - i) \<noteq> 0)"
proof (induction i data bs nz rule: bitset_loop.induct)
  case (1 i bs nz)
  then show ?case by auto
next
  case (2 i b data bs nz)
  have "j div 8 < length bs" using 2(4) by (simp add: less_mult_imp_div_less mult.commute)
  then show ?case
    using 2 flag_at_set [of j bs i] by (auto simp: nth_Cons' Suc_le_eq)
qed

lemma bitset_loop_bytes: "snd (bitset_loop i data bs nz) = nz @ filter (\<lambda>b. b \<noteq> 0) data"
  by (induction i data bs nz rule: bitset_loop.induct) simp_all

section \<open>The round trip\<close>

abbreviation nonzero :: "byte list \<Rightarrow> byte list" where
  "nonzero \<equiv> filter (\<lambda>b. b \<noteq> 0)"

lemma nonzero_at:
  assumes "i < length d" "d ! i \<noteq> 0"
  shows "nonzero d = nonzero (take i d) @ d ! i # nonzero (drop (Suc i) d)"
    "nonzero (take (Suc i) d) = nonzero (take i d) @ [d ! i]"
  using assms arg_cong [OF id_take_nth_drop [OF assms(1)], of nonzero] by (simp_all add: take_Suc_conv_app_nth)

lemma decomp_next:
  assumes "i < length d"
  shows "(take i d @ replicate (length d - i) 0)[i := d ! i] = take (Suc i) d @ replicate (length d - Suc i) 0"
proof -
  obtain m where "length d - i = Suc m" "length d - Suc i = m" using assms by (metis Suc_diff_Suc)
  with assms show ?thesis by (simp add: list_update_append take_Suc_conv_app_nth)
qed

lemma decode_loop_inverse:
  assumes "\<And>j. j < 8 * length bs \<Longrightarrow> flag_at bs j \<longleftrightarrow> j < length d \<and> d ! j \<noteq> 0" "length d \<le> 8 * length bs"
    "data = pre @ nonzero d @ rest" "i + n = 8 * length bs"
  shows "decode_loop n i bs data (length pre + length (nonzero (take i d))) (take i d @ replicate (length d - i) 0) =
    Inr (d, length pre + length (nonzero d))"
  using assms(4)
proof (induction n arbitrary: i)
  case 0
  then show ?case using assms(2) by simp
next
  case (Suc n)
  have flag: "bs ! (i div 8) AND push_bit (7 - i mod 8) 1 \<noteq> 0 \<longleftrightarrow> i < length d \<and> d ! i \<noteq> 0"
    using assms(1) [of i] Suc.prems test_flag [of bs i] by simp
  show ?case
  proof (cases "i < length d \<and> d ! i \<noteq> 0")
    case True
    then have "data ! (length pre + length (nonzero (take i d))) = d ! i"
      "length pre + length (nonzero (take i d)) < length data"
      using nonzero_at [of i d] assms(3) by (simp_all add: nth_append)
    with True flag Suc.IH [of "Suc i"] Suc.prems decomp_next [of i d] nonzero_at(2) [of i d] show ?thesis by simp
  next
    case False
    have "take i d @ replicate (length d - i) 0 = take (Suc i) d @ replicate (length d - Suc i) 0"
      using False decomp_next [of i d]
      by (cases "i < length d") (simp_all add: list_update_append nth_append take_Suc_conv_app_nth Suc_diff_Suc [symmetric])
    moreover have "nonzero (take (Suc i) d) = nonzero (take i d)"
      using False by (cases "i < length d") (simp_all add: take_Suc_conv_app_nth)
    moreover have "bs ! (i div 8) AND push_bit (7 - i mod 8) 1 = 0" using False flag by blast
    ultimately show ?thesis using Suc.IH [of "Suc i"] Suc.prems by simp
  qed
qed

lemma encode_decode:
  "nonzero d \<noteq> [] \<Longrightarrow>
   bitsetEncodeBytes d \<noteq> [] \<and>
   bitsetDecodePartialBytes (bitsetEncodeBytes d @ rest) (length d) = Inr (d, length (bitsetEncodeBytes d))"
proof (induction d arbitrary: rest rule: bitsetEncodeBytes.induct)
  case (1 d)
  let ?n = "(length d + 7) div 8"
  obtain bs nz where loop: "bitset_loop 0 d (replicate ?n 0) [] = (bs, nz)" by force
  have nz: "nz = nonzero d" using bitset_loop_bytes [of 0 d "replicate ?n 0" "[]"] loop by simp
  have len: "length bs = ?n" using length_bitset_loop [of 0 d "replicate ?n 0" "[]"] loop by simp
  have fits: "length d \<le> 8 * length bs" using len by simp
  have flags: "flag_at bs j \<longleftrightarrow> j < length d \<and> d ! j \<noteq> 0" if "j < 8 * length bs" for j
    using bitset_loop_flags [of 0 d "replicate ?n 0" j "[]"] loop that len fits
    by (auto simp: flag_at_def less_mult_imp_div_less mult.commute)
  consider "length d = 0" | "length d = 1" | "2 \<le> length d" by linarith
  then show ?case
  proof cases
    case 1
    then show ?thesis using "1.prems" by simp
  next
    case 2
    then obtain b where "d = [b]" "b \<noteq> 0" using "1.prems" by (cases d) (auto split: if_splits)
    then show ?thesis by (simp add: bitsetEncodeBytes.simps [of "[b]"] bitsetDecodePartialBytes.simps [of _ "Suc 0"])
  next
    case 3
    have enc: "bitsetEncodeBytes d = bitsetEncodeBytes bs @ nonzero d"
      using 3 loop nz "1.prems" by (subst bitsetEncodeBytes.simps) auto
    obtain j where "j < length d" "d ! j \<noteq> 0" using "1.prems" by (auto simp: filter_empty_conv in_set_conv_nth)
    then have "bs ! (j div 8) \<noteq> 0" "j div 8 < length bs"
      using flags [of j] fits by (auto simp: flag_at_def less_mult_imp_div_less mult.commute)
    then have "nonzero bs \<noteq> []" by (metis (mono_tags, lifting) filter_empty_conv nth_mem)
    moreover have ne: "d \<noteq> []" using 3 by auto
    ultimately have IH: "bitsetEncodeBytes bs \<noteq> []"
      "bitsetDecodePartialBytes (bitsetEncodeBytes bs @ nonzero d @ rest) (length bs) = Inr (bs, length (bitsetEncodeBytes bs))"
      using "1.IH" [OF _ _ loop [symmetric]] 3 nz "1.prems" by auto
    then show ?thesis
      using 3 ne enc decode_loop_inverse [OF flags fits refl, of 0 "8 * length bs" "bitsetEncodeBytes bs" rest]
      by (subst bitsetDecodePartialBytes.simps) (simp add: len)
  qed
qed

lemma zeros_encode: "nonzero d = [] \<Longrightarrow> bitsetEncodeBytes d = []"
proof (cases "length d \<le> 1")
  case True
  assume "nonzero d = []"
  then show ?thesis using True by (cases d) (auto simp: bitsetEncodeBytes.simps split: if_splits)
next
  case False
  assume "nonzero d = []"
  then show ?thesis
    using False bitset_loop_bytes [of 0 d "replicate ((length d + 7) div 8) 0" "[]"]
    by (subst bitsetEncodeBytes.simps) (auto split: prod.split)
qed

lemma decode_length:
  "decode_loop n i bs data ptr decomp = Inr (out, p) \<Longrightarrow> length out = length decomp"
  by (induction n arbitrary: i ptr decomp) (auto split: if_splits)

text \<open>
  C40. Compression is lossless and never grows: decompressing compressed bytes to their original length
  gives them back, and whatever input decompression accepts, its result has the length asked for.
\<close>

theorem compress_roundtrip:
  "DecompressBytes (CompressBytes d) (length d) = Inr d \<and> length (CompressBytes d) \<le> length d \<and>
   (DecompressBytes x t = Inr out \<longrightarrow> length out = t)"
proof -
  have "bitsetDecodeBytes (bitsetEncodeBytes d) (length d) = Inr d" if short: "length (bitsetEncodeBytes d) < length d"
  proof (cases "nonzero d = []")
    case True
    then have "d = replicate (length d) 0" by (metis (mono_tags) filter_empty_conv replicate_length_same)
    with True short show ?thesis
      by (simp add: zeros_encode bitsetDecodeBytes_def bitsetDecodePartialBytes.simps [of "[]"])
  next
    case False
    then show ?thesis using encode_decode [of d "[]"] by (simp add: bitsetDecodeBytes_def)
  qed
  then have "DecompressBytes (CompressBytes d) (length d) = Inr d"
    by (simp add: DecompressBytes_def CompressBytes_def Let_def)
  moreover have "length out = t" if "DecompressBytes x t = Inr out"
    using that by (auto simp: DecompressBytes_def bitsetDecodeBytes_def bitsetDecodePartialBytes.simps [of x t]
        dest: decode_length split: if_splits sum.splits prod.splits)
  ultimately show ?thesis by (simp add: CompressBytes_def Let_def)
qed

theorem compress_roundtrip_witness:
  "DecompressBytes (CompressBytes [0, 0, 0, 7, 0, 0, 0, 0, 0, 9]) 10 = Inr [0, 0, 0, 7, 0, 0, 0, 0, 0, 9]"
  using compress_roundtrip [of "[0, 0, 0, 7, 0, 0, 0, 0, 0, 9]" "[]" 0 "[]"] by (simp add: numeral_eq_Suc)

end
