(* ===== verification/Spec2Isabelle.thy ===== *)
theory Spec2Isabelle
  imports Validator_Ops Core_Outcomes Rewards Backend_State Clique Trie_Encoding Bit_Compress
begin

text \<open>
  Verification of the consensus of the Evrynet node, a Go program derived from the Ethereum node whose
  blocks are agreed on by a Tendermint protocol among validators.  File names are below \<^verbatim>\<open>src/\<close>.

  \<^bold>\<open>The program.\<close>  The core (\<^verbatim>\<open>consensus/tendermint/core\<close>) is the state machine of a node.  It takes
  new blocks from the miner, messages from the network, timeouts from its ticker and new heads from the
  chain, counts prevotes and precommits, and hands a block with two thirds of precommits to the back end.
  The back end (\<^verbatim>\<open>consensus/tendermint/backend\<close>) is the engine of the chain: it prepares, seals, verifies
  and finalises headers, finds the validators of a height, pays rewards, queues and gossips messages,
  and passes committed blocks on to the miner.  Validators come from a fixed list or from the staking
  contract (\<^verbatim>\<open>core/state/staking\<close>); seals and validators travel in the extra data of a header
  (\<^verbatim>\<open>core/types\<close>, \<^verbatim>\<open>consensus/tendermint/utils\<close>) as RLP (\<^verbatim>\<open>rlp\<close>).

  \<^bold>\<open>How it is modelled.\<close>  A struct is a record, a pointer that may be nil an option, a hash or address a
  word, an error a value of \<open>error\<close>.  Code that may panic returns an \<open>outcome\<close> (\<open>Done\<close>, \<open>Panic\<close> or
  \<open>Out_Of_Fuel\<close>); a handler of the core maps a state \<open>core\<close> to \<open>Ok\<close>, \<open>Panicked\<close> or \<open>Unfinished\<close> and
  appends what it sends to \<open>outs\<close>.  Where an \<^verbatim>\<open>int64\<close> or \<^verbatim>\<open>uint64\<close> can overflow, the wrap-around is
  written out (\<open>i64\<close>, \<open>u64_sub\<close>, \<open>mod 2 ^ 64\<close>).

  \<^bold>\<open>The theories\<close>, each importing those it builds on:
  \<^item> \<open>Prelude\<close>: machine types, outcomes, errors, lists, counting.  \<open>Common\<close>: \<^verbatim>\<open>Address.Hex\<close> of \<^verbatim>\<open>common/types.go\<close>;
    the text form is injective.
  \<^item> \<open>Rlp\<close>, \<open>Rlp_Codec\<close>: \<^verbatim>\<open>rlp/encode.go\<close>, \<^verbatim>\<open>decode.go\<close>, \<^verbatim>\<open>raw.go\<close>.  The encoder with its deferred
    list headers gives the reference encoding, and the streaming decoder accepts exactly the reference
    encodings.  The locale \<open>codec\<close> is the contract of a decoder; \<open>fields\<close> that of a structure's fields.
  \<^item> \<open>Chain_Types\<close>, \<open>Extra_Data\<close>: headers, blocks and extra data (\<^verbatim>\<open>core/types/block.go\<close>, \<^verbatim>\<open>tendermint.go\<close>,
    \<^verbatim>\<open>utils/utils.go\<close>).  Seals and validators are read back as written and do not change the hash.
  \<^item> \<open>Validator_Set\<close>, \<open>Validator_Ops\<close>: \<^verbatim>\<open>validator/default.go\<close>.  Two quorums share a correct validator (locale
    \<open>quorum_sets\<close>), the proposer rotates fairly, and any sequence of operations refines a finite set.
  \<^item> \<open>Timeouts\<close>: \<^verbatim>\<open>core/timeout.go\<close> and \<^verbatim>\<open>config.go\<close>.  \<open>Messages\<close>: \<^verbatim>\<open>core/messages.go\<close> and \<^verbatim>\<open>types.go\<close>; a counted
    majority is real and final.  \<open>Msg_Storage\<close>: \<^verbatim>\<open>core/sentMsgStorage.go\<close>.  \<open>Round_State\<close>: \<^verbatim>\<open>core/roundState.go\<close>.
  \<^item> \<open>Core\<close>: every handler of \<^verbatim>\<open>consensus.go\<close>, \<^verbatim>\<open>core.go\<close>, \<^verbatim>\<open>handler.go\<close>, \<^verbatim>\<open>catch_up.go\<close>, \<^verbatim>\<open>rebroadcast.go\<close> and
    \<^verbatim>\<open>state_modification.go\<close>, up to \<open>handleEvent\<close>, one round of \<^verbatim>\<open>handleEvents\<close>.
  \<^item> \<open>Voting\<close>: the abstract voting discipline and, in the locale \<open>voting\<close>, that voters who keep it agree.
    \<open>Core_Refinement\<close> and \<open>Core_Safety\<close>: every handler is a sequence of steps of that discipline.
    \<open>Agreement\<close>: the system of many nodes over a lossy, reordering network with faulty validators, as
    the step relation \<open>sys_reach\<close>; correct nodes neither disagree nor vote twice.
  \<^item> \<open>Core_Total\<close>: every handler ends (locale \<open>steady\<close>).  \<open>Core_Outcomes\<close>: what committing comes to, and the
    prevotes that no longer move a node.  \<open>Single_Node\<close>: a chain of one validator run up to its first commit.
  \<^item> \<open>Staking\<close>: the two readers of the staking contract, when they agree and when not.
  \<^item> \<open>Engine\<close>, \<open>Engine_Verify\<close>: \<^verbatim>\<open>backend/engine.go\<close>, \<^verbatim>\<open>staking_validators.go\<close>, \<^verbatim>\<open>fixed.go\<close>.  Accepted headers
    carry a quorum of seals, conflicting ones convict validators, and sealed proposals verify.
  \<^item> \<open>Rewards\<close>: \<^verbatim>\<open>backend/reward.go\<close>; the split conserves the reward and ignores the order of Go's maps.
  \<^item> \<open>Backend_State\<close>: \<^verbatim>\<open>commit_channels.go\<close>, \<^verbatim>\<open>backend/handler.go\<close>, \<^verbatim>\<open>backend.go\<close>; interleavings of sealing,
    committing and cancelling, the message queue, gossip, starting and stopping.
  \<^item> \<open>Clique\<close>: the voting of \<^verbatim>\<open>consensus/clique/snapshot.go\<close>; signers change only by a majority.
    \<open>Trie_Encoding\<close>: \<^verbatim>\<open>trie/encoding.go\<close>.  \<open>Bit_Compress\<close>: \<^verbatim>\<open>common/bitutil/compress.go\<close>.
  \<^item> This theory joins the core and the engine: what a node commits, every engine accepts.

  \<^bold>\<open>Parameters.\<close>  Code outside the repository is an argument: Keccak-256 and SHA3-256, signing and recovering
  a signer, the staking contract's answers and storage, the queue and priority queue packages, the clock and
  random numbers.  A theorem that needs a property of them assumes it by name: \<open>world_ok\<close> (at most a third
  of the validators of a height is faulty), \<open>event_ok\<close> (votes with the signature of a correct validator
  were cast by it), \<open>env_in\<close> (the nodes share hashing, recovery and validators, the header check insists on
  the engine's digest, and the priority queue keeps what is put in), \<open>fifo\<close> (the laws of a queue).

  \<^bold>\<open>Fuel and atomicity.\<close>  \<open>handleMsgLocked\<close> recurses through nested catch-up replies and stored proposals: its
  fuel is the nesting of the message plus one, one for a timeout, two after a new head.  \<open>processFutureMessages\<close> takes one message off its queue per
  round: its fuel is the length of the queue plus one.  \<open>Core_Total\<close> proves that neither runs out.
  \<open>decodeInterface\<close> has the length of its input plus one, and every level of nesting takes a byte.  The
  replay loop of the back end is a \<open>partial_function\<close>, proved to return.  The core handles an event under one
  lock, so an event is one step.  Enqueuing a message is one step; replaying one is two, sending
  and removing, since messages may arrive in between.

  \<^bold>\<open>Not modelled.\<close>  Constructors that only allocate, registration of interfaces, logging and metrics; the delay
  before sealing; reflection and its cache in \<^verbatim>\<open>rlp\<close>, which only select a decoder; storing a clique snapshot
  and the rest of that engine.  Of the code inherited from the Ethereum node: the virtual machine, state,
  trie nodes, database, transaction pool, block insertion, networking, light clients, wallets and
  commands.  They are input and output, goroutines and sockets, or components with a semantics of their own
  that consensus meets only through the interfaces above.
\<close>

section \<open>A committed block is a valid block\<close>

lemma ErrEmptyCommittedSeals_verified:
  assumes "verifyHeader en chain h [] = Done (Some ErrEmptyCommittedSeals)"
    "getValSetFromChain en chain h [] = Done (Inr vs)"
  obtains te where "ExtractTendermintExtra h = Inr te" "MixDigest h = TendermintDigest"
    "verifyProposalSeal en h vs = None" "Difficulty h = Some defaultDifficulty" "Number h \<noteq> None"
proof -
  obtain te where te: "ExtractTendermintExtra h = Inr te"
    using assms(1) by (auto simp: verifyHeader_def split: if_splits sum.splits)
  have cascade: "verifyCascadingFields en chain h [] = Done (Some ErrEmptyCommittedSeals)"
      "MixDigest h = TendermintDigest" "Difficulty h = Some defaultDifficulty" "Number h \<noteq> None"
    using assms(1) by (auto simp: verifyHeader_def split: if_splits)
  have "verifyProposalSeal en h vs \<noteq> Some ErrEmptyCommittedSeals"
    using te by (simp add: verifyProposalSeal_def blockProposer_def split: option.split)
  then have "verifyProposalSeal en h vs = None"
    using cascade(1) assms(2)
    by (auto simp: verifyCascadingFields_def Let_def case_eqs split: if_splits)
  with te cascade that show thesis by blast
qed

lemma sealing_keeps_verdict:
  assumes verdict: "verifyHeader en chain h [] = Done (Some ErrEmptyCommittedSeals)"
      "getValSetFromChain en chain h [] = Done (Inr vs)"
    and te: "ExtractTendermintExtra h = Inr te"
    and h': "h' = put_extra (CopyHeader h) (te\<lparr>CommittedSeal := seals\<rparr>)" "length (Extra h') < 2 ^ 64"
    and seals: "verifyCommittedSeals en h' vs = Done None"
  shows "verifyHeader en chain h' [] = Done None"
proof -
  have old: "MixDigest h = TendermintDigest" "verifyProposalSeal en h vs = None"
      "Difficulty h = Some defaultDifficulty" "Number h \<noteq> None"
    using ErrEmptyCommittedSeals_verified [OF verdict] by blast+
  have copy: "CopyHeader h = h" using old(3,4) by (auto simp: CopyHeader_def)
  have extra: "ExtractTendermintExtra h' = Inr (te\<lparr>CommittedSeal := seals\<rparr>)"
    using extract_put [OF ExtractTendermintExtra_length [OF te]] h' by (simp add: copy)
  have "TendermintFilteredHeader h' False = TendermintFilteredHeader h False"
    unfolding h'(1) copy using te h' by (intro filtered_put) (auto simp: clear_extra_def copy)
  then have "blockProposer en h' = blockProposer en h"
    using te extra by (simp add: blockProposer_def SigHash_def)
  then have "verifyProposalSeal en h' vs = None"
    using old(2) by (simp add: verifyProposalSeal_None h'(1) copy put_extra_def)
  moreover have "Number h' = Number h" "ParentHash h' = ParentHash h" "Time h' = Time h"
    "MixDigest h' = MixDigest h" "Difficulty h' = Difficulty h"
    by (simp_all add: h'(1) copy put_extra_def)
  ultimately show ?thesis
    using verdict te extra old seals
    by (auto simp: verifyHeader_def verifyCascadingFields_def getValSetFromChain_def header_number_def Let_def
        case_eqs split: if_splits)
qed

text \<open>The validators whose votes the seals come from.\<close>

definition seal_voters :: "messageSet \<Rightarrow> hash \<Rightarrow> address list" where
  "seal_voters ms h = filter (\<lambda>a. slot_vote ms h a \<noteq> None) (validators (ms_valSet ms))"

lemma seals_of_voters:
  assumes "\<And>a v. slot_vote ms h a = Some v \<Longrightarrow> f (vSeal v) = Some a"
  shows "map f (seals_of ms h) = map Some (seal_voters ms h)"
  unfolding seals_of_def seal_voters_def List.map_filter_def using assms by auto

lemma seals_of_all:
  assumes "\<And>a v. slot_vote ms h a = Some v \<Longrightarrow> P (vSeal v)"
  shows "list_all P (seals_of ms h)"
  unfolding seals_of_def List.map_filter_def list_all_iff using assms by auto

lemma genuine_seals_verify:
  assumes "ms_ok ms" "maj23 ms = Some h" "validators vs = validators (ms_valSet ms)" "0 \<le> setHeight vs"
    and "\<And>a v. slot_vote ms h a = Some v \<Longrightarrow> GetSignatureAddress en (PrepareCommittedSeal h) (vSeal v) = Some a"
    and "ExtractTendermintExtra hdr = Inr te" "Header_Hash (en_kec en) hdr = h"
    and "CommittedSeal te = take (nat (MinMajority (ms_valSet ms))) (seals_of ms h)"
  shows "verifyCommittedSeals en hdr vs = Done None"
proof -
  let ?k = "nat (MinMajority (ms_valSet ms))" and ?d = "PrepareCommittedSeal h"
  have vs: "valset_ok (ms_valSet ms)" using ms_okD(1) [OF assms(1)] .
  have k: "0 < MinMajority (ms_valSet ms)" "MinMajority (ms_valSet ms) \<le> int (length (seals_of ms h))"
    using MinMajority_pos [OF vs] ms_okD(8) [OF assms(1)] assms(2) by (auto simp: length_seals_of [OF assms(1)])
  have signers: "map (GetSignatureAddress en ?d) (CommittedSeal te) = map Some (take ?k (seal_voters ms h))"
    using seals_of_voters [of ms h "GetSignatureAddress en ?d", OF assms(5)] assms(8) by (simp flip: take_map)
  have "length (seal_voters ms h) = length (seals_of ms h)"
    using arg_cong [OF seals_of_voters [of ms h "GetSignatureAddress en ?d", OF assms(5)], of length] by simp
  moreover have "MinMajority vs = MinMajority (ms_valSet ms)"
    using assms(3) by (simp add: MinMajority_def Size_def valF_def)
  moreover have d: "distinct (validators vs)" using vs assms(3) by (simp add: valset_ok_def)
  moreover have "distinct (take ?k (seal_voters ms h))" "set (take ?k (seal_voters ms h)) \<subseteq> set (validators vs)"
    using d assms(3) set_take_subset [of ?k "seal_voters ms h"] by (auto simp: seal_voters_def)
  moreover have "CommittedSeal te \<noteq> []" using assms(8) k by auto
  ultimately show ?thesis
    using signers k assms(4,6,7) by (intro verifyCommittedSeals_complete [where signers = "take ?k (seal_voters ms h)"]) auto
qed

lemma finalizeCommit_sealed:
  assumes "sBlockNumber (currentState c) = n" "rs_step (currentState c) = RoundStepCommit"
    "PrecommitsReceived (currentState c) (commitRound (currentState c)) = Some ms"
    "proposalReceived (currentState c) = Some p" "maj23 ms = Some (bhash e (pBlock p))" "bhash e (pBlock p) \<noteq> 0"
    "FinalizeBlock e p c = Done (Inr b)"
  shows "finalizeCommit e n c = Ok () (c\<lparr>outs := outs c @ [effect.Commit b]\<rparr>)"
  using assms
  by (simp add: finalizeCommit_def TwoThirdMajority_def GetPrecommitsByRound_def get_def bnd_def lift_def
      emit_def modify_def)

text \<open>
  C10.  From proposal to block: when a node in the commit step holds two thirds of the precommits for a
  proposal that the engine found complete but for its committed seals, and the seals of these
  precommits are signatures of their senders, the node commits a block with the hash of the proposal
  which the engine of any node with the same chain accepts in full.
\<close>

theorem commit_verifies:
  assumes "sBlockNumber (currentState c) = n" "rs_step (currentState c) = RoundStepCommit"
    "PrecommitsReceived (currentState c) (commitRound (currentState c)) = Some ms" "ms_ok ms" "valSet c = ms_valSet ms"
    "proposalReceived (currentState c) = Some p" "maj23 ms = Some (Block_Hash (e_kec e) (pBlock p))"
    "Block_Hash (e_kec e) (pBlock p) \<noteq> 0"
    and engine: "en_kec en = e_kec e"
    "VerifyHeader en chain (block_header (pBlock p)) = Done (Some ErrEmptyCommittedSeals)"
    "getValSetFromChain en chain (block_header (pBlock p)) [] = Done (Inr vs)"
    "validators vs = validators (ms_valSet ms)" "0 \<le> setHeight vs"
    and seals: "\<forall>a v. slot_vote ms (Block_Hash (e_kec e) (pBlock p)) a = Some v \<longrightarrow> length (vSeal v) = 65 \<and>
      GetSignatureAddress en (PrepareCommittedSeal (Block_Hash (e_kec e) (pBlock p))) (vSeal v) = Some a"
  shows "\<exists>b. finalizeCommit e n c = Ok () (c\<lparr>outs := outs c @ [effect.Commit b]\<rparr>) \<and>
    (length (Extra (block_header b)) < 2 ^ 64 \<longrightarrow>
     Block_Hash (e_kec e) b = Block_Hash (e_kec e) (pBlock p) \<and> VerifyHeader en chain (block_header b) = Done None)"
proof -
  let ?h = "block_header (pBlock p)" and ?x = "Block_Hash (e_kec e) (pBlock p)"
  let ?seals = "take (nat (MinMajority (ms_valSet ms))) (seals_of ms ?x)"
  obtain te where te: "ExtractTendermintExtra ?h = Inr te" "MixDigest ?h = TendermintDigest"
    using ErrEmptyCommittedSeals_verified [OF engine(2) [unfolded VerifyHeader_def] engine(3)] by blast
  let ?h' = "put_extra (CopyHeader ?h) (te\<lparr>CommittedSeal := ?seals\<rparr>)"
  have "list_all (\<lambda>s. length s = 65) (seals_of ms ?x)" using seals by (intro seals_of_all) blast
  then have "list_all (\<lambda>s. length s = 65) ?seals" by (auto simp: list_all_iff dest: in_set_takeD)
  then have "FinalizeBlock e p c = Done (Inr (WithSeal (pBlock p) ?h'))"
    using FinalizeBlock_outcome [OF assms(3,4) _ assms(7) te refl] by (simp add: assms(5) Block_Header_def)
  then have run: "finalizeCommit e n c = Ok () (c\<lparr>outs := outs c @ [effect.Commit (WithSeal (pBlock p) ?h')]\<rparr>)"
    using assms(1-3,6-8) by (intro finalizeCommit_sealed)
  have "VerifyHeader en chain ?h' = Done None \<and> Header_Hash (e_kec e) ?h' = ?x" if len: "length (Extra ?h') < 2 ^ 64"
  proof -
    have extra: "ExtractTendermintExtra ?h' = Inr (te\<lparr>CommittedSeal := ?seals\<rparr>)"
      using len ExtractTendermintExtra_length [OF te(1)] by (intro extract_put) simp_all
    have "TendermintFilteredHeader ?h' True = TendermintFilteredHeader (CopyHeader ?h) True"
      using len te(1) by (intro filtered_put) (simp_all add: clear_extra_def)
    then have hash: "Header_Hash (e_kec e) ?h' = ?x"
      using Header_Hash_filtered [of ?h' "CopyHeader ?h" "e_kec e"] Header_Hash_copy [OF te] te
        filtered_extract [of "CopyHeader ?h" te True] by (simp add: Block_Hash_def)
    have "verifyCommittedSeals en ?h' vs = Done None"
      using genuine_seals_verify [OF assms(4,7) engine(4,5) _ extra] seals hash engine(1) by simp
    then have "verifyHeader en chain ?h' [] = Done None"
      by (rule sealing_keeps_verdict [OF engine(2) [unfolded VerifyHeader_def] engine(3) te(1) refl len])
    with hash show ?thesis by (simp add: VerifyHeader_def)
  qed
  with run show ?thesis by (auto simp: WithSeal_def Block_Hash_def)
qed

text \<open>The single validator commits its block 1.\<close>

definition vc_block :: block where
  "vc_block = \<lparr>block_header = extra_header\<lparr>Coinbase := 1, ParentHash := 1\<rparr>, uncles = [], transactions = []\<rparr>"

definition vc_engine :: engine where
  "vc_engine = ex_engine\<lparr>en_kec := \<lambda>_. 1\<rparr>"

definition vc_chain :: chain where
  "vc_chain = ex_chain\<lparr>ch_GetHeader := \<lambda>h n. if h = 1 \<and> n = 0 then Some ex_parent else None\<rparr>"

definition vc_core :: core where
  "vc_core = (sealed_core (replicate 65 0))
    \<lparr>currentState := (currentState (sealed_core (replicate 65 0)))
       \<lparr>proposalReceived := Some \<lparr>pBlock = vc_block, pRound = 0, pPOLRound = -1\<rparr>\<rparr>\<rparr>"

lemma vc_extra:
  "ExtractTendermintExtra (block_header vc_block) = Inr \<lparr>Seal = [], CommittedSeal = [], ValidatorAdds = []\<rparr>"
proof -
  have "ExtractTendermintExtra (block_header vc_block) = ExtractTendermintExtra extra_header"
    by (simp add: ExtractTendermintExtra_def vc_block_def)
  then show ?thesis by (simp add: extra_header_extract)
qed

lemma vc_valset: "getValSetFromChain vc_engine vc_chain (block_header vc_block) [] = Done (Inr ex_valset)"
  by (simp add: getValSetFromChain_def header_number_def Uint64_def GetCheckpointNumber_def ex_engine_def GetValSet_def
      fixed_GetValSet_def newDefaultSet_nonempty in_i64_def ex_valset_def vc_engine_def vc_block_def extra_header_def)

lemma vc_proposal: "VerifyHeader vc_engine vc_chain (block_header vc_block) = Done (Some ErrEmptyCommittedSeals)"
proof -
  have fields: "Number (block_header vc_block) = Some 1" "MixDigest (block_header vc_block) = TendermintDigest"
    "Difficulty (block_header vc_block) = Some 1" "Time (block_header vc_block) = 0" "Coinbase (block_header vc_block) = 1"
    "ParentHash (block_header vc_block) = 1" "header_number (block_header vc_block) = Done 1"
    by (simp_all add: vc_block_def extra_header_def TendermintDigest_def header_number_def Uint64_def)
  moreover have "verifyProposalSeal vc_engine (block_header vc_block) ex_valset = None"
    by (simp add: verifyProposalSeal_None blockProposer_def vc_extra GetSignatureAddress_def ex_valset_def vc_engine_def fields)
  moreover have "ch_GetHeader vc_chain 1 0 = Some ex_parent" "en_now vc_engine = 5" "Header_Hash (en_kec vc_engine) h = 1" for h
    by (simp_all add: vc_chain_def vc_engine_def)
  ultimately show ?thesis
    by (simp add: VerifyHeader_def verifyHeader_def verifyCascadingFields_def vc_extra defaultDifficulty_def vc_valset
        verifyCommittedSeals_def)
qed

theorem commit_verifies_witness:
  "\<exists>b. finalizeCommit (one_env 1) 1 vc_core = Ok () (vc_core\<lparr>outs := outs vc_core @ [effect.Commit b]\<rparr>) \<and>
    (length (Extra (block_header b)) < 2 ^ 64 \<longrightarrow> VerifyHeader vc_engine vc_chain (block_header b) = Done None)"
proof -
  let ?seal = "replicate 65 0"
  have state: "sBlockNumber (currentState vc_core) = 1" "rs_step (currentState vc_core) = RoundStepCommit"
    "PrecommitsReceived (currentState vc_core) (commitRound (currentState vc_core)) = Some (sealed_set ?seal)"
    "valSet vc_core = ms_valSet (sealed_set ?seal)"
    "proposalReceived (currentState vc_core) = Some \<lparr>pBlock = vc_block, pRound = 0, pPOLRound = -1\<rparr>"
    by (simp_all add: vc_core_def sealed_core_def one_cores one_run sealed_set_ok)
  have kec: "e_kec (one_env 1) = (\<lambda>_. 1)" by (simp add: one_env_def)
  have "\<forall>a v. slot_vote (sealed_set ?seal) 1 a = Some v \<longrightarrow> length (vSeal v) = 65 \<and>
      GetSignatureAddress vc_engine (PrepareCommittedSeal 1) (vSeal v) = Some a"
    by (auto simp: slot_vote_def sealed_set_def newMessageSet_def one_msg_def one_valset_def
        GetSignatureAddress_def vc_engine_def split: if_splits)
  then show ?thesis
    using commit_verifies [OF state(1-3) sealed_set_ok(1) state(4,5), of "one_env 1" vc_engine vc_chain ex_valset]
      vc_proposal vc_valset sealed_set_ok(2,3)
    by (auto simp: kec vc_engine_def ex_valset_def one_valset_def)
qed

end
